(* ===== verification/Roxy_Prelude.thy ===== *)
theory Roxy_Prelude
  imports Complex_Main "HOL-Library.Word" "HOL-Library.Sublist"
begin

text \<open>
  Shared vocabulary of the development: the outcome of a Rust call (a value, an error, or a
  panic), machine integers and bytes, big-endian fields, and the parts of Rust's standard
  library on strings that the components call (UTF-8 validation, white space, splitting,
  decimal integers).  A Rust string is modelled by the list of its UTF-8 bytes: a
  \<^typ>\<open>string\<close>, one \<^typ>\<open>char\<close> per byte.  A byte buffer is a list of
  8-bit words.  Arithmetic is that of the release build, which wraps (the release profile
  of \<^verbatim>\<open>Cargo.toml\<close> does not switch overflow checks on).
\<close>

unbundle bit_operations_syntax

type_synonym byte = "8 word"
type_synonym bytes = "8 word list"
type_synonym u16 = "16 word"
type_synonym u32 = "32 word"
type_synonym u64 = "64 word"

named_theorems res_simps \<open>sequencing of outcomes\<close>
named_theorems codec_simps \<open>lengths and round trips of encoders\<close>

section \<open>Outcomes\<close>

text \<open>
  \<^verbatim>\<open>Result<T, E>\<close> with a third value for a panic (a failed assertion, an
  \<^verbatim>\<open>expect\<close> on \<^verbatim>\<open>None\<close>, an index out of range, \<^verbatim>\<open>todo!()\<close>).
\<close>

datatype ('e, 'a) res = Ok 'a | Err 'e | Panic

fun bind_res :: "('e, 'a) res \<Rightarrow> ('a \<Rightarrow> ('e, 'b) res) \<Rightarrow> ('e, 'b) res" where
  "bind_res (Ok x) f = f x"
| "bind_res (Err e) f = Err e"
| "bind_res Panic f = Panic"

fun map_err :: "('e \<Rightarrow> 'f) \<Rightarrow> ('e, 'a) res \<Rightarrow> ('f, 'a) res" where
  "map_err h (Ok x) = Ok x"
| "map_err h (Err e) = Err (h e)"
| "map_err h Panic = Panic"

fun map_ok :: "('a \<Rightarrow> 'b) \<Rightarrow> ('e, 'a) res \<Rightarrow> ('e, 'b) res" where
  "map_ok h (Ok x) = Ok (h x)"
| "map_ok h (Err e) = Err e"
| "map_ok h Panic = Panic"

fun of_option :: "'e \<Rightarrow> 'a option \<Rightarrow> ('e, 'a) res" where
  "of_option e (Some x) = Ok x"
| "of_option e None = Err e"

lemma bind_res_cong [fundef_cong]:
  "m = m' \<Longrightarrow> (\<And>x. m' = Ok x \<Longrightarrow> f x = g x) \<Longrightarrow> bind_res m f = bind_res m' g"
  by (cases m') auto

lemma bind_res_assoc [res_simps]:
  "bind_res (bind_res m f) g = bind_res m (\<lambda>x. bind_res (f x) g)"
  by (cases m) auto

lemma bind_res_eq_Ok [res_simps]:
  "bind_res m f = Ok y \<longleftrightarrow> (\<exists>x. m = Ok x \<and> f x = Ok y)"
  by (cases m) auto

lemma bind_res_eq_Panic [res_simps]:
  "bind_res m f = Panic \<longleftrightarrow> m = Panic \<or> (\<exists>x. m = Ok x \<and> f x = Panic)"
  by (cases m) auto

lemma bind_res_eq_Err [res_simps]:
  "bind_res m f = Err e \<longleftrightarrow> m = Err e \<or> (\<exists>x. m = Ok x \<and> f x = Err e)"
  by (cases m) auto

lemma map_err_eq_Ok [simp]: "map_err h m = Ok y \<longleftrightarrow> m = Ok y"
  by (cases m) auto

lemma map_err_eq_Panic [simp]: "map_err h m = Panic \<longleftrightarrow> m = Panic"
  by (cases m) auto

lemma map_ok_eq_Panic [simp]: "map_ok h m = Panic \<longleftrightarrow> m = Panic"
  by (cases m) auto

lemma map_ok_comp [simp]: "map_ok g (map_ok h m) = map_ok (\<lambda>x. g (h x)) m"
  by (cases m) auto

lemma map_ok_id [simp]: "map_ok (\<lambda>x. x) m = m"
  by (cases m) auto

lemma map_ok_eq_Ok: "map_ok h m = Ok y \<longleftrightarrow> (\<exists>x. m = Ok x \<and> y = h x)"
  by (cases m) auto

lemma of_option_eq_Panic [simp]: "of_option e m \<noteq> Panic"
  by (cases m) auto

lemma of_option_eq_Ok [simp]: "of_option e m = Ok x \<longleftrightarrow> m = Some x"
  by (cases m) auto

section \<open>Characters, bytes and big-endian fields\<close>

definition byte_of_char :: "char \<Rightarrow> byte" where
  "byte_of_char c = of_nat (of_char c)"

definition char_of_byte :: "byte \<Rightarrow> char" where
  "char_of_byte b = char_of (unat b)"

definition as_bytes :: "string \<Rightarrow> bytes" where
  "as_bytes s = map byte_of_char s"

definition string_of_bytes :: "bytes \<Rightarrow> string" where
  "string_of_bytes bs = map char_of_byte bs"

lemma unat_byte_of_char [simp]: "unat (byte_of_char c) = of_char c"
  using nat_of_char_less_256 [of c]
  by (simp add: byte_of_char_def unat_of_nat)

lemma char_of_byte_of_char [simp]: "char_of_byte (byte_of_char c) = c"
  by (simp add: char_of_byte_def)

lemma byte_of_char_of_byte [simp]: "byte_of_char (char_of_byte b) = b"
proof (rule word_unat_eq_iff [THEN iffD2])
  have "unat b < 256" using unsigned_less [of b, where 'a = nat] by simp
  then show "unat (byte_of_char (char_of_byte b)) = unat b" by (simp add: char_of_byte_def)
qed

lemma length_as_bytes [simp]: "length (as_bytes s) = length s"
  by (simp add: as_bytes_def)

lemma length_string_of_bytes [simp]: "length (string_of_bytes bs) = length bs"
  by (simp add: string_of_bytes_def)

lemma string_of_bytes_as_bytes [simp]: "string_of_bytes (as_bytes s) = s"
  by (simp add: string_of_bytes_def as_bytes_def o_def)

lemma as_bytes_string_of_bytes [simp]: "as_bytes (string_of_bytes bs) = bs"
  by (simp add: string_of_bytes_def as_bytes_def o_def)

lemma as_bytes_append [simp]: "as_bytes (s @ t) = as_bytes s @ as_bytes t"
  by (simp add: as_bytes_def)

lemma unat_byte_le: "unat (b :: byte) \<le> 255"
  using unsigned_less [of b, where 'a = nat] by simp

lemma unat_u16_le: "unat (w :: u16) \<le> 65535"
  using unsigned_less [of w, where 'a = nat] by simp

lemma unat_byte_of_u16: "unat (ucast (w :: u16) :: byte) = unat w mod 256"
  by (simp add: unsigned_ucast_eq take_bit_eq_mod)

lemma unat_u16_of_byte: "unat (ucast (b :: byte) :: u16) = unat b"
  using unat_byte_le [of b] by (simp add: unsigned_ucast_eq take_bit_nat_eq_self_iff)

lemma unat_drop_8: "unat (drop_bit 8 (w :: u16)) = unat w div 256"
  unfolding unat_drop_bit_eq by (simp add: drop_bit_eq_div)

text \<open>\<^verbatim>\<open>put_u16\<close>, \<^verbatim>\<open>put_u64\<close> and the readers that undo them.\<close>

definition be16 :: "u16 \<Rightarrow> bytes" where
  "be16 w = [ucast (drop_bit 8 w), ucast w]"

definition of_be16 :: "byte \<Rightarrow> byte \<Rightarrow> u16" where
  "of_be16 a b = push_bit 8 (ucast a) OR ucast b"

definition be64 :: "u64 \<Rightarrow> bytes" where
  "be64 w = map (\<lambda>k. ucast (drop_bit (8 * k) w)) [7, 6, 5, 4, 3, 2, 1, 0]"

fun of_be :: "'a::len word \<Rightarrow> bytes \<Rightarrow> 'a word" where
  "of_be acc [] = acc"
| "of_be acc (b # bs) = of_be (push_bit 8 acc OR ucast b) bs"

lemma length_be16 [simp, codec_simps]: "length (be16 w) = 2"
  by (simp add: be16_def)

lemma length_be64 [simp, codec_simps]: "length (be64 w) = 8"
  by (simp add: be64_def)

lemma of_be16_be16 [simp, codec_simps]: "of_be16 (ucast (drop_bit 8 w)) (ucast w) = w"
  unfolding of_be16_def
  by (rule bit_word_eqI) (auto simp: bit_simps)

lemma be16_of_be16 [codec_simps]: "be16 (of_be16 a b) = [a, b]"
proof -
  have "\<not> bit b (8 + n)" for n
    using bit_imp_le_length [of b "8 + n"] by auto
  then show ?thesis
    by (auto simp: be16_def of_be16_def bit_simps intro!: bit_word_eqI)
qed

text \<open>One more byte shifts the accumulated prefix of \<open>w\<close> by eight bits.\<close>

lemma be_step:
  "push_bit 8 (drop_bit (8 + k) w) OR ucast (ucast (drop_bit k w) :: byte) = drop_bit k w"
  for w :: "'a::len word"
  by (rule bit_word_eqI) (auto simp: bit_simps)

lemma of_be_be16 [simp, codec_simps]: "of_be (0 :: u16) (be16 w) = w"
  using be_step [of 8 w] be_step [of 0 w]
  by (simp add: be16_def drop_bit_eq_zero_iff_not_bit_last)

lemma of_be_be64 [simp, codec_simps]: "of_be (0 :: u64) (be64 w) = w"
  using be_step [of 56 w] be_step [of 48 w] be_step [of 40 w] be_step [of 32 w]
    be_step [of 24 w] be_step [of 16 w] be_step [of 8 w] be_step [of 0 w]
  by (simp add: be64_def)

text \<open>\<^verbatim>\<open>Vec::resize(n, 0)\<close>.\<close>

definition resize :: "nat \<Rightarrow> bytes \<Rightarrow> bytes" where
  "resize n b = take n b @ replicate (n - length b) 0"

section \<open>The last elements of a list\<close>

definition keep_last :: "nat \<Rightarrow> 'a list \<Rightarrow> 'a list" where
  "keep_last n xs = drop (length xs - n) xs"

lemma keep_last_short [simp]: "length xs \<le> n \<Longrightarrow> keep_last n xs = xs"
  by (simp add: keep_last_def)

lemma length_keep_last [simp]: "length (keep_last n xs) = min n (length xs)"
  by (auto simp: keep_last_def)

lemma keep_last_append [simp]: "keep_last n (keep_last n xs @ ys) = keep_last n (xs @ ys)"
proof (cases "length xs \<le> n")
  case False
  then have "keep_last n xs @ ys = drop (length xs - n) (xs @ ys)" by (simp add: keep_last_def)
  with False show ?thesis by (simp add: keep_last_def add.commute)
qed simp

lemma keep_last_push:
  "length h \<le> n \<Longrightarrow> 0 < n \<Longrightarrow> (if length h = n then tl h else h) @ [x] = keep_last n (h @ [x])"
  by (cases h) (auto simp: keep_last_def drop_Suc)

end
