(* ===== verification/Rust_Strings.thy ===== *)
theory Rust_Strings
  imports Roxy_Prelude
begin

text \<open>
  The parts of Rust's \<^verbatim>\<open>str\<close> and integer parsing that the program calls:
  \<^verbatim>\<open>String::from_utf8\<close>, \<^verbatim>\<open>trim\<close>, \<^verbatim>\<open>split\<close>,
  \<^verbatim>\<open>splitn(2, _)\<close>, \<^verbatim>\<open>split_whitespace\<close>, \<^verbatim>\<open>lines\<close>,
  \<^verbatim>\<open>parse::<uN>()\<close> and the decimal \<^verbatim>\<open>Display\<close> of unsigned integers.
\<close>

section \<open>UTF-8\<close>

definition is_cont :: "byte \<Rightarrow> bool" where
  "is_cont b \<longleftrightarrow> 0x80 \<le> b \<and> b \<le> 0xBF"

text \<open>Length of the scalar value at the front, 0 if there is none.\<close>

definition utf8_char_len :: "bytes \<Rightarrow> nat" where
  "utf8_char_len bs = (case bs of
     [] \<Rightarrow> 0
   | a # r1 \<Rightarrow> if a < 0x80 then 1 else (case r1 of
     [] \<Rightarrow> 0
   | b # r2 \<Rightarrow> if 0xC2 \<le> a \<and> a \<le> 0xDF \<and> is_cont b then 2 else (case r2 of
     [] \<Rightarrow> 0
   | c # r3 \<Rightarrow>
       if is_cont c \<and>
          (a = 0xE0 \<and> 0xA0 \<le> b \<and> b \<le> 0xBF
           \<or> 0xE1 \<le> a \<and> a \<le> 0xEC \<and> is_cont b
           \<or> a = 0xED \<and> 0x80 \<le> b \<and> b \<le> 0x9F
           \<or> 0xEE \<le> a \<and> a \<le> 0xEF \<and> is_cont b) then 3
       else (case r3 of
     [] \<Rightarrow> 0
   | d # _ \<Rightarrow>
       if is_cont c \<and> is_cont d \<and>
          (a = 0xF0 \<and> 0x90 \<le> b \<and> b \<le> 0xBF
           \<or> 0xF1 \<le> a \<and> a \<le> 0xF3 \<and> is_cont b
           \<or> a = 0xF4 \<and> 0x80 \<le> b \<and> b \<le> 0x8F) then 4
       else 0))))"

fun valid_utf8 :: "bytes \<Rightarrow> bool" where
  "valid_utf8 bs =
     (if bs = [] then True
      else if utf8_char_len bs = 0 then False
      else valid_utf8 (drop (utf8_char_len bs) bs))"

declare valid_utf8.simps [simp del]

definition from_utf8 :: "bytes \<Rightarrow> string option" where
  "from_utf8 bs = (if valid_utf8 bs then Some (string_of_bytes bs) else None)"

definition is_ascii :: "string \<Rightarrow> bool" where
  "is_ascii s \<longleftrightarrow> (\<forall>c \<in> set s. of_char c < (128 :: nat))"

lemma valid_utf8_Nil [simp]: "valid_utf8 []"
  by (simp add: valid_utf8.simps)

lemma valid_utf8_ascii_Cons [simp]: "b < 0x80 \<Longrightarrow> valid_utf8 (b # bs) = valid_utf8 bs"
  by (subst valid_utf8.simps) (simp add: utf8_char_len_def)

lemma byte_of_char_ascii [simp]: "byte_of_char c < 0x80 \<longleftrightarrow> of_char c < (128 :: nat)"
  by (simp add: word_less_nat_alt)

lemma valid_utf8_ascii: "is_ascii s \<Longrightarrow> valid_utf8 (as_bytes s)"
  by (induction s) (simp_all add: as_bytes_def is_ascii_def)

lemma from_utf8_as_bytes [simp]: "valid_utf8 (as_bytes s) \<Longrightarrow> from_utf8 (as_bytes s) = Some s"
  by (simp add: from_utf8_def)

lemma from_utf8_eq_Some: "from_utf8 bs = Some s \<longleftrightarrow> valid_utf8 bs \<and> bs = as_bytes s"
  by (auto simp: from_utf8_def)

lemma utf8_char_len_append: "utf8_char_len bs \<noteq> 0 \<Longrightarrow> utf8_char_len (bs @ r) = utf8_char_len bs"
  by (cases bs; cases "tl bs"; cases "tl (tl bs)"; cases "tl (tl (tl bs))")
    (auto simp: utf8_char_len_def split: if_split_asm)

lemma utf8_char_len_le: "utf8_char_len bs \<le> length bs"
  by (cases bs; cases "tl bs"; cases "tl (tl bs)"; cases "tl (tl (tl bs))")
    (simp_all add: utf8_char_len_def)

lemma valid_utf8_append: "valid_utf8 a \<Longrightarrow> valid_utf8 b \<Longrightarrow> valid_utf8 (a @ b)"
proof (induction a rule: valid_utf8.induct)
  case (1 a)
  show ?case
  proof (cases "a = []")
    case False
    with "1.prems"(1) have n: "utf8_char_len a \<noteq> 0" "valid_utf8 (drop (utf8_char_len a) a)"
      by (subst (asm) valid_utf8.simps, simp split: if_splits)+
    then have "valid_utf8 (drop (utf8_char_len a) a @ b)" using "1.IH" False "1.prems"(2) by simp
    then show ?thesis
      using n(1) False utf8_char_len_append [OF n(1), of b] utf8_char_len_le [of a]
      by (subst valid_utf8.simps) simp
  qed (use "1.prems" in simp)
qed
text \<open>A valid text can be cut where a scalar value starts.\<close>

lemma valid_utf8_cancel: "valid_utf8 a \<Longrightarrow> valid_utf8 (a @ b) \<Longrightarrow> valid_utf8 b"
proof (induction a rule: valid_utf8.induct)
  case (1 a)
  show ?case
  proof (cases "a = []")
    case False
    with "1.prems"(1) have n: "utf8_char_len a \<noteq> 0" "valid_utf8 (drop (utf8_char_len a) a)"
      by (subst (asm) valid_utf8.simps, simp split: if_splits)+
    have "valid_utf8 (drop (utf8_char_len a) a @ b)"
      using "1.prems"(2) n(1) False utf8_char_len_append [OF n(1), of b] utf8_char_len_le [of a]
      by (subst (asm) valid_utf8.simps) simp
    with "1.IH" n False show ?thesis by blast
  qed (use "1.prems" in simp)
qed

lemma utf8_char_len_exact: "utf8_char_len (take (utf8_char_len bs) bs) = utf8_char_len bs"
  by (cases bs; cases "tl bs"; cases "tl (tl bs)"; cases "tl (tl (tl bs))")
    (auto simp: utf8_char_len_def)

lemma utf8_char_len_take:
  assumes "utf8_char_len (a @ b) \<le> length a" and "utf8_char_len (a @ b) \<noteq> 0"
  shows "utf8_char_len a = utf8_char_len (a @ b)"
proof -
  let ?n = "utf8_char_len (a @ b)"
  have "utf8_char_len (take ?n a) = ?n" using utf8_char_len_exact [of "a @ b"] assms(1) by simp
  with assms(2) utf8_char_len_append [of "take ?n a" "drop ?n a"] show ?thesis by simp
qed

lemma is_cont_range:
  "0xA0 \<le> b \<Longrightarrow> b \<le> 0xBF \<Longrightarrow> is_cont b" "0x90 \<le> b \<Longrightarrow> b \<le> 0xBF \<Longrightarrow> is_cont b"
  "0x80 \<le> b \<Longrightarrow> b \<le> 0x9F \<Longrightarrow> is_cont b" "0x80 \<le> b \<Longrightarrow> b \<le> 0x8F \<Longrightarrow> is_cont b"
  by (simp_all add: is_cont_def word_le_nat_alt)

lemma utf8_char_len_conts:
  "1 < utf8_char_len (a # b # r) \<Longrightarrow> is_cont b"
  "2 < utf8_char_len (a # b # c # r) \<Longrightarrow> is_cont c"
  "3 < utf8_char_len (a # b # c # d # r) \<Longrightarrow> is_cont d"
  by (unfold utf8_char_len_def list.case; (split if_split_asm list.split_asm | simp | blast intro: is_cont_range)+)+

lemma utf8_char_len_cont:
  assumes "0 < k" and "k < utf8_char_len bs"
  shows "is_cont (bs ! k)"
proof -
  have "utf8_char_len bs \<le> 4" by (simp add: utf8_char_len_def split: list.split)
  moreover have len: "k < length bs" using assms(2) utf8_char_len_le [of bs] by linarith
  ultimately consider "k = 1" "2 \<le> length bs" | "k = 2" "3 \<le> length bs" | "k = 3" "4 \<le> length bs"
    using assms by linarith
  then show ?thesis
  proof cases
    case 1
    then obtain a b r where "bs = a # b # r" by (cases bs; cases "tl bs") auto
    with 1 assms(2) utf8_char_len_conts(1) [of a b r] show ?thesis by simp
  next
    case 2
    then obtain a b c r where "bs = a # b # c # r" by (cases bs; cases "tl bs"; cases "tl (tl bs)") auto
    with 2 assms(2) utf8_char_len_conts(2) [of a b c r] show ?thesis by simp
  next
    case 3
    then obtain a b c d r where "bs = a # b # c # d # r"
      by (cases bs; cases "tl bs"; cases "tl (tl bs)"; cases "tl (tl (tl bs))") auto
    with 3 assms(2) utf8_char_len_conts(3) [of a b c d r] show ?thesis by simp
  qed
qed

lemma valid_utf8_step:
  "bs \<noteq> [] \<Longrightarrow> valid_utf8 bs \<longleftrightarrow> utf8_char_len bs \<noteq> 0 \<and> valid_utf8 (drop (utf8_char_len bs) bs)"
  by (subst valid_utf8.simps) simp

lemma valid_utf8_cut: "valid_utf8 (a @ x # r) \<Longrightarrow> \<not> is_cont x \<Longrightarrow> valid_utf8 a"
proof (induction "length a" arbitrary: a rule: less_induct)
  case less
  show ?case
  proof (cases "a = []")
    case False
    define n where "n = utf8_char_len (a @ x # r)"
    from less.prems(1) False have n: "n \<noteq> 0" "valid_utf8 (drop n (a @ x # r))"
      using valid_utf8_step [of "a @ x # r"] by (simp_all add: n_def)
    have le: "n \<le> length a"
    proof (rule ccontr)
      assume "\<not> n \<le> length a"
      then have "is_cont ((a @ x # r) ! length a)"
        using False unfolding n_def by (intro utf8_char_len_cont) simp_all
      with less.prems(2) show False by (simp only: nth_append_length)
    qed
    have "utf8_char_len a = n" using utf8_char_len_take [of a "x # r"] le n(1) by (simp add: n_def)
    moreover have "length (drop n a) < length a" using n(1) False by simp
    moreover have "valid_utf8 (drop n a @ x # r)" using n(2) le by simp
    ultimately show ?thesis using less.hyps less.prems(2) n(1) False by (simp add: valid_utf8_step)
  qed simp
qed

section \<open>White space\<close>

text \<open>The UTF-8 encodings of the code points with Unicode property \<^verbatim>\<open>White_Space\<close>.\<close>

definition white_spaces :: "string list" where
  "white_spaces =
     [[CHR 0x09], [CHR 0x0A], [CHR 0x0B], [CHR 0x0C], [CHR 0x0D], [CHR 0x20],
      [CHR 0xC2, CHR 0x85], [CHR 0xC2, CHR 0xA0], [CHR 0xE1, CHR 0x9A, CHR 0x80],
      [CHR 0xE2, CHR 0x80, CHR 0x80], [CHR 0xE2, CHR 0x80, CHR 0x81],
      [CHR 0xE2, CHR 0x80, CHR 0x82], [CHR 0xE2, CHR 0x80, CHR 0x83],
      [CHR 0xE2, CHR 0x80, CHR 0x84], [CHR 0xE2, CHR 0x80, CHR 0x85],
      [CHR 0xE2, CHR 0x80, CHR 0x86], [CHR 0xE2, CHR 0x80, CHR 0x87],
      [CHR 0xE2, CHR 0x80, CHR 0x88], [CHR 0xE2, CHR 0x80, CHR 0x89],
      [CHR 0xE2, CHR 0x80, CHR 0x8A], [CHR 0xE2, CHR 0x80, CHR 0xA8],
      [CHR 0xE2, CHR 0x80, CHR 0xA9], [CHR 0xE2, CHR 0x80, CHR 0xAF],
      [CHR 0xE2, CHR 0x81, CHR 0x9F], [CHR 0xE3, CHR 0x80, CHR 0x80]]"

text \<open>Number of bytes of the longest listed encoding that starts the string, 0 if none.\<close>

fun prefix_len :: "string list \<Rightarrow> string \<Rightarrow> nat" where
  "prefix_len [] s = 0"
| "prefix_len (e # es) s = (if e \<noteq> [] \<and> take (length e) s = e then length e else prefix_len es s)"

definition ws_len :: "string \<Rightarrow> nat" where
  "ws_len s = prefix_len white_spaces s"

fun strip_prefixes :: "string list \<Rightarrow> string \<Rightarrow> string" where
  "strip_prefixes es s =
     (if s = [] \<or> prefix_len es s = 0 then s else strip_prefixes es (drop (prefix_len es s) s))"

declare strip_prefixes.simps [simp del]

definition trim_start :: "string \<Rightarrow> string" where
  "trim_start s = strip_prefixes white_spaces s"

definition trim_end :: "string \<Rightarrow> string" where
  "trim_end s = rev (strip_prefixes (map rev white_spaces) (rev s))"

definition trim :: "string \<Rightarrow> string" where
  "trim s = trim_end (trim_start s)"

lemma prefix_len_le: "prefix_len es s \<le> length s"
proof (induction es)
  case (Cons e es)
  then show ?case
    by (metis length_take min.cobounded1 prefix_len.simps(2))
qed simp

lemma suffix_strip_prefixes: "suffix (strip_prefixes es s) s"
proof (induction es s rule: strip_prefixes.induct)
  case (1 es s)
  then show ?case
    by (subst strip_prefixes.simps) (auto intro: suffix_order.trans suffix_drop)
qed

lemma length_trim_le: "length (trim s) \<le> length s"
proof -
  have "length (trim_start s) \<le> length s" for s
    by (simp add: trim_start_def suffix_length_le [OF suffix_strip_prefixes])
  moreover have "length (trim_end s) \<le> length s" for s
    using suffix_length_le [OF suffix_strip_prefixes, of "map rev white_spaces" "rev s"]
    by (simp add: trim_end_def)
  ultimately show ?thesis
    unfolding trim_def using order_trans by blast
qed

text \<open>What trimming leaves of a valid text is valid.\<close>

lemma prefix_len_cases: "prefix_len es s = 0 \<or> take (prefix_len es s) s \<in> set es"
  by (induction es) auto

lemma strip_prefixes_invariant:
  assumes "Q s" and "\<And>e s. e \<in> set es \<Longrightarrow> Q (e @ s) \<Longrightarrow> Q s"
  shows "Q (strip_prefixes es s)"
  using assms
proof (induction es s rule: strip_prefixes.induct)
  case (1 es s)
  let ?n = "prefix_len es s"
  show ?case
  proof (cases "s = [] \<or> ?n = 0")
    case True
    with "1.prems" show ?thesis by (simp add: strip_prefixes.simps [of es s])
  next
    case False
    then have "take ?n s \<in> set es" using prefix_len_cases [of es s] by simp
    moreover have "Q (take ?n s @ drop ?n s)" using "1.prems" by simp
    ultimately have "Q (drop ?n s)" by (rule "1.prems"(2))
    with False "1.IH" "1.prems"(2) show ?thesis by (simp add: strip_prefixes.simps [of es s])
  qed
qed

lemma white_spaces_utf8:
  "list_all (\<lambda>e. e \<noteq> [] \<and> valid_utf8 (as_bytes e) \<and> \<not> is_cont (byte_of_char (hd e))) white_spaces"
  by code_simp

lemma trim_valid:
  assumes "valid_utf8 (as_bytes s)"
  shows "valid_utf8 (as_bytes (trim s))"
proof -
  have ws: "e \<noteq> []" "valid_utf8 (as_bytes e)" "\<not> is_cont (byte_of_char (hd e))" if "e \<in> set white_spaces" for e
    using white_spaces_utf8 that by (simp_all add: list_all_iff)
  have start: "valid_utf8 (as_bytes (trim_start s))"
    unfolding trim_start_def
  proof (rule strip_prefixes_invariant [where Q = "\<lambda>s. valid_utf8 (as_bytes s)"])
    fix e t
    assume "e \<in> set white_spaces" "valid_utf8 (as_bytes (e @ t))"
    with valid_utf8_cancel [of "as_bytes e" "as_bytes t"] ws(2) [of e] show "valid_utf8 (as_bytes t)"
      by (simp add: as_bytes_def)
  qed (rule assms)
  show ?thesis
    unfolding trim_def trim_end_def
  proof (rule strip_prefixes_invariant [where Q = "\<lambda>s. valid_utf8 (as_bytes (rev s))"])
    fix e t
    assume e: "e \<in> set (map rev white_spaces)" and v: "valid_utf8 (as_bytes (rev (e @ t)))"
    then have "rev e \<in> set white_spaces" by auto
    note w = ws [OF this]
    then obtain c r where c: "rev e = c # r" by (cases "rev e") auto
    with v have "valid_utf8 (as_bytes (rev t) @ byte_of_char c # as_bytes r)" by (simp add: as_bytes_def)
    moreover have "\<not> is_cont (byte_of_char c)" using w(3) c by simp
    ultimately show "valid_utf8 (as_bytes (rev t))" by (rule valid_utf8_cut)
  qed (simp add: start)
qed

text \<open>A string whose two ends are graphic ASCII characters is left alone.\<close>

definition graphic :: "char \<Rightarrow> bool" where
  "graphic c \<longleftrightarrow> 0x20 < (of_char c :: nat) \<and> of_char c < (0x7F :: nat)"

lemma prefix_len_graphic:
  assumes "graphic c" and "\<forall>e \<in> set es. e \<noteq> [] \<longrightarrow> \<not> graphic (hd e)"
  shows "prefix_len es (c # s) = 0"
  using assms(2)
proof (induction es)
  case (Cons e es)
  have "take (length e) (c # s) \<noteq> e" if "e \<noteq> []"
    using that assms(1) Cons.prems by (cases e) auto
  with Cons show ?case by auto
qed simp

lemma white_spaces_not_graphic:
  "\<forall>e \<in> set white_spaces. e \<noteq> [] \<longrightarrow> \<not> graphic (hd e)"
  "\<forall>e \<in> set (map rev white_spaces). e \<noteq> [] \<longrightarrow> \<not> graphic (hd e)"
  by (simp_all add: white_spaces_def graphic_def)

lemma ws_len_graphic [simp]: "graphic c \<Longrightarrow> ws_len (c # s) = 0"
  by (simp add: ws_len_def prefix_len_graphic white_spaces_not_graphic)

lemma trim_start_graphic: "graphic (hd s) \<Longrightarrow> trim_start s = s"
  unfolding trim_start_def
  by (subst strip_prefixes.simps, cases s)
    (simp_all add: prefix_len_graphic white_spaces_not_graphic)

lemma trim_end_graphic: "graphic (last s) \<Longrightarrow> trim_end s = s"
  unfolding trim_end_def
  by (subst strip_prefixes.simps, cases s rule: rev_cases)
    (simp_all add: prefix_len_graphic white_spaces_not_graphic del: set_map)

lemma trim_graphic: "graphic (hd s) \<Longrightarrow> graphic (last s) \<Longrightarrow> trim s = s"
  by (simp add: trim_def trim_start_graphic trim_end_graphic)

lemma trim_end_LF: "trim_end (s @ [CHR 0x0A]) = trim_end s"
proof -
  have "prefix_len (map rev white_spaces) (CHR 0x0A # t) = 1" for t by (simp add: white_spaces_def)
  then show ?thesis unfolding trim_end_def by (subst strip_prefixes.simps) simp
qed

lemma trim_line: "s \<noteq> [] \<Longrightarrow> graphic (hd s) \<Longrightarrow> graphic (last s) \<Longrightarrow> trim (s @ [CHR 0x0A]) = s"
  by (simp add: trim_def trim_start_graphic trim_end_LF trim_end_graphic)

section \<open>Splitting\<close>

text \<open>\<^verbatim>\<open>s.split(c)\<close>: there is always at least one piece.\<close>

fun split_on :: "char \<Rightarrow> string \<Rightarrow> string list" where
  "split_on d [] = [[]]"
| "split_on d (c # cs) =
     (if c = d then [] # split_on d cs
      else (case split_on d cs of [] \<Rightarrow> [[c]] | p # ps \<Rightarrow> (c # p) # ps))"

text \<open>\<^verbatim>\<open>s.splitn(2, c)\<close>: the part before the first \<open>c\<close> and, if there is one, the rest.\<close>

fun splitn2 :: "char \<Rightarrow> string \<Rightarrow> string \<times> string option" where
  "splitn2 d [] = ([], None)"
| "splitn2 d (c # cs) =
     (if c = d then ([], Some cs) else (case splitn2 d cs of (p, r) \<Rightarrow> (c # p, r)))"

text \<open>\<^verbatim>\<open>pieces.join(c)\<close>.\<close>

fun join_with :: "char \<Rightarrow> string list \<Rightarrow> string" where
  "join_with d [] = []"
| "join_with d [p] = p"
| "join_with d (p # q # ps) = p @ d # join_with d (q # ps)"

lemma split_on_nonempty [simp]: "split_on d s \<noteq> []"
  by (induction s) (auto split: list.splits)

lemma split_on_pieces: "p \<in> set (split_on d s) \<Longrightarrow> d \<notin> set p"
proof (induction s arbitrary: p)
  case (Cons c cs)
  then show ?case
    by (cases "split_on d cs") (auto split: if_splits)
qed simp

lemma join_with_Cons_head: "join_with d ((c # p) # ps) = c # join_with d (p # ps)"
  by (cases ps) auto

lemma join_split_on [simp]: "join_with d (split_on d s) = s"
proof (induction s)
  case (Cons c cs)
  obtain p ps where sp: "split_on d cs = p # ps"
    by (cases "split_on d cs") auto
  with Cons show ?case by (auto simp: join_with_Cons_head)
qed simp

lemma split_on_no_sep [simp]: "d \<notin> set p \<Longrightarrow> split_on d p = [p]"
  by (induction p) auto

lemma split_on_append_sep: "d \<notin> set p \<Longrightarrow> split_on d (p @ d # s) = p # split_on d s"
  by (induction p) auto

lemma split_join_with:
  "ps \<noteq> [] \<Longrightarrow> \<forall>p \<in> set ps. d \<notin> set p \<Longrightarrow> split_on d (join_with d ps) = ps"
  by (induction d ps rule: join_with.induct) (auto simp: split_on_append_sep)

lemma join_with_inj:
  assumes "join_with d ps = join_with d qs" and "ps \<noteq> []" and "qs \<noteq> []"
    and "\<forall>p \<in> set ps. d \<notin> set p" and "\<forall>q \<in> set qs. d \<notin> set q"
  shows "ps = qs"
  using assms split_join_with by metis

lemma splitn2_None: "d \<notin> set s \<Longrightarrow> splitn2 d s = (s, None)"
  by (induction s) auto

lemma splitn2_Some: "d \<notin> set p \<Longrightarrow> splitn2 d (p @ d # s) = (p, Some s)"
  by (induction p) auto

text \<open>\<^verbatim>\<open>split_whitespace\<close>: the maximal runs of characters that are not white space.\<close>

function split_ws :: "string \<Rightarrow> string \<Rightarrow> string list" where
  "split_ws cur s =
     (if s = [] then (if cur = [] then [] else [cur])
      else if ws_len s \<noteq> 0 then
        (if cur = [] then [] else [cur]) @ split_ws [] (drop (ws_len s) s)
      else split_ws (cur @ [hd s]) (tl s))"
  by pat_completeness auto
termination
  by (relation "measure (\<lambda>(cur, s). length s)") auto

declare split_ws.simps [simp del]

definition split_whitespace :: "string \<Rightarrow> string list" where
  "split_whitespace s = split_ws [] s"

lemma split_ws_nonempty: "p \<in> set (split_ws cur s) \<Longrightarrow> p \<noteq> []"
proof (induction cur s rule: split_ws.induct)
  case (1 cur s)
  then show ?case
    by (auto simp: split_ws.simps [of cur s] split: if_splits)
qed

lemma split_ws_word:
  assumes "\<forall>c \<in> set p. graphic c"
  shows "split_ws cur (p @ s) = split_ws (cur @ p) s"
  using assms by (induction p arbitrary: cur) (simp_all add: split_ws.simps [of _ "_ # _"] ws_len_graphic)

lemma ws_len_space: "ws_len (CHR '' '' # s) = 1"
  by (simp add: ws_len_def white_spaces_def)

lemma split_whitespace_join:
  assumes "\<forall>p \<in> set ps. p \<noteq> [] \<and> (\<forall>c \<in> set p. graphic c)"
  shows "split_whitespace (join_with (CHR '' '') ps) = ps"
  unfolding split_whitespace_def using assms
proof (induction "CHR '' ''" ps rule: join_with.induct)
  case (2 p)
  then show ?case using split_ws_word [of p "[]" "[]"] by (simp add: split_ws.simps [of _ "[]"])
next
  case (3 p q ps)
  then show ?case using split_ws_word [of p "[]"]
    by (simp add: split_ws.simps [of _ "_ # _"] ws_len_space)
qed (simp add: split_ws.simps)

section \<open>Decimal integers\<close>

definition is_digit :: "char \<Rightarrow> bool" where
  "is_digit c \<longleftrightarrow> 48 \<le> (of_char c :: nat) \<and> of_char c \<le> (57 :: nat)"

definition digit_val :: "char \<Rightarrow> nat" where
  "digit_val c = of_char c - 48"

definition digit_char :: "nat \<Rightarrow> char" where
  "digit_char n = char_of (48 + n mod 10)"

fun show_nat :: "nat \<Rightarrow> string" where
  "show_nat n = (if n < 10 then [digit_char n] else show_nat (n div 10) @ [digit_char n])"

declare show_nat.simps [simp del]

datatype ParseIntError = Empty | InvalidDigit | PosOverflow

text \<open>
  \<^verbatim>\<open>s.parse()\<close> at an unsigned type with largest value \<open>mx\<close>: an optional plus
  sign, then digits only, checked left to right.
\<close>

fun parse_digits :: "nat \<Rightarrow> nat \<Rightarrow> string \<Rightarrow> (ParseIntError, nat) res" where
  "parse_digits mx acc [] = Ok acc"
| "parse_digits mx acc (c # cs) =
     (if \<not> is_digit c then Err InvalidDigit
      else if mx < acc * 10 then Err PosOverflow
      else if mx < acc * 10 + digit_val c then Err PosOverflow
      else parse_digits mx (acc * 10 + digit_val c) cs)"

definition parse_uint :: "nat \<Rightarrow> string \<Rightarrow> (ParseIntError, nat) res" where
  "parse_uint mx s = (case s of
     [] \<Rightarrow> Err Empty
   | [c] \<Rightarrow> if c = CHR ''+'' \<or> c = CHR ''-'' then Err InvalidDigit else parse_digits mx 0 [c]
   | c # cs \<Rightarrow> if c = CHR ''+'' then parse_digits mx 0 cs else parse_digits mx 0 (c # cs))"

abbreviation parse_u16 :: "string \<Rightarrow> (ParseIntError, nat) res" where
  "parse_u16 \<equiv> parse_uint 65535"

abbreviation parse_u32 :: "string \<Rightarrow> (ParseIntError, nat) res" where
  "parse_u32 \<equiv> parse_uint 4294967295"

abbreviation parse_usize :: "string \<Rightarrow> (ParseIntError, nat) res" where
  "parse_usize \<equiv> parse_uint 18446744073709551615"

lemma is_digit_digit_char [simp]: "is_digit (digit_char n)"
  by (simp add: is_digit_def digit_char_def)

lemma digit_val_digit_char [simp]: "digit_val (digit_char n) = n mod 10"
  by (simp add: digit_val_def digit_char_def)

lemma digit_val_le: "is_digit c \<Longrightarrow> digit_val c \<le> 9"
  by (auto simp: is_digit_def digit_val_def)

lemma is_digit_graphic: "is_digit c \<Longrightarrow> graphic c"
  by (simp add: is_digit_def graphic_def)

lemma show_nat_digits: "c \<in> set (show_nat n) \<Longrightarrow> is_digit c"
proof (induction n rule: show_nat.induct)
  case (1 n)
  then show ?case by (subst (asm) show_nat.simps) (auto split: if_splits)
qed

lemma show_nat_nonempty [simp]: "show_nat n \<noteq> []"
  by (subst show_nat.simps) simp

lemma show_nat_0 [simp]: "show_nat 0 = ''0''"
  by code_simp

lemma length_show_nat_le: "n < 10 ^ k \<Longrightarrow> 0 < k \<Longrightarrow> length (show_nat n) \<le> k"
proof (induction n arbitrary: k rule: show_nat.induct)
  case (1 n)
  show ?case
  proof (cases "n < 10")
    case True
    with 1(3) show ?thesis by (subst show_nat.simps) simp
  next
    case False
    with 1(2) have "k \<noteq> 1" by auto
    with 1(3) obtain j where j: "k = Suc j" "0 < j" by (cases k) auto
    with 1(2) have "n div 10 < 10 ^ j" by auto
    with False 1(1) j show ?thesis by (subst show_nat.simps) simp
  qed
qed

lemma parse_digits_append:
  "parse_digits mx a (xs @ ys) = bind_res (parse_digits mx a xs) (\<lambda>v. parse_digits mx v ys)"
  by (induction xs arbitrary: a) auto

lemma parse_digits_show_nat: "n \<le> mx \<Longrightarrow> parse_digits mx 0 (show_nat n) = Ok n"
proof (induction n rule: show_nat.induct)
  case (1 n)
  show ?case
  proof (cases "n < 10")
    case True
    with 1 show ?thesis by (subst show_nat.simps) simp
  next
    case False
    with 1 have "parse_digits mx 0 (show_nat (n div 10)) = Ok (n div 10)"
      by simp
    moreover have "n div 10 * 10 + n mod 10 = n" by simp
    ultimately show ?thesis
      using False 1(2) by (subst show_nat.simps) (simp add: parse_digits_append)
  qed
qed

lemma not_digit_sign: "\<not> is_digit (CHR ''+'')" "\<not> is_digit (CHR ''-'')"
  by (simp_all add: is_digit_def)

lemma parse_uint_digits:
  assumes "s \<noteq> []" and "\<And>c. c \<in> set s \<Longrightarrow> is_digit c"
  shows "parse_uint mx s = parse_digits mx 0 s"
  using assms not_digit_sign
  by (auto simp: parse_uint_def split: list.splits)

lemma parse_uint_show_nat: "n \<le> mx \<Longrightarrow> parse_uint mx (show_nat n) = Ok n"
  by (simp add: parse_uint_digits show_nat_digits parse_digits_show_nat)

lemma parse_digits_bound: "parse_digits mx a s = Ok v \<Longrightarrow> a \<le> mx \<Longrightarrow> v \<le> mx"
  by (induction s arbitrary: a) (auto split: if_splits)

lemma parse_uint_bound: "parse_uint mx s = Ok v \<Longrightarrow> v \<le> mx"
  by (auto simp: parse_uint_def simp del: parse_digits.simps split: list.splits if_splits
      dest!: parse_digits_bound [where a = 0])

lemma parse_digits_no_panic [simp]: "parse_digits mx a s \<noteq> Panic"
  by (induction s arbitrary: a) auto

lemma parse_uint_no_panic [simp]: "parse_uint mx s \<noteq> Panic"
  by (auto simp: parse_uint_def split: list.splits)

text \<open>The value of a digit string read on from \<open>x\<close>.\<close>

definition decimal :: "nat \<Rightarrow> string \<Rightarrow> nat" where
  "decimal x s = foldl (\<lambda>x c. 10 * x + digit_val c) x s"

lemma decimal_simps [simp]:
  "decimal x [] = x" "decimal x (c # cs) = decimal (10 * x + digit_val c) cs"
  "decimal x (xs @ ys) = decimal (decimal x xs) ys"
  by (simp_all add: decimal_def)

lemma decimal_ge: "x \<le> decimal x s"
proof (induction s arbitrary: x)
  case (Cons c cs)
  have "x \<le> 10 * x + digit_val c" by simp
  also have "\<dots> \<le> decimal x (c # cs)" using Cons by simp
  finally show ?case .
qed simp

lemma decimal_show_nat: "decimal 0 (show_nat n) = n"
proof (induction n rule: show_nat.induct)
  case (1 n)
  then show ?case by (subst show_nat.simps) (auto simp: decimal_def)
qed

text \<open>Zero padding to a minimum width.\<close>

definition zero_pad :: "nat \<Rightarrow> string \<Rightarrow> string" where
  "zero_pad w s = replicate (w - length s) (CHR ''0'') @ s"

lemma length_zero_pad: "n < 10 ^ w \<Longrightarrow> 0 < w \<Longrightarrow> length (zero_pad w (show_nat n)) = w"
  using length_show_nat_le [of n w] by (simp add: zero_pad_def)

lemma decimal_zero_pad: "decimal 0 (zero_pad w (show_nat n)) = n"
proof -
  have "decimal 0 (replicate k (CHR ''0'')) = 0" for k
    by (induction k) (simp_all add: digit_val_def)
  then show ?thesis by (simp add: zero_pad_def decimal_show_nat)
qed

lemma zero_pad_append_eq:
  assumes "zero_pad w (show_nat m) @ s = zero_pad w (show_nat n) @ t"
    and "m < 10 ^ w" and "n < 10 ^ w" and "0 < w"
  shows "m = n \<and> s = t"
proof -
  have "zero_pad w (show_nat m) = zero_pad w (show_nat n) \<and> s = t"
    using assms by (intro append_eq_append_conv [THEN iffD1, rotated]) (simp_all add: length_zero_pad)
  then show ?thesis by (metis decimal_zero_pad)
qed

end
