(* ===== verification/F64.thy ===== *)
theory F64
  imports Roxy_Prelude "HOL-Library.Log_Nat"
begin

text \<open>
  The part of IEEE 754 double precision that the program uses: non-negative finite numbers
  with multiplication, division and casts, in the range where no result overflows or is
  subnormal.  A double is the rational number it stands for; every operation computes the
  exact rational result and rounds it to a 53-bit significand, ties to even.  The users are
  \<^verbatim>\<open>parse_duration\<close> (fractions of a unit), \<^verbatim>\<open>jumphash\<close> (bucket jumps) and the statistics of
  the controller (seconds).
\<close>

type_synonym f64 = rat

definition round_half_even :: "rat \<Rightarrow> int" where
  "round_half_even m =
     (let f = \<lfloor>m\<rfloor>; r = m - of_int f in
      if r < 1 / 2 then f
      else if 1 / 2 < r then f + 1
      else if even f then f else f + 1)"

text \<open>The exponent \<open>e\<close> with \<open>2 ^ 52 \<le> q / 2 powi e < 2 ^ 53\<close>, for \<open>0 < q\<close>.\<close>

definition f64_exp :: "rat \<Rightarrow> int" where
  "f64_exp q = (case quotient_of q of (n, d) \<Rightarrow>
     let e = int (floorlog 2 (nat n)) - int (floorlog 2 (nat d)) - 53 in
     if q < 2 powi (e + 53) then e else e + 1)"

definition f64_round :: "rat \<Rightarrow> f64" where
  "f64_round q =
     (if q \<le> 0 then 0
      else of_int (round_half_even (q / 2 powi (f64_exp q))) * 2 powi (f64_exp q))"

definition f64_mul :: "f64 \<Rightarrow> f64 \<Rightarrow> f64" where
  "f64_mul a b = f64_round (a * b)"

definition f64_div :: "f64 \<Rightarrow> f64 \<Rightarrow> f64" where
  "f64_div a b = f64_round (a / b)"

text \<open>\<^verbatim>\<open>n as f64\<close> for an unsigned \<open>n\<close>; \<^verbatim>\<open>x as u64\<close> and
  \<^verbatim>\<open>x as i64\<close> truncate and saturate.\<close>

definition f64_of_nat :: "nat \<Rightarrow> f64" where
  "f64_of_nat n = f64_round (of_nat n)"

definition f64_to_u64 :: "f64 \<Rightarrow> nat" where
  "f64_to_u64 x = nat (min \<lfloor>x\<rfloor> (2 ^ 64 - 1))"

definition f64_to_i64 :: "f64 \<Rightarrow> int" where
  "f64_to_i64 x = min \<lfloor>x\<rfloor> (2 ^ 63 - 1)"

section \<open>Rounding\<close>

lemma round_half_even_of_int [simp]: "round_half_even (of_int k) = k"
  by (simp add: round_half_even_def Let_def)

lemma round_half_even_ge:
  assumes "of_int k \<le> m"
  shows "k \<le> round_half_even m"
proof -
  have "k \<le> \<lfloor>m\<rfloor>" using assms by (simp add: le_floor_iff)
  then show ?thesis by (auto simp: round_half_even_def Let_def)
qed

lemma powi_pos [simp]: "0 < (2 :: rat) powi e"
  by (simp add: power_int_def)

lemma powi_add_2: "(2 :: rat) powi (a + b) = 2 powi a * 2 powi b"
  by (simp add: power_int_add)

lemma floorlog_lower:
  assumes "0 < n"
  shows "(2 :: rat) powi (int (floorlog 2 n) - 1) \<le> of_nat n"
proof -
  obtain k where k: "floorlog 2 n = Suc k"
    using assms floorlog_eq_zero_iff [of 2 n] by (cases "floorlog 2 n") auto
  have "2 ^ (floorlog 2 n - 1) \<le> n"
    using assms by (intro floorlog_bounds [THEN conjunct1]) auto
  then have "2 ^ k \<le> n" by (simp add: k)
  then have "(of_nat (2 ^ k) :: rat) \<le> of_nat n" by (simp only: of_nat_le_iff)
  then show ?thesis by (simp add: k)
qed

lemma floorlog_upper:
  assumes "0 < n"
  shows "(of_nat n :: rat) < 2 powi (int (floorlog 2 n))"
proof -
  have "n < 2 ^ floorlog 2 n"
    using assms by (intro floorlog_bounds [THEN conjunct2]) auto
  then have "(of_nat n :: rat) < of_nat (2 ^ floorlog 2 n)" by (simp only: of_nat_less_iff)
  then show ?thesis by simp
qed

lemma f64_exp_bounds:
  assumes "0 < q"
  shows "2 ^ 52 * 2 powi (f64_exp q) \<le> q" and "q < 2 ^ 53 * 2 powi (f64_exp q)"
proof -
  obtain n d where nd: "quotient_of q = (n, d)" by fastforce
  have d: "0 < d" using nd by (rule quotient_of_denom_pos)
  have q: "q = of_int n / of_int d" using nd by (rule quotient_of_div)
  with assms d have n: "0 < n" by (simp add: zero_less_divide_iff)
  define a b where "a = int (floorlog 2 (nat n))" and "b = int (floorlog 2 (nat d))"
  have nl: "2 powi (a - 1) \<le> (of_int n :: rat)" and nu: "(of_int n :: rat) < 2 powi a"
    using floorlog_lower [of "nat n"] floorlog_upper [of "nat n"] n by (simp_all add: a_def)
  have dl: "2 powi (b - 1) \<le> (of_int d :: rat)" and du: "(of_int d :: rat) < 2 powi b"
    using floorlog_lower [of "nat d"] floorlog_upper [of "nat d"] d by (simp_all add: b_def)
  have lo: "2 powi (a - 1 - b) < q"
  proof -
    have "2 powi (a - 1 - b) * of_int d < 2 powi (a - 1 - b) * (2 powi b :: rat)"
      using du by simp
    also have "\<dots> = 2 powi (a - 1)" by (simp only: powi_add_2 [symmetric]) simp
    also have "\<dots> \<le> of_int n" by (rule nl)
    finally show ?thesis using d by (simp add: q pos_less_divide_eq)
  qed
  have hi: "q < 2 powi (a - b + 1)"
  proof -
    have "of_int n < (2 powi a :: rat)" by (rule nu)
    also have "\<dots> = 2 powi (a - b + 1) * 2 powi (b - 1)"
      by (simp only: powi_add_2 [symmetric]) simp
    also have "\<dots> \<le> 2 powi (a - b + 1) * of_int d" using dl by simp
    finally show ?thesis using d by (simp add: q pos_divide_less_eq)
  qed
  have lo': "2 powi (a - b - 1) < q" and hi': "q < 2 powi (1 + (a - b))"
    using lo hi by (simp_all only: diff_right_commute add.commute)
  have e: "f64_exp q = (if q < 2 powi (a - b) then a - b - 53 else a - b - 52)"
    by (simp add: f64_exp_def nd Let_def a_def b_def)
  have p52: "2 ^ 52 * 2 powi k = (2 :: rat) powi (52 + k)"
    and p53: "2 ^ 53 * 2 powi k = (2 :: rat) powi (53 + k)" for k
    by (simp_all add: powi_add_2)
  show "2 ^ 52 * 2 powi (f64_exp q) \<le> q" and "q < 2 ^ 53 * 2 powi (f64_exp q)"
    unfolding p52 p53 e using lo' hi' by (auto simp: less_imp_le)
qed

text \<open>
  Integers up to \<open>2 ^ 53\<close> are representable, and rounding never falls below a
  representable lower bound.
\<close>

lemma powi_nonpos_cancel: "e \<le> 0 \<Longrightarrow> (2 :: rat) ^ nat (- e) * 2 powi e = 1"
  by (simp add: power_int_def field_simps)

lemma f64_round_pos:
  "0 < q \<Longrightarrow> f64_round q = of_int (round_half_even (q / 2 powi (f64_exp q))) * 2 powi (f64_exp q)"
  by (simp add: f64_round_def)

lemma f64_round_ge:
  assumes "0 < q" and "of_int k \<le> q / 2 powi (f64_exp q)"
  shows "of_int k * 2 powi (f64_exp q) \<le> f64_round q"
proof -
  have "k \<le> round_half_even (q / 2 powi (f64_exp q))"
    using assms(2) by (rule round_half_even_ge)
  then have "(of_int k :: rat) \<le> of_int (round_half_even (q / 2 powi (f64_exp q)))"
    by (simp only: of_int_le_iff)
  then show ?thesis
    unfolding f64_round_pos [OF assms(1)] by (rule mult_right_mono) simp
qed

text \<open>In the binade of \<open>q\<close>, an integer \<open>n \<le> 2 ^ 53\<close> is a multiple of the unit.\<close>

lemma nat_multiple_of_unit:
  assumes n: "n \<le> 2 ^ 53" and lo: "2 ^ 52 * 2 powi e \<le> (of_nat n :: rat)"
  obtains k where "of_nat n = of_int k * (2 :: rat) powi e"
proof (cases "e \<le> 0")
  case True
  have "of_int (int n * 2 ^ nat (- e)) * 2 powi e
      = of_nat n * ((2 :: rat) ^ nat (- e) * 2 powi e)"
    by (simp only: of_int_mult of_int_of_nat_eq of_int_power of_int_numeral mult.assoc)
  then have "of_int (int n * 2 ^ nat (- e)) * 2 powi e = (of_nat n :: rat)"
    by (simp only: powi_nonpos_cancel [OF True] mult_1_right)
  from this [symmetric] show thesis by (rule that)
next
  case False
  have up: "(of_nat n :: rat) \<le> 2 ^ 53"
  proof -
    have "(of_nat n :: rat) \<le> of_nat (2 ^ 53)" using n by (simp only: of_nat_le_iff)
    then show ?thesis by simp
  qed
  have "e < 2"
  proof (rule ccontr)
    assume "\<not> e < 2"
    then have "(2 :: rat) powi 2 \<le> 2 powi e" by (intro power_int_increasing) auto
    with lo up show False by simp
  qed
  with False have "e = 1" by simp
  with lo up have "(of_nat n :: rat) = of_int (2 ^ 52) * 2 powi e" by simp
  then show thesis by (rule that)
qed

lemma f64_round_ge_nat:
  assumes n: "n \<le> 2 ^ 53" and q: "of_nat n \<le> q"
  shows "of_nat n \<le> f64_round q"
proof (cases "q \<le> 0")
  case True
  with q have "(of_nat n :: rat) \<le> 0" by (rule order_trans)
  then show ?thesis using True by (simp add: f64_round_def)
next
  case False
  then have pos: "0 < q" by simp
  define e where "e = f64_exp q"
  have lo: "2 ^ 52 * 2 powi e \<le> q"
    using f64_exp_bounds [OF pos] by (simp add: e_def)
  show ?thesis
  proof (cases "(of_nat n :: rat) \<le> 2 ^ 52 * 2 powi e")
    case True
    have "of_int (2 ^ 52) * 2 powi e \<le> f64_round q"
      unfolding e_def by (rule f64_round_ge [OF pos])
        (use lo in \<open>simp add: pos_le_divide_eq e_def\<close>)
    with True show ?thesis by simp
  next
    case False
    then obtain k where k: "of_nat n = of_int k * (2 :: rat) powi e"
      using nat_multiple_of_unit [OF n, of e] by auto
    have "of_int k * 2 powi e \<le> f64_round q"
      unfolding e_def by (rule f64_round_ge [OF pos])
        (use q k in \<open>simp add: pos_le_divide_eq e_def\<close>)
    with k show ?thesis by (simp only:)
  qed
qed

lemma f64_round_of_nat [simp]:
  assumes "n \<le> 2 ^ 53"
  shows "f64_round (of_nat n) = of_nat n"
proof (cases "n = 0")
  case True
  then show ?thesis by (simp add: f64_round_def)
next
  case False
  then have pos: "0 < (of_nat n :: rat)" by simp
  define e where "e = f64_exp (of_nat n)"
  have "2 ^ 52 * 2 powi e \<le> (of_nat n :: rat)"
    using f64_exp_bounds [OF pos] by (simp add: e_def)
  then obtain k where k: "of_nat n = of_int k * (2 :: rat) powi e"
    using nat_multiple_of_unit [OF assms] by blast
  then have "(of_nat n :: rat) / 2 powi e = of_int k"
    using powi_pos [of e] by (simp only: nonzero_mult_div_cancel_right less_irrefl)
  then have "f64_round (of_nat n) = of_int k * 2 powi e"
    using f64_round_pos [OF pos] by (simp only: e_def round_half_even_of_int)
  then show ?thesis by (simp only: k)
qed

lemma f64_of_nat_exact [simp]: "n \<le> 2 ^ 53 \<Longrightarrow> f64_of_nat n = of_nat n"
  by (simp add: f64_of_nat_def)

lemma f64_mul_exact:
  "a * b = of_nat n \<Longrightarrow> n \<le> 2 ^ 53 \<Longrightarrow> f64_mul a b = of_nat n"
  by (simp add: f64_mul_def)

lemma f64_div_exact:
  "a / b = of_nat n \<Longrightarrow> n \<le> 2 ^ 53 \<Longrightarrow> f64_div a b = of_nat n"
  by (simp add: f64_div_def)

lemma f64_to_u64_of_nat:
  assumes "n < 2 ^ 64"
  shows "f64_to_u64 (of_nat n) = n"
proof -
  have "int n < int (2 ^ 64)" using assms by (simp only: of_nat_less_iff)
  then have "int n \<le> 2 ^ 64 - 1" by simp
  then show ?thesis by (simp add: f64_to_u64_def min_def)
qed

end
