(* ===== verification/Duration.thy ===== *)
theory Duration
  imports Rust_Strings F64
begin

text \<open>
  \<^verbatim>\<open>src/serde/duration.rs\<close>: the parser and the printer of durations such as
  \<^verbatim>\<open>1h30m\<close> that every configuration file goes through.  A \<^verbatim>\<open>u64\<close> is a
  natural number with the wrap-around written out (\<open>wrap_u64\<close>), an \<^verbatim>\<open>i64\<close>
  an integer; a \<^verbatim>\<open>Duration\<close> is its number of nanoseconds.  The main result is the
  round trip: parsing what the printer writes gives the duration back, with the fraction
  computed in floating point.
\<close>

section \<open>Model\<close>

definition NANOSECOND :: nat where "NANOSECOND = 1"
definition MICROSECOND :: nat where "MICROSECOND = 1000 * NANOSECOND"
definition MILLISECOND :: nat where "MILLISECOND = 1000 * MICROSECOND"
definition SECOND :: nat where "SECOND = 1000 * MILLISECOND"
definition MINUTE :: nat where "MINUTE = 60 * SECOND"
definition HOUR :: nat where "HOUR = 60 * MINUTE"
definition DAY :: nat where "DAY = 24 * HOUR"
definition WEEK :: nat where "WEEK = 7 * DAY"

lemmas unit_defs = NANOSECOND_def MICROSECOND_def MILLISECOND_def SECOND_def MINUTE_def
  HOUR_def DAY_def WEEK_def

datatype ParseError = BadInteger | InvalidDuration | MissingUnit | UnknownUnit

fun ParseError_fmt :: "ParseError \<Rightarrow> string" where
  "ParseError_fmt BadInteger = ''bad integer''"
| "ParseError_fmt InvalidDuration = ''invalid duration''"
| "ParseError_fmt MissingUnit = ''missing unit''"
| "ParseError_fmt UnknownUnit = ''unknown unit''"

definition u64_max :: nat where "u64_max = 2 ^ 64 - 1"
definition i64_max :: int where "i64_max = 2 ^ 63 - 1"

definition wrap_u64 :: "nat \<Rightarrow> nat" where
  "wrap_u64 n = n mod 2 ^ 64"

definition wrap_i64 :: "int \<Rightarrow> int" where
  "wrap_i64 k = (k + 2 ^ 63) mod 2 ^ 64 - 2 ^ 63"

text \<open>\<^verbatim>\<open>leading_int\<close>: the \<^verbatim>\<open>try_fold\<close> over the leading digits, with the rest of the slice.\<close>

fun leading_int_fold :: "nat \<Rightarrow> string \<Rightarrow> (ParseError, nat \<times> string) res" where
  "leading_int_fold x [] = Ok (x, [])"
| "leading_int_fold x (c # cs) =
     (if is_digit c then
        (if x > u64_max div 10 then Err BadInteger
         else leading_int_fold (wrap_u64 (10 * x + of_char c - 48)) cs)
      else Ok (x, c # cs))"

definition leading_int :: "string \<Rightarrow> (ParseError, nat \<times> string) res" where
  "leading_int s = leading_int_fold 0 s"

fun leading_fraction_fold :: "int \<Rightarrow> f64 \<Rightarrow> bool \<Rightarrow> string \<Rightarrow> int \<times> f64 \<times> string" where
  "leading_fraction_fold x scale overflow [] = (x, scale, [])"
| "leading_fraction_fold x scale overflow (c # cs) =
     (if \<not> is_digit c then (x, scale, c # cs)
      else if overflow then leading_fraction_fold x scale overflow cs
      else if x > i64_max div 10 then leading_fraction_fold x scale True cs
      else let y = wrap_i64 (x * 10 + int (of_char c) - 48) in
        if y < 0 then leading_fraction_fold x scale True cs
        else leading_fraction_fold y (f64_mul scale 10) overflow cs)"

definition leading_fraction :: "string \<Rightarrow> int \<times> f64 \<times> string" where
  "leading_fraction s = leading_fraction_fold 0 1 False s"

definition unit_of :: "string \<Rightarrow> nat" where
  "unit_of u =
     (if u = ''ns'' then NANOSECOND
      else if u = ''us'' then MICROSECOND
      else if u = [CHR 0xC2, CHR 0xB5, CHR ''s''] then MICROSECOND
      else if u = [CHR 0xCE, CHR 0xBC, CHR ''s''] then MICROSECOND
      else if u = ''ms'' then MILLISECOND
      else if u = ''s'' then SECOND
      else if u = ''m'' then MINUTE
      else if u = ''h'' then HOUR
      else if u = ''d'' then DAY
      else if u = ''w'' then WEEK
      else 0)"

definition unit_char :: "char \<Rightarrow> bool" where
  "unit_char c \<longleftrightarrow> \<not> (c = CHR ''.'' \<or> is_digit c)"

definition checked_add_u64 :: "nat \<Rightarrow> nat \<Rightarrow> nat option" where
  "checked_add_u64 a b = (if a + b \<le> u64_max then Some (a + b) else None)"

text \<open>
  One round of the \<^verbatim>\<open>while !s.is_empty()\<close> loop: the nanoseconds of the first
  number with its unit, and what is left.
\<close>

definition parse_component :: "string \<Rightarrow> (ParseError, nat \<times> string) res" where
  "parse_component s =
     (let c = hd s in
      if \<not> (c = CHR ''.'' \<or> is_digit c) then Err InvalidDuration
      else bind_res (leading_int s) (\<lambda>(v, s1).
        let pre = (length s \<noteq> length s1);
            (f, scale, s2, post) =
              (if s1 \<noteq> [] \<and> hd s1 = CHR ''.'' then
                 (let (lf, ls, remain) = leading_fraction (tl s1)
                  in (lf, ls, remain, length (tl s1) \<noteq> length remain))
               else (0, 1, s1, False))
        in if \<not> pre \<and> \<not> post then Err InvalidDuration
        else let u = takeWhile unit_char s2; s3 = dropWhile unit_char s2 in
        if u = [] then Err MissingUnit
        else let unit = unit_of u in
        if unit = 0 then Err UnknownUnit
        else if v > u64_max div unit then Err InvalidDuration
        else bind_res
          (if f > 0 then of_option InvalidDuration
             (checked_add_u64 (v * unit)
               (f64_to_u64 (f64_mul (f64_of_nat (nat f)) (f64_div (f64_of_nat unit) scale))))
           else Ok (v * unit))
          (\<lambda>w. Ok (w, s3))))"

lemma leading_int_fold_le: "leading_int_fold x s = Ok (v, r) \<Longrightarrow> length r \<le> length s"
  by (induction s arbitrary: x) (auto split: if_splits intro: le_SucI)

lemma leading_fraction_fold_le:
  "leading_fraction_fold x sc ov s = (v, sc', r) \<Longrightarrow> length r \<le> length s"
  by (induction x sc ov s rule: leading_fraction_fold.induct)
    (auto simp: Let_def split: if_splits)

lemma parse_component_less:
  assumes "parse_component s = Ok (v, r)" and "s \<noteq> []"
  shows "length r < length s"
proof -
  from assms(1) obtain n s1 where li: "leading_int s = Ok (n, s1)"
    by (auto simp: parse_component_def Let_def res_simps split: if_splits)
  define s2 where "s2 = (if s1 \<noteq> [] \<and> hd s1 = CHR ''.'' then snd (snd (leading_fraction (tl s1))) else s1)"
  have s2: "length s2 \<le> length s1"
    using leading_fraction_fold_le [of 0 1 False "tl s1"]
    by (auto simp: s2_def leading_fraction_def prod_eq_iff intro: order_trans)
  have s1: "length s1 \<le> length s"
    using li by (simp add: leading_int_def leading_int_fold_le)
  have "takeWhile unit_char s2 \<noteq> []" and r: "r = dropWhile unit_char s2"
    using assms(1) li
    by (auto simp: parse_component_def s2_def Let_def res_simps split: if_splits prod.splits)
  then have "length r < length s2"
    by (cases s2) (auto simp: length_dropWhile_le less_Suc_eq_le split: if_splits)
  with s1 s2 show ?thesis by simp
qed

function parse_loop :: "nat \<Rightarrow> string \<Rightarrow> (ParseError, nat) res" where
  "parse_loop d s =
     (if s = [] then Ok d
      else bind_res (parse_component s) (\<lambda>(v, s'). parse_loop (wrap_u64 (d + v)) s'))"
  by pat_completeness auto
termination
  by (relation "measure (\<lambda>(d, s). length s)") (auto dest: parse_component_less)

declare parse_loop.simps [simp del]

definition parse_duration :: "string \<Rightarrow> (ParseError, nat) res" where
  "parse_duration text =
     (let (neg, s) = (case text of
            [] \<Rightarrow> (False, [])
          | c # cs \<Rightarrow> if c = CHR ''-'' \<or> c = CHR ''+'' then (c = CHR ''-'', cs) else (False, text))
      in if neg then Err InvalidDuration
      else if s = ''0'' then Ok 0
      else if s = [] then Err InvalidDuration
      else parse_loop 0 s)"

text \<open>
  The printer fills a 32-byte array from its end: the state is the array and the index
  \<open>w\<close> of the first byte written.  Decrementing \<open>w\<close> below zero panics, which
  is the only way the printer can fail.
\<close>

type_synonym fmt_buf = "char list \<times> nat"

definition buf_put :: "fmt_buf \<Rightarrow> char \<Rightarrow> (unit, fmt_buf) res" where
  "buf_put b c = (case b of (buf, w) \<Rightarrow>
     if w = 0 then Panic else Ok (buf[w - 1 := c], w - 1))"

fun fmt_frac_loop :: "nat \<Rightarrow> bool \<Rightarrow> nat \<Rightarrow> fmt_buf \<Rightarrow> (unit, fmt_buf \<times> nat \<times> bool) res" where
  "fmt_frac_loop 0 print v b = Ok (b, v, print)"
| "fmt_frac_loop (Suc i) print v b =
     (let digit = v mod 10; print' = (print \<or> digit \<noteq> 0) in
      bind_res (if print' then buf_put b (digit_char digit) else Ok b)
        (\<lambda>b'. fmt_frac_loop i print' (v div 10) b'))"

definition fmt_frac :: "fmt_buf \<Rightarrow> nat \<Rightarrow> nat \<Rightarrow> (unit, fmt_buf \<times> nat) res" where
  "fmt_frac b v prec =
     bind_res (fmt_frac_loop prec False v b) (\<lambda>(b', v', print).
       bind_res (if print then buf_put b' (CHR ''.'') else Ok b') (\<lambda>b''. Ok (b'', v')))"

fun fmt_int_loop :: "nat \<Rightarrow> fmt_buf \<Rightarrow> (unit, fmt_buf) res" where
  "fmt_int_loop v b =
     (if v = 0 then Ok b
      else bind_res (buf_put b (digit_char (v mod 10))) (\<lambda>b'. fmt_int_loop (v div 10) b'))"

declare fmt_int_loop.simps [simp del]

definition fmt_int :: "fmt_buf \<Rightarrow> nat \<Rightarrow> (unit, fmt_buf) res" where
  "fmt_int b v = (if v = 0 then buf_put b (CHR ''0'') else fmt_int_loop v b)"

definition duration_small :: "nat \<Rightarrow> fmt_buf \<Rightarrow> (unit, fmt_buf) res" where
  "duration_small u b =
     bind_res (buf_put b (CHR ''s'')) (\<lambda>b.
     let (c, prec) = (if u < MICROSECOND then (CHR ''n'', 0)
                      else if u < MILLISECOND then (CHR ''u'', 3)
                      else (CHR ''m'', 6)) in
     bind_res (buf_put b c) (\<lambda>b.
     bind_res (fmt_frac b u prec) (\<lambda>(b, u). fmt_int b u)))"

definition duration_large :: "nat \<Rightarrow> fmt_buf \<Rightarrow> (unit, fmt_buf) res" where
  "duration_large u b =
     bind_res (buf_put b (CHR ''s'')) (\<lambda>b.
     bind_res (fmt_frac b u 9) (\<lambda>(b, u).
     bind_res (fmt_int b (u mod 60)) (\<lambda>b.
     let u = u div 60 in
     if u > 0 then
       bind_res (buf_put b (CHR ''m'')) (\<lambda>b.
       bind_res (fmt_int b (u mod 60)) (\<lambda>b.
       let u = u div 60 in
       if u > 0 then bind_res (buf_put b (CHR ''h'')) (\<lambda>b. fmt_int b u)
       else Ok b))
     else Ok b)))"

definition duration :: "nat \<Rightarrow> (unit, string) res" where
  "duration d =
     (let u = wrap_u64 d; b = (replicate 32 (CHR 0x00), 32) in
      if u < SECOND then
        (if u = 0 then Ok ''0s'' else map_ok (\<lambda>(buf, w). drop w buf) (duration_small u b))
      else map_ok (\<lambda>(buf, w). drop w buf) (duration_large u b))"

text \<open>The serde entry points: a string, and an optional string.\<close>

definition serialize :: "nat \<Rightarrow> (unit, string) res" where
  "serialize d = duration d"

definition deserialize :: "string \<Rightarrow> (string, nat) res" where
  "deserialize s = map_err ParseError_fmt (parse_duration s)"

definition option_serialize :: "nat option \<Rightarrow> (unit, string option) res" where
  "option_serialize d = (case d of Some d \<Rightarrow> map_ok Some (duration d) | None \<Rightarrow> Ok None)"

definition option_deserialize :: "string option \<Rightarrow> (string, nat option) res" where
  "option_deserialize s = (case s of
     Some text \<Rightarrow> map_ok Some (map_err ParseError_fmt (parse_duration text))
   | None \<Rightarrow> Ok None)"

section \<open>The printer\<close>

text \<open>The array holds the text \<open>s\<close> at its end.\<close>

definition fb_ok :: "fmt_buf \<Rightarrow> string \<Rightarrow> bool" where
  "fb_ok b s \<longleftrightarrow> length (fst b) = 32 \<and> length s \<le> 32 \<and> snd b = 32 - length s \<and> drop (snd b) (fst b) = s"

text \<open>What \<open>fmt_frac\<close> writes: \<open>p\<close> digits without the trailing zeros.\<close>

fun pad :: "nat \<Rightarrow> nat \<Rightarrow> string" where
  "pad 0 v = []"
| "pad (Suc p) v = pad p (v div 10) @ [digit_char v]"

fun frac_digits :: "nat \<Rightarrow> nat \<Rightarrow> string" where
  "frac_digits 0 v = []"
| "frac_digits (Suc p) v =
     (if v mod 10 = 0 then frac_digits p (v div 10) else pad (Suc p) v)"

definition frac_text :: "nat \<Rightarrow> nat \<Rightarrow> string" where
  "frac_text p v = (if frac_digits p v = [] then [] else CHR ''.'' # frac_digits p v)"

lemma digit_char_mod [simp]: "digit_char (n mod 10) = digit_char n"
  by (simp add: digit_char_def)

lemma frac_digits_zero [simp]: "frac_digits p 0 = []"
  by (induction p) auto

lemma length_pad [simp]: "length (pad p v) = p"
  by (induction p arbitrary: v) auto

lemma length_frac_digits: "length (frac_digits p v) \<le> p"
  by (induction p arbitrary: v) (auto simp: le_SucI)

lemma fb_ok_init: "fb_ok (replicate 32 c, 32) []"
  by (simp add: fb_ok_def)

lemma buf_put_ok:
  assumes "fb_ok b s" and "length s < 32"
  shows "\<exists>b'. buf_put b c = Ok b' \<and> fb_ok b' (c # s)"
proof -
  obtain buf w where b: "b = (buf, w)" by (cases b)
  from assms b have w: "w = 32 - length s" "length buf = 32" "drop w buf = s"
    by (auto simp: fb_ok_def)
  then have pos: "w - 1 < length buf" "Suc (w - 1) = w" using assms(2) by auto
  have "drop (w - 1) (buf[w - 1 := c]) = c # s"
    using pos w by (subst Cons_nth_drop_Suc [symmetric]) (simp_all add: drop_update_cancel)
  with w assms(2) b show ?thesis
    by (auto simp: buf_put_def fb_ok_def)
qed

lemma fmt_int_loop_ok:
  assumes "fb_ok b s" and "v > 0" and "length (show_nat v) + length s \<le> 32"
  shows "\<exists>b'. fmt_int_loop v b = Ok b' \<and> fb_ok b' (show_nat v @ s)"
  using assms
proof (induction v arbitrary: b s rule: less_induct)
  case (less v)
  note 1 = less
  have len: "length (show_nat v) = (if v < 10 then 1 else Suc (length (show_nat (v div 10))))"
    by (subst show_nat.simps) simp
  with 1(4) have "length s < 32" by (simp split: if_splits)
  then obtain b' where b': "buf_put b (digit_char v) = Ok b'" "fb_ok b' (digit_char v # s)"
    using buf_put_ok [OF 1(2)] by blast
  show ?case
  proof (cases "v < 10")
    case True
    with b' 1(3) show ?thesis
      by (subst fmt_int_loop.simps, subst show_nat.simps) (simp add: fmt_int_loop.simps)
  next
    case False
    then have "\<exists>b''. fmt_int_loop (v div 10) b' = Ok b'' \<and> fb_ok b'' (show_nat (v div 10) @ digit_char v # s)"
      using 1(1) [of "v div 10" b' "digit_char v # s"] 1(3,4) b' len by (simp add: div_greater_zero_iff)
    with False b'(1) 1(3) show ?thesis
      by (subst fmt_int_loop.simps, subst show_nat.simps) simp
  qed
qed

lemma fmt_int_ok:
  assumes "fb_ok b s" and "length (show_nat v) + length s \<le> 32"
  shows "\<exists>b'. fmt_int b v = Ok b' \<and> fb_ok b' (show_nat v @ s)"
proof (cases "v = 0")
  case True
  with assms(2) have "length s < 32" by simp
  then show ?thesis
    using buf_put_ok [OF assms(1), of "CHR ''0''"] True
    by (simp add: fmt_int_def)
next
  case False
  with fmt_int_loop_ok [OF assms(1) _ assms(2)] show ?thesis by (simp add: fmt_int_def)
qed

lemma fmt_frac_loop_True:
  assumes "fb_ok b s" and "p + length s \<le> 32"
  shows "\<exists>b'. fmt_frac_loop p True v b = Ok (b', v div 10 ^ p, True) \<and> fb_ok b' (pad p v @ s)"
  using assms
proof (induction p arbitrary: v b s)
  case (Suc p)
  then obtain b' where b': "buf_put b (digit_char v) = Ok b'" "fb_ok b' (digit_char v # s)"
    using buf_put_ok [OF Suc.prems(1), of "digit_char v"] by auto
  with Suc.IH [OF b'(2), of "v div 10"] Suc.prems(2) show ?case
    by (simp add: Let_def div_mult2_eq)
qed simp

lemma fmt_frac_loop_False:
  assumes "fb_ok b s" and "p + length s \<le> 32"
  shows "\<exists>b'. fmt_frac_loop p False v b = Ok (b', v div 10 ^ p, frac_digits p v \<noteq> [])
    \<and> fb_ok b' (frac_digits p v @ s)"
  using assms
proof (induction p arbitrary: v b s)
  case (Suc p)
  show ?case
  proof (cases "v mod 10 = 0")
    case True
    with Suc.IH [OF Suc.prems(1), of "v div 10"] Suc.prems(2) show ?thesis
      by (simp add: Let_def div_mult2_eq)
  next
    case False
    obtain b' where b': "buf_put b (digit_char v) = Ok b'" "fb_ok b' (digit_char v # s)"
      using buf_put_ok [OF Suc.prems(1), of "digit_char v"] Suc.prems(2) by auto
    with False fmt_frac_loop_True [OF b'(2), of p "v div 10"] Suc.prems(2) show ?thesis
      by (simp add: Let_def div_mult2_eq)
  qed
qed simp

lemma fmt_frac_ok:
  assumes "fb_ok b s" and "p + length s < 32"
  shows "\<exists>b'. fmt_frac b v p = Ok (b', v div 10 ^ p) \<and> fb_ok b' (frac_text p v @ s)"
proof -
  obtain b' where b': "fmt_frac_loop p False v b = Ok (b', v div 10 ^ p, frac_digits p v \<noteq> [])"
    "fb_ok b' (frac_digits p v @ s)"
    using fmt_frac_loop_False [OF assms(1), of p v] assms(2) by auto
  have "length (frac_digits p v @ s) < 32"
    using length_frac_digits [of p v] assms(2) by simp
  from buf_put_ok [OF b'(2) this, of "CHR ''.''"] b' show ?thesis
    by (cases b') (auto simp: fmt_frac_def frac_text_def)
qed


section \<open>The parser\<close>

definition no_digit_start :: "string \<Rightarrow> bool" where
  "no_digit_start s \<longleftrightarrow> s = [] \<or> \<not> is_digit (hd s)"

lemma decimal_pad: "decimal x (pad p v) = x * 10 ^ p + v mod 10 ^ p"
proof (induction p arbitrary: v)
  case (Suc p)
  have "v mod (10 * 10 ^ p) = 10 * (v div 10 mod 10 ^ p) + v mod 10"
    by (simp only: mod_mult2_eq)
  with Suc show ?case by simp
qed simp

lemma of_char_digit: "is_digit c \<Longrightarrow> x + of_char c - 48 = x + digit_val c"
  by (simp add: is_digit_def digit_val_def)

lemma leading_int_fold_decimal:
  assumes "\<forall>c \<in> set ds. is_digit c" and "no_digit_start r" and "decimal x ds \<le> u64_max"
  shows "leading_int_fold x (ds @ r) = Ok (decimal x ds, r)"
  using assms
proof (induction ds arbitrary: x)
  case Nil
  then show ?case by (cases r) (auto simp: no_digit_start_def)
next
  case (Cons c cs)
  have le: "10 * x + digit_val c \<le> u64_max"
    using decimal_ge [of "10 * x + digit_val c" cs] Cons.prems(3) by simp
  then have "x \<le> u64_max div 10" by (simp add: less_eq_div_iff_mult_less_eq)
  moreover have "wrap_u64 (10 * x + of_char c - 48) = 10 * x + digit_val c"
    using le Cons.prems(1) by (simp add: of_char_digit wrap_u64_def u64_max_def)
  ultimately show ?case using Cons by simp
qed

lemma leading_int_show_nat:
  "n \<le> u64_max \<Longrightarrow> no_digit_start r \<Longrightarrow> leading_int (show_nat n @ r) = Ok (n, r)"
  by (simp add: leading_int_def leading_int_fold_decimal decimal_show_nat show_nat_digits)

lemma pad_digits: "c \<in> set (pad p v) \<Longrightarrow> is_digit c"
  by (induction p arbitrary: v) auto

lemma wrap_i64_id: "- (2 ^ 63) \<le> k \<Longrightarrow> k < 2 ^ 63 \<Longrightarrow> wrap_i64 k = k"
  by (simp add: wrap_i64_def)

lemma f64_mul_10: "k < 15 \<Longrightarrow> f64_mul (10 ^ k) 10 = 10 ^ Suc k"
  using f64_mul_exact [of "10 ^ k" 10 "10 ^ Suc k"] power_increasing [of "Suc k" 15 "10 :: nat"]
  by simp

lemma leading_fraction_fold_decimal:
  assumes "\<forall>c \<in> set ds. is_digit c" and "no_digit_start r" and "k + length ds \<le> 15"
    and "x < 10 ^ k"
  shows "leading_fraction_fold (int x) (10 ^ k) False (ds @ r)
    = (int (decimal x ds), 10 ^ (k + length ds), r)"
  using assms
proof (induction ds arbitrary: x k)
  case Nil
  then show ?case by (cases r) (auto simp: no_digit_start_def)
next
  case (Cons c cs)
  let ?y = "10 * x + digit_val c"
  have y: "?y < 10 ^ Suc k"
    using Cons.prems(1,4) digit_val_le [of c] by simp
  have "(10 :: nat) ^ Suc k \<le> 10 ^ 15"
    using Cons.prems(3) by (intro power_increasing) auto
  with y have y15: "?y < 10 ^ 15" by (rule less_le_trans)
  then have x: "int x \<le> i64_max div 10" by (simp add: i64_max_def)
  have c: "int x * 10 + int (of_char c) - 48 = int ?y"
    using Cons.prems(1) by (simp add: is_digit_def digit_val_def)
  have w: "wrap_i64 (int ?y) = int ?y" using y15 by (intro wrap_i64_id) auto
  show ?case
    using Cons.IH [OF _ Cons.prems(2) _ y] Cons.prems(1,3) x f64_mul_10 [of k]
    by (simp add: Let_def c w del: of_nat_add of_nat_mult)
qed

lemma frac_digits_pad:
  "frac_digits p v = [] \<and> v mod 10 ^ p = 0 \<or> (\<exists>q w. 0 < q \<and> q \<le> p \<and> frac_digits p v = pad q w
    \<and> v mod 10 ^ p = (w mod 10 ^ q) * 10 ^ (p - q) \<and> 0 < w mod 10 ^ q)"
proof (induction p arbitrary: v)
  case (Suc p)
  have split: "v mod 10 ^ Suc p = 10 * (v div 10 mod 10 ^ p) + v mod 10"
    by (simp only: power_Suc mod_mult2_eq)
  show ?case
  proof (cases "v mod 10 = 0")
    case True
    then have fd: "frac_digits (Suc p) v = frac_digits p (v div 10)" by simp
    from Suc.IH [of "v div 10"] show ?thesis
    proof (elim disjE exE conjE)
      fix q w
      assume "0 < q" "q \<le> p" "frac_digits p (v div 10) = pad q w"
        "v div 10 mod 10 ^ p = w mod 10 ^ q * 10 ^ (p - q)" "0 < w mod 10 ^ q"
      then show ?thesis
        unfolding fd split True by (intro disjI2 exI [of _ q] exI [of _ w]) (simp add: Suc_diff_le)
    qed (simp only: fd split True, simp)
  next
    case False
    then have "frac_digits (Suc p) v = pad (Suc p) v" "0 < v mod 10 ^ Suc p"
      unfolding split by simp_all
    then show ?thesis
      by (intro disjI2 exI [of _ "Suc p"] exI [of _ v]) (simp del: power_Suc pad.simps frac_digits.simps)
  qed
qed simp

lemma leading_fraction_pad:
  assumes "q \<le> 15" and "no_digit_start r"
  shows "leading_fraction (pad q w @ r) = (int (w mod 10 ^ q), 10 ^ q, r)"
  using leading_fraction_fold_decimal [of "pad q w" r 0 0] assms
  by (simp add: leading_fraction_def pad_digits decimal_pad)

lemma fraction_exact:
  assumes "q \<le> p" and "p \<le> 9" and "f < 10 ^ q"
  shows "f64_to_u64 (f64_mul (f64_of_nat f) (f64_div (f64_of_nat (10 ^ p)) (10 ^ q))) = f * 10 ^ (p - q)"
proof -
  have p: "(10 :: nat) ^ p \<le> 10 ^ 9" using assms(2) by (intro power_increasing) auto
  have pq: "(10 :: nat) ^ q * 10 ^ (p - q) = 10 ^ p" using assms(1) by (simp flip: power_add)
  have "f * 10 ^ (p - q) \<le> 10 ^ q * 10 ^ (p - q)" using assms(3) by simp
  with p pq have f9: "f * 10 ^ (p - q) \<le> 10 ^ 9" by simp
  have q9: "(10 :: nat) ^ (p - q) \<le> 10 ^ 9" "(10 :: nat) ^ q \<le> 10 ^ 9"
    using assms(1,2) by (intro power_increasing; simp)+
  have "f64_div (f64_of_nat (10 ^ p)) (10 ^ q) = of_nat (10 ^ (p - q))"
    using p q9 assms(1) by (intro f64_div_exact) (simp_all add: power_diff [where 'a = rat])
  moreover have "f64_mul (f64_of_nat f) (of_nat (10 ^ (p - q))) = of_nat (f * 10 ^ (p - q))"
    using f9 q9 assms(3) by (intro f64_mul_exact) simp_all
  ultimately show ?thesis
    using f9 f64_to_u64_of_nat [of "f * 10 ^ (p - q)"] by simp
qed

lemma parse_component_text:
  assumes "unit_of u = U" and "0 < U" and "\<forall>c \<in> set u. unit_char c" and "u \<noteq> []"
    and "p \<le> 9" and "p \<noteq> 0 \<longrightarrow> U = 10 ^ p" and "n * U + v mod 10 ^ p \<le> u64_max"
    and "r = [] \<or> \<not> unit_char (hd r)"
  shows "parse_component (show_nat n @ frac_text p v @ u @ r) = Ok (n * U + v mod 10 ^ p, r)"
proof -
  have nd: "no_digit_start (u @ r)" and hdu: "hd (u @ r) \<noteq> CHR ''.''"
    using assms(3,4) by (cases u; auto simp: no_digit_start_def unit_char_def)+
  have nU: "n \<le> u64_max div U"
    using assms(2,7) by (simp add: less_eq_div_iff_mult_less_eq)
  have n: "n \<le> u64_max"
    using nU div_le_dividend order_trans by blast
  have hd: "is_digit (hd (show_nat n @ x))" for x
    using show_nat_digits [of "hd (show_nat n)" n] by simp
  have li: "leading_int (show_nat n @ frac_text p v @ u @ r) = Ok (n, frac_text p v @ u @ r)"
    using n nd by (intro leading_int_show_nat) (auto simp: frac_text_def no_digit_start_def is_digit_def)
  have tw: "takeWhile unit_char r = []" "dropWhile unit_char r = r"
    using assms(8) by (cases r; simp)+
  show ?thesis
    using frac_digits_pad [of p v]
  proof (elim disjE exE conjE)
    assume "frac_digits p v = []" "v mod 10 ^ p = 0"
    then show ?thesis
      using hd li hdu nU assms(1-4)
      by (simp add: parse_component_def frac_text_def tw Let_def)
  next
    fix q w
    assume digits: "0 < q" "q \<le> p" "frac_digits p v = pad q w"
      "v mod 10 ^ p = (w mod 10 ^ q) * 10 ^ (p - q)" "0 < w mod 10 ^ q"
    then have "pad q w \<noteq> []" by (metis length_pad list.size(3) less_numeral_extra(3))
    moreover have "p \<noteq> 0" using digits by simp
    moreover have "leading_fraction (pad q w @ u @ r) = (int (w mod 10 ^ q), 10 ^ q, u @ r)"
      using digits assms(5) nd by (intro leading_fraction_pad) simp_all
    moreover have "f64_to_u64 (f64_mul (f64_of_nat (w mod 10 ^ q)) (f64_div (f64_of_nat U) (10 ^ q)))
      = v mod 10 ^ p"
      using fraction_exact [OF digits(2) assms(5), of "w mod 10 ^ q"] assms(6) \<open>p \<noteq> 0\<close>
      by (simp add: digits(4))
    ultimately show ?thesis
      using hd li nU assms(1-4,6,7) digits(3,5)
      by (simp add: parse_component_def frac_text_def tw Let_def checked_add_u64_def)
  qed
qed

section \<open>The text of a duration\<close>

definition duration_text :: "nat \<Rightarrow> string" where
  "duration_text u =
     (if u = 0 then ''0s''
      else if u < MICROSECOND then show_nat u @ ''ns''
      else if u < MILLISECOND then show_nat (u div 10 ^ 3) @ frac_text 3 u @ ''us''
      else if u < SECOND then show_nat (u div 10 ^ 6) @ frac_text 6 u @ ''ms''
      else let s = u div 10 ^ 9;
               t1 = show_nat (s mod 60) @ frac_text 9 u @ ''s'';
               t2 = show_nat (s div 60 mod 60) @ ''m'' @ t1 in
        if s div 60 = 0 then t1
        else if s div 60 div 60 = 0 then t2
        else show_nat (s div 60 div 60) @ ''h'' @ t2)"

lemma length_frac_text: "length (frac_text p v) \<le> Suc p"
  using length_frac_digits [of p v] by (simp add: frac_text_def)

lemma duration_small_ok:
  assumes "fb_ok b []" and "0 < u" and "u < SECOND"
  shows "\<exists>b'. duration_small u b = Ok b' \<and> fb_ok b' (duration_text u)"
proof -
  define c where "c = (if u < MICROSECOND then CHR ''n'' else if u < MILLISECOND then CHR ''u'' else CHR ''m'')"
  define p where "p = (if u < MICROSECOND then 0 else if u < MILLISECOND then 3 else (6 :: nat))"
  have p: "p \<le> 6" by (simp add: p_def)
  obtain b1 where b1: "buf_put b (CHR ''s'') = Ok b1" "fb_ok b1 ''s''"
    using buf_put_ok [OF assms(1)] by fastforce
  obtain b2 where b2: "buf_put b1 c = Ok b2" "fb_ok b2 [c, CHR ''s'']"
    using buf_put_ok [OF b1(2)] by fastforce
  obtain b3 where b3: "fmt_frac b2 u p = Ok (b3, u div 10 ^ p)" "fb_ok b3 (frac_text p u @ [c, CHR ''s''])"
    using fmt_frac_ok [OF b2(2), of p u] p by auto
  have "u div 10 ^ p < 10 ^ 9" using assms(3) by (intro le_less_trans [OF div_le_dividend]) (simp add: unit_defs)
  then have "length (show_nat (u div 10 ^ p)) \<le> 9" by (intro length_show_nat_le) auto
  then obtain b4 where "fmt_int b3 (u div 10 ^ p) = Ok b4"
    "fb_ok b4 (show_nat (u div 10 ^ p) @ frac_text p u @ [c, CHR ''s''])"
    using fmt_int_ok [OF b3(2), of "u div 10 ^ p"] length_frac_text [of p u] p by auto
  moreover have "duration_small u b = bind_res (buf_put b (CHR ''s'')) (\<lambda>b. bind_res (buf_put b c) (\<lambda>b.
     bind_res (fmt_frac b u p) (\<lambda>(b, u). fmt_int b u)))"
    by (simp add: duration_small_def c_def p_def)
  moreover have "duration_text u = show_nat (u div 10 ^ p) @ frac_text p u @ [c, CHR ''s'']"
    using assms(2,3) by (simp add: duration_text_def p_def c_def frac_text_def)
  ultimately show ?thesis using b1(1) b2(1) b3(1) by simp
qed

lemma length_show_nat_60: "length (show_nat (n mod 60)) \<le> 2"
  by (intro length_show_nat_le less_le_trans [OF mod_less_divisor]) auto

lemma duration_large_ok:
  assumes "fb_ok b []" and "SECOND \<le> u" and "u < 2 ^ 64"
  shows "\<exists>b'. duration_large u b = Ok b' \<and> fb_ok b' (duration_text u)"
proof -
  define s where "s = u div 10 ^ 9"
  define t1 where "t1 = show_nat (s mod 60) @ frac_text 9 u @ ''s''"
  define t2 where "t2 = show_nat (s div 60 mod 60) @ ''m'' @ t1"
  have txt_u: "duration_text u =
    (if s div 60 = 0 then t1 else if s div 60 div 60 = 0 then t2
     else show_nat (s div 60 div 60) @ ''h'' @ t2)"
    using assms(2) by (simp add: duration_text_def Let_def unit_defs s_def t1_def t2_def)
  have len1: "length t1 \<le> 13" and len2: "length t2 \<le> 16"
    using length_frac_text [of 9 u] length_show_nat_60 [of s] length_show_nat_60 [of "s div 60"]
    by (simp_all add: t1_def t2_def)
  obtain b1 where b1: "buf_put b (CHR ''s'') = Ok b1" "fb_ok b1 ''s''"
    using buf_put_ok [OF assms(1)] by fastforce
  obtain b2 where b2: "fmt_frac b1 u 9 = Ok (b2, s)" "fb_ok b2 (frac_text 9 u @ ''s'')"
    using fmt_frac_ok [OF b1(2), of 9 u] by (auto simp: s_def)
  obtain b3 where b3: "fmt_int b2 (s mod 60) = Ok b3" "fb_ok b3 t1"
    using fmt_int_ok [OF b2(2), of "s mod 60"] len1 by (auto simp: t1_def)
  obtain b4 where b4: "buf_put b3 (CHR ''m'') = Ok b4" "fb_ok b4 (''m'' @ t1)"
    using buf_put_ok [OF b3(2)] len1 by fastforce
  obtain b5 where b5: "fmt_int b4 (s div 60 mod 60) = Ok b5" "fb_ok b5 t2"
    using fmt_int_ok [OF b4(2), of "s div 60 mod 60"] len2 by (auto simp: t2_def)
  obtain b6 where b6: "buf_put b5 (CHR ''h'') = Ok b6" "fb_ok b6 (''h'' @ t2)"
    using buf_put_ok [OF b5(2)] len2 by fastforce
  have "s div 60 div 60 < 10 ^ 8" using assms(3) by (simp add: s_def div_mult2_eq [symmetric] less_mult_imp_div_less)
  then have "length (show_nat (s div 60 div 60)) \<le> 8" by (intro length_show_nat_le) auto
  then obtain b7 where b7: "fmt_int b6 (s div 60 div 60) = Ok b7"
    "fb_ok b7 (show_nat (s div 60 div 60) @ ''h'' @ t2)"
    using fmt_int_ok [OF b6(2), of "s div 60 div 60"] len2 by auto
  show ?thesis
    unfolding txt_u duration_large_def
    using b1 b2 b3 b4 b5 b6 b7 by (simp add: Let_def del: split_paired_Ex)
qed


lemma duration_eq_text: "duration d = Ok (duration_text (wrap_u64 d))"
proof -
  let ?b = "(replicate 32 (CHR 0x00), 32)" and ?u = "wrap_u64 d"
  have drop_eq: "map_ok (\<lambda>(buf, w). drop w buf) r = Ok s" if "\<exists>b'. r = Ok b' \<and> fb_ok b' s"
    for r :: "(unit, fmt_buf) res" and s
    using that by (auto simp: fb_ok_def)
  consider "?u = 0" | "0 < ?u" "?u < SECOND" | "SECOND \<le> ?u" by linarith
  then show ?thesis
  proof cases
    case 1
    then show ?thesis by (simp add: duration_def duration_text_def unit_defs)
  next
    case 2
    from drop_eq [OF duration_small_ok [OF fb_ok_init 2]] 2 show ?thesis
      by (simp add: duration_def Let_def)
  next
    case 3
    have "?u < 2 ^ 64" by (simp add: wrap_u64_def)
    from drop_eq [OF duration_large_ok [OF fb_ok_init 3 this]] 3 show ?thesis
      by (simp add: duration_def Let_def)
  qed
qed

lemma parse_loop_Nil [simp]: "parse_loop d [] = Ok d"
  by (simp add: parse_loop.simps)

lemma parse_loop_text:
  assumes "unit_of u = U" and "0 < U" and "\<forall>c \<in> set u. unit_char c" and "u \<noteq> []"
    and "p \<le> 9" and "p \<noteq> 0 \<longrightarrow> U = 10 ^ p" and "n * U + v mod 10 ^ p \<le> u64_max"
    and "r = [] \<or> \<not> unit_char (hd r)"
  shows "parse_loop d (show_nat n @ frac_text p v @ u @ r)
    = parse_loop (wrap_u64 (d + (n * U + v mod 10 ^ p))) r"
  by (subst parse_loop.simps) (simp add: parse_component_text [OF assms])

lemma frac_text_0 [simp]: "frac_text 0 v = []"
  by (simp add: frac_text_def)

lemmas parse_loop_unit = parse_loop_text [where p = 0, simplified]

lemma unit_of_names [simp]:
  "unit_of ''ns'' = 1" "unit_of ''us'' = 10 ^ 3" "unit_of ''ms'' = 10 ^ 6" "unit_of ''s'' = 10 ^ 9"
  "unit_of ''m'' = 60000000000" "unit_of ''h'' = 3600000000000"
  by (simp_all add: unit_of_def unit_defs)

lemma unit_char_letters [simp]:
  "unit_char (CHR ''n'')" "unit_char (CHR ''u'')" "unit_char (CHR ''m'')" "unit_char (CHR ''s'')"
  "unit_char (CHR ''h'')" "unit_char (CHR ''d'')" "unit_char (CHR ''w'')"
  by (simp_all add: unit_char_def is_digit_def)

lemma show_nat_not_unit [simp]: "\<not> unit_char (hd (show_nat n @ r))" "\<not> unit_char (hd (show_nat n))"
  using show_nat_digits [of "hd (show_nat n)" n] by (auto simp: unit_char_def)

lemma parse_duration_show_nat:
  assumes "s \<noteq> []"
  shows "parse_duration (show_nat n @ s) = parse_loop 0 (show_nat n @ s)"
proof -
  obtain c cs where "show_nat n = c # cs" by (cases "show_nat n") auto
  moreover from this have "is_digit c" using show_nat_digits [of c n] by simp
  ultimately show ?thesis using assms not_digit_sign by (auto simp: parse_duration_def)
qed

lemma parse_duration_fraction:
  assumes "unit_of w = 10 ^ p" and "\<forall>c \<in> set w. unit_char c" and "w \<noteq> []" and "p \<le> 9" and "u \<le> u64_max"
  shows "parse_duration (show_nat (u div 10 ^ p) @ frac_text p u @ w) = Ok u"
proof -
  have "wrap_u64 u = u" using assms(5) by (simp add: wrap_u64_def u64_max_def)
  then show ?thesis
    using parse_loop_text [of w "10 ^ p" p "u div 10 ^ p" u "[]" 0] assms
    by (simp add: parse_duration_show_nat div_mult_mod_eq)
qed

lemma parse_duration_text_small:
  assumes "u < SECOND"
  shows "parse_duration (duration_text u) = Ok u"
proof -
  have max: "u \<le> u64_max" using assms by (simp add: u64_max_def unit_defs)
  note frac = parse_duration_fraction [OF _ _ _ _ max]
  consider "u = 0" | "0 < u" "u < MICROSECOND" | "MICROSECOND \<le> u" "u < MILLISECOND"
    | "MILLISECOND \<le> u" by linarith
  then show ?thesis
  proof cases
    case 1
    then show ?thesis using frac [of "''s''" 9] by (simp add: duration_text_def frac_text_def)
  next
    case 2
    then show ?thesis using frac [of "''ns''" 0] by (simp add: duration_text_def)
  next
    case 3
    then have "duration_text u = show_nat (u div 10 ^ 3) @ frac_text 3 u @ ''us''"
      by (simp add: duration_text_def unit_defs)
    then show ?thesis using frac [of "''us''" 3] by simp
  next
    case 4
    then have "duration_text u = show_nat (u div 10 ^ 6) @ frac_text 6 u @ ''ms''"
      using assms by (simp add: duration_text_def unit_defs)
    then show ?thesis using frac [of "''ms''" 6] by simp
  qed
qed

lemma parse_duration_text_large:
  assumes "SECOND \<le> u" and "u < 2 ^ 64"
  shows "parse_duration (duration_text u) = Ok u"
proof -
  define s where "s = u div 10 ^ 9"
  define t1 where "t1 = show_nat (s mod 60) @ frac_text 9 u @ ''s''"
  define t2 where "t2 = show_nat (s div 60 mod 60) @ ''m'' @ t1"
  have txt_u: "duration_text u =
    (if s div 60 = 0 then t1 else if s div 60 div 60 = 0 then t2
     else show_nat (s div 60 div 60) @ ''h'' @ t2)"
    using assms(1) by (simp add: duration_text_def Let_def unit_defs s_def t1_def t2_def)
  have w: "wrap_u64 n = n" if "n \<le> u" for n
    using that assms(2) by (simp add: wrap_u64_def)
  have ten9: "(10 :: nat) ^ 9 = 1000000000" by simp
  have u: "u = s div 60 div 60 * 3600000000000 + (s div 60 mod 60 * 60000000000 + (s mod 60 * 10 ^ 9 + u mod 10 ^ 9))"
    using div_mult_mod_eq [of u "10 ^ 9", folded s_def] div_mult_mod_eq [of s 60]
      div_mult_mod_eq [of "s div 60" 60]
    unfolding ten9 by linarith
  have t1: "parse_loop d t1 = Ok (wrap_u64 (d + (s mod 60 * 10 ^ 9 + u mod 10 ^ 9)))" for d
    using parse_loop_text [of "''s''" "10 ^ 9" 9 "s mod 60" u "[]" d] u assms(2)
    by (simp add: t1_def u64_max_def)
  have t2: "parse_loop d t2 = parse_loop (wrap_u64 (d + s div 60 mod 60 * 60000000000)) t1" for d
    using parse_loop_unit [of "''m''" "60000000000" "s div 60 mod 60" t1 d] u assms(2)
    by (simp add: t1_def t2_def u64_max_def)
  have t3: "parse_loop 0 (show_nat (s div 60 div 60) @ ''h'' @ t2) = parse_loop (wrap_u64 (s div 60 div 60 * 3600000000000)) t2"
    using parse_loop_unit [of "''h''" "3600000000000" "s div 60 div 60" t2 0] u assms(2)
    by (simp add: t2_def u64_max_def)
  have "parse_duration (duration_text u) = parse_loop 0 (duration_text u)"
    unfolding txt_u by (simp add: t1_def t2_def parse_duration_show_nat)
  also have "\<dots> = Ok u"
  proof -
    define h m x f where "h = s div 60 div 60" and "m = s div 60 mod 60" and "x = s mod 60"
      and "f = u mod 10 ^ 9"
    note defs = h_def [symmetric] m_def [symmetric] x_def [symmetric] f_def [symmetric]
    have "m = 0" if "s div 60 = 0" using that by (simp add: m_def)
    moreover have "h = 0" if "s div 60 = 0" using that by (simp add: h_def)
    ultimately show ?thesis
      using u w t1 t2 t3 unfolding txt_u defs by (simp add: add.assoc)
  qed
  finally show ?thesis .
qed

lemma parse_loop_concat:
  assumes "\<forall>(n, u) \<in> set xs. unit_of u \<noteq> 0 \<and> n * unit_of u \<le> u64_max"
  shows "parse_loop d (concat (map (\<lambda>(n, u). show_nat n @ u) xs))
    = Ok (if xs = [] then d else wrap_u64 (d + (\<Sum>(n, u) \<leftarrow> xs. n * unit_of u)))"
  using assms
proof (induction xs arbitrary: d)
  case (Cons x xs)
  obtain n u where x: "x = (n, u)" by (cases x)
  let ?r = "concat (map (\<lambda>(n, u). show_nat n @ u) xs)"
  have u: "u \<noteq> [] \<and> (\<forall>c \<in> set u. unit_char c)"
    using Cons.prems x by (auto simp: unit_of_def unit_char_def is_digit_def split: if_splits)
  have "?r = [] \<or> \<not> unit_char (hd ?r)"
    by (cases xs) auto
  then have "parse_loop d (show_nat n @ u @ ?r) = parse_loop (wrap_u64 (d + n * unit_of u)) ?r"
    using Cons.prems x u by (intro parse_loop_unit [OF refl]) auto
  moreover have "wrap_u64 (wrap_u64 (d + a) + b) = wrap_u64 (d + (a + b))" for a b
    by (simp add: wrap_u64_def mod_add_left_eq add.assoc)
  ultimately show ?case using Cons x by (auto simp: wrap_u64_def)
qed simp

section \<open>Properties\<close>

text \<open>
  C7: printing a duration never panics (32 bytes are enough), and parsing the printed text
  gives back the number of nanoseconds, reduced to the 64 bits the printer keeps; the
  fraction goes through floating point without loss.
\<close>

theorem duration_roundtrip:
  "\<exists>s. duration d = Ok s \<and> parse_duration s = Ok (d mod 2 ^ 64)"
  using parse_duration_text_small [of "wrap_u64 d"] parse_duration_text_large [of "wrap_u64 d"]
  by (cases "wrap_u64 d < SECOND") (simp_all add: duration_eq_text wrap_u64_def)

text \<open>
  A text made of numbers with a known unit each (in any order, with repetitions) parses to the
  sum of the components, as long as each component fits 64 bits; the sum itself wraps around.
\<close>

lemma parse_duration_sum:
  assumes "xs \<noteq> []" and "\<forall>(n, u) \<in> set xs. unit_of u \<noteq> 0 \<and> n * unit_of u \<le> u64_max"
  shows "parse_duration (concat (map (\<lambda>(n, u). show_nat n @ u) xs))
    = Ok ((\<Sum>(n, u) \<leftarrow> xs. n * unit_of u) mod 2 ^ 64)"
proof -
  obtain n u ys where xs: "xs = (n, u) # ys" using assms(1) by (cases xs) auto
  with assms(2) have "u \<noteq> []" by (auto simp: unit_of_def)
  with xs have "parse_duration (concat (map (\<lambda>(n, u). show_nat n @ u) xs))
    = parse_loop 0 (concat (map (\<lambda>(n, u). show_nat n @ u) xs))"
    by (simp add: parse_duration_show_nat)
  with parse_loop_concat [OF assms(2)] assms(1) show ?thesis by (simp add: wrap_u64_def)
qed

text \<open>
  The overflow test of \<^verbatim>\<open>leading_int\<close> only looks at the value before the last
  digit, so the four numbers from \<open>2 ^ 64\<close> to \<open>2 ^ 64 + 3\<close> wrap to 0, 1, 2 and 3 instead
  of being rejected as the next larger number is.
\<close>

lemma leading_int_wraps:
  assumes "k < 4" and "no_digit_start r"
  shows "leading_int (''1844674407370955161'' @ digit_char (6 + k) # r) = Ok (k, r)
    \<and> leading_int (''1844674407370955162'' @ digit_char k # r) = Err BadInteger"
proof -
  have 1: "leading_int_fold x (c # s) = leading_int_fold (10 * x + digit_val c) s"
    if "is_digit c" "x < 1844674407370955161" for x c s
    using that digit_val_le [of c] by (simp add: u64_max_def wrap_u64_def of_char_digit)
  have r: "leading_int_fold n r = Ok (n, r)" for n
    using assms(2) leading_int_fold_decimal [of "[]"] by (cases r) (auto simp: no_digit_start_def)
  have "leading_int (''1844674407370955161'' @ s) = leading_int_fold 1844674407370955161 s"
    "leading_int (''1844674407370955162'' @ s) = leading_int_fold 1844674407370955162 s" for s
    by (simp_all add: leading_int_def 1 is_digit_def digit_val_def del: leading_int_fold.simps)
  with assms(1) r show ?thesis
    by (simp add: u64_max_def wrap_u64_def of_char_digit)
qed

end
