(* ===== verification/Rust_Net.thy ===== *)
theory Rust_Net
  imports Rust_Strings
begin

text \<open>
  \<^verbatim>\<open>std::io::Error\<close> and \<^verbatim>\<open>std::net\<close> as far as the program uses them: error
  kinds, socket addresses, their \<^verbatim>\<open>FromStr\<close> and their \<^verbatim>\<open>Display\<close>.
\<close>

section \<open>I/O errors\<close>

datatype ErrorKind = ConnectionRefused | NotConnected | AddrInUse | InvalidInput | InvalidData
  | TimedOut | WriteZero | UnexpectedEof | Other | OtherKind nat

datatype io_error = IoError (err_kind: ErrorKind) (err_msg: string)

section \<open>Addresses\<close>

datatype Ipv4Addr = Ipv4Addr byte byte byte byte

datatype Ipv6Addr = Ipv6Addr u16 u16 u16 u16 u16 u16 u16 u16

text \<open>A version 6 socket address also carries its flow label and its scope.\<close>

datatype SocketAddr = V4 Ipv4Addr u16 | V6 Ipv6Addr u16 u32 u32

fun octets :: "Ipv4Addr \<Rightarrow> bytes" where
  "octets (Ipv4Addr a b c d) = [a, b, c, d]"

fun segments :: "Ipv6Addr \<Rightarrow> u16 list" where
  "segments (Ipv6Addr a b c d e f g h) = [a, b, c, d, e, f, g, h]"

fun is_ipv4 :: "SocketAddr \<Rightarrow> bool" where
  "is_ipv4 (V4 _ _) = True"
| "is_ipv4 (V6 _ _ _ _) = False"

fun sa_port :: "SocketAddr \<Rightarrow> u16" where
  "sa_port (V4 _ p) = p"
| "sa_port (V6 _ p _ _) = p"

datatype IpAddr = IpV4 Ipv4Addr | IpV6 Ipv6Addr

fun sa_ip :: "SocketAddr \<Rightarrow> IpAddr" where
  "sa_ip (V4 ip _) = IpV4 ip"
| "sa_ip (V6 ip _ _ _) = IpV6 ip"

definition is_unspecified :: "Ipv4Addr \<Rightarrow> bool" where
  "is_unspecified ip = (octets ip = [0, 0, 0, 0])"

definition is_broadcast :: "Ipv4Addr \<Rightarrow> bool" where
  "is_broadcast ip = (octets ip = [255, 255, 255, 255])"

definition is_unspecified_v6 :: "Ipv6Addr \<Rightarrow> bool" where
  "is_unspecified_v6 ip = (segments ip = [0, 0, 0, 0, 0, 0, 0, 0])"

definition ipv6_of_segments :: "u16 list \<Rightarrow> Ipv6Addr option" where
  "ipv6_of_segments gs = (case gs of
     [a, b, c, d, e, f, g, h] \<Rightarrow> Some (Ipv6Addr a b c d e f g h) | _ \<Rightarrow> None)"

lemma length_octets [simp]: "length (octets a) = 4"
  by (cases a) simp

lemma length_segments [simp]: "length (segments a) = 8"
  by (cases a) simp

section \<open>The address parser\<close>

text \<open>
  The parser of \<^verbatim>\<open>core::net\<close>: each reader gives its value with the rest of the
  input, or nothing, in which case the input is left where it was.
\<close>

definition read_given_char :: "char \<Rightarrow> string \<Rightarrow> string option" where
  "read_given_char c s = (case s of [] \<Rightarrow> None | x # xs \<Rightarrow> if x = c then Some xs else None)"

definition to_digit :: "nat \<Rightarrow> char \<Rightarrow> nat option" where
  "to_digit radix c =
     (let n = of_char c :: nat;
          d = (if 48 \<le> n \<and> n \<le> 57 then n - 48
               else if 97 \<le> n \<and> n \<le> 122 then n - 87
               else if 65 \<le> n \<and> n \<le> 90 then n - 55 else 36)
      in if d < radix then Some d else None)"

definition radix_digits :: "nat \<Rightarrow> string \<Rightarrow> string" where
  "radix_digits radix s = takeWhile (\<lambda>c. to_digit radix c \<noteq> None) s"

definition radix_value :: "nat \<Rightarrow> string \<Rightarrow> nat" where
  "radix_value radix ds = foldl (\<lambda>x c. x * radix + the (to_digit radix c)) 0 ds"

text \<open>
  \<^verbatim>\<open>read_number\<close> at a type with largest value \<open>mx\<close>: all the digits there are, at most
  \<open>max_digits\<close> of them when a limit is given.
\<close>

definition read_number :: "nat \<Rightarrow> nat \<Rightarrow> nat option \<Rightarrow> bool \<Rightarrow> string \<Rightarrow> (nat \<times> string) option" where
  "read_number mx radix max_digits allow_zero_prefix s =
     (let ds = radix_digits radix s; v = radix_value radix ds in
      if ds = [] then None
      else if (case max_digits of Some k \<Rightarrow> length ds > k | None \<Rightarrow> False) then None
      else if \<not> allow_zero_prefix \<and> hd ds = CHR ''0'' \<and> length ds > 1 then None
      else if v > mx then None
      else Some (v, drop (length ds) s))"

definition read_octet :: "string \<Rightarrow> (byte \<times> string) option" where
  "read_octet s = map_option (\<lambda>(n, r). (of_nat n, r)) (read_number 255 10 (Some 3) False s)"

definition read_ipv4 :: "string \<Rightarrow> (Ipv4Addr \<times> string) option" where
  "read_ipv4 s =
     Option.bind (read_octet s) (\<lambda>(a, s).
     Option.bind (read_given_char (CHR ''.'') s) (\<lambda>s.
     Option.bind (read_octet s) (\<lambda>(b, s).
     Option.bind (read_given_char (CHR ''.'') s) (\<lambda>s.
     Option.bind (read_octet s) (\<lambda>(c, s).
     Option.bind (read_given_char (CHR ''.'') s) (\<lambda>s.
     Option.bind (read_octet s) (\<lambda>(d, s). Some (Ipv4Addr a b c d, s))))))))"

definition read_sep :: "bool \<Rightarrow> string \<Rightarrow> string option" where
  "read_sep first s = (if first then Some s else read_given_char (CHR '':'') s)"

text \<open>
  \<^verbatim>\<open>read_groups\<close>: at most \<open>k\<close> groups of hexadecimal digits, possibly ending in an
  embedded IPv4 address that takes two of them.
\<close>

fun read_groups :: "nat \<Rightarrow> bool \<Rightarrow> string \<Rightarrow> u16 list \<times> bool \<times> string" where
  "read_groups 0 first s = ([], False, s)"
| "read_groups (Suc k) first s =
     (case (if k > 0 then Option.bind (read_sep first s) read_ipv4 else None) of
        Some (Ipv4Addr a b c d, r) \<Rightarrow> ([of_be16 a b, of_be16 c d], True, r)
      | None \<Rightarrow>
        (case Option.bind (read_sep first s) (read_number 65535 16 (Some 4) True) of
           Some (g, r) \<Rightarrow> (case read_groups k False r of (gs, v4, r') \<Rightarrow> (of_nat g # gs, v4, r'))
         | None \<Rightarrow> ([], False, s)))"

definition read_ipv6 :: "string \<Rightarrow> (Ipv6Addr \<times> string) option" where
  "read_ipv6 s =
     (case read_groups 8 True s of (head, head_v4, r) \<Rightarrow>
      if length head = 8 then map_option (\<lambda>a. (a, r)) (ipv6_of_segments head)
      else if head_v4 then None
      else Option.bind (read_given_char (CHR '':'') r) (\<lambda>r.
           Option.bind (read_given_char (CHR '':'') r) (\<lambda>r.
           case read_groups (7 - length head) True r of (tail, _, r') \<Rightarrow>
             map_option (\<lambda>a. (a, r'))
               (ipv6_of_segments (head @ replicate (8 - length head - length tail) 0 @ tail)))))"

definition read_port :: "string \<Rightarrow> (u16 \<times> string) option" where
  "read_port s =
     Option.bind (read_given_char (CHR '':'') s) (\<lambda>s.
     map_option (\<lambda>(n, r). (of_nat n, r)) (read_number 65535 10 None True s))"

definition read_scope_id :: "string \<Rightarrow> (u32 \<times> string) option" where
  "read_scope_id s =
     Option.bind (read_given_char (CHR ''%'') s) (\<lambda>s.
     map_option (\<lambda>(n, r). (of_nat n, r)) (read_number 4294967295 10 None True s))"

definition read_socket_addr_v4 :: "string \<Rightarrow> (SocketAddr \<times> string) option" where
  "read_socket_addr_v4 s =
     Option.bind (read_ipv4 s) (\<lambda>(ip, s).
     Option.bind (read_port s) (\<lambda>(port, s). Some (V4 ip port, s)))"

definition read_socket_addr_v6 :: "string \<Rightarrow> (SocketAddr \<times> string) option" where
  "read_socket_addr_v6 s =
     Option.bind (read_given_char (CHR ''['') s) (\<lambda>s.
     Option.bind (read_ipv6 s) (\<lambda>(ip, s).
     case (case read_scope_id s of Some (sc, r) \<Rightarrow> (sc, r) | None \<Rightarrow> (0, s)) of (scope, s) \<Rightarrow>
     Option.bind (read_given_char (CHR '']'') s) (\<lambda>s.
     Option.bind (read_port s) (\<lambda>(port, s). Some (V6 ip port 0 scope, s)))))"

definition parse_socket_addr :: "string \<Rightarrow> SocketAddr option" where
  "parse_socket_addr s =
     (case (case read_socket_addr_v4 s of Some x \<Rightarrow> Some x | None \<Rightarrow> read_socket_addr_v6 s) of
        Some (a, r) \<Rightarrow> if r = [] then Some a else None
      | None \<Rightarrow> None)"

section \<open>The printed form\<close>

fun show_ipv4 :: "Ipv4Addr \<Rightarrow> string" where
  "show_ipv4 (Ipv4Addr a b c d) =
     show_nat (unat a) @ ''.'' @ show_nat (unat b) @ ''.'' @ show_nat (unat c) @ ''.'' @ show_nat (unat d)"

definition hex_digit :: "nat \<Rightarrow> char" where
  "hex_digit n = char_of (if n < 10 then 48 + n else 87 + n)"

fun show_hex :: "nat \<Rightarrow> string" where
  "show_hex n = (if n < 16 then [hex_digit n] else show_hex (n div 16) @ [hex_digit (n mod 16)])"

declare show_hex.simps [simp del]

text \<open>Start and length of the first longest run of zero segments.\<close>

fun zero_runs :: "nat \<Rightarrow> u16 list \<Rightarrow> nat \<times> nat \<Rightarrow> nat \<times> nat \<Rightarrow> nat \<times> nat" where
  "zero_runs i [] cur best = best"
| "zero_runs i (g # gs) cur best =
     (if g = 0 then
        let cur' = (if snd cur = 0 then (i, 1) else (fst cur, snd cur + 1)) in
        zero_runs (i + 1) gs cur' (if snd cur' > snd best then cur' else best)
      else zero_runs (i + 1) gs (0, 0) best)"

definition show_groups :: "u16 list \<Rightarrow> string" where
  "show_groups gs = join_with (CHR '':'') (map (\<lambda>g. show_hex (unat g)) gs)"

definition show_ipv6 :: "Ipv6Addr \<Rightarrow> string" where
  "show_ipv6 a =
     (let gs = segments a in
      if take 6 gs = [0, 0, 0, 0, 0, 0xFFFF] then
        ''::ffff:'' @ show_ipv4 (Ipv4Addr (ucast (drop_bit 8 (gs ! 6))) (ucast (gs ! 6))
          (ucast (drop_bit 8 (gs ! 7))) (ucast (gs ! 7)))
      else case zero_runs 0 gs (0, 0) (0, 0) of (start, len) \<Rightarrow>
        if len > 1 then show_groups (take start gs) @ ''::'' @ show_groups (drop (start + len) gs)
        else show_groups gs)"

fun show_socket_addr :: "SocketAddr \<Rightarrow> string" where
  "show_socket_addr (V4 ip p) = show_ipv4 ip @ '':'' @ show_nat (unat p)"
| "show_socket_addr (V6 ip p flow scope) =
     ''['' @ show_ipv6 ip @ (if scope = 0 then [] else ''%'' @ show_nat (unat scope)) @ '']:''
       @ show_nat (unat p)"

section \<open>Reading back a printed IPv4 address\<close>

lemma to_digit_10: "to_digit 10 c = (if is_digit c then Some (digit_val c) else None)"
  by (auto simp: to_digit_def is_digit_def digit_val_def Let_def)

lemma radix_digits_10: "radix_digits 10 s = takeWhile is_digit s"
  by (simp add: radix_digits_def to_digit_10)

lemma radix_value_10: "\<forall>c \<in> set ds. is_digit c \<Longrightarrow> radix_value 10 ds = decimal 0 ds"
proof -
  have "foldl (\<lambda>x c. x * 10 + the (to_digit 10 c)) a ds = foldl (\<lambda>x c. 10 * x + digit_val c) a ds"
    if "\<forall>c \<in> set ds. is_digit c" for a
    using that by (induction ds arbitrary: a) (simp_all add: to_digit_10 mult.commute)
  then show "\<forall>c \<in> set ds. is_digit c \<Longrightarrow> radix_value 10 ds = decimal 0 ds"
    by (simp add: radix_value_def decimal_def)
qed

lemma takeWhile_show_nat:
  assumes "r = [] \<or> \<not> is_digit (hd r)"
  shows "takeWhile is_digit (show_nat n @ r) = show_nat n"
  using assms show_nat_digits [of _ n] by (cases r) (auto simp: takeWhile_eq_all_conv)

lemma show_nat_no_zero_prefix: "hd (show_nat n) = CHR ''0'' \<Longrightarrow> length (show_nat n) = 1"
proof (induction n rule: show_nat.induct)
  case (1 n)
  show ?case
  proof (cases "n < 10")
    case True
    then show ?thesis by (simp add: show_nat.simps [of n])
  next
    case False
    then have sn: "show_nat n = show_nat (n div 10) @ [digit_char n]" by (simp add: show_nat.simps [of n])
    with 1 False have "length (show_nat (n div 10)) = 1" "hd (show_nat (n div 10)) = CHR ''0''"
      by (simp_all add: hd_append)
    then have "show_nat (n div 10) = ''0''" by (cases "show_nat (n div 10)") auto
    then have "n div 10 = 0" by (metis decimal_show_nat show_nat_0)
    with False show ?thesis by simp
  qed
qed

lemma read_number_show_nat:
  assumes "n \<le> mx" and "r = [] \<or> \<not> is_digit (hd r)"
    and "\<forall>k. max_digits = Some k \<longrightarrow> length (show_nat n) \<le> k"
  shows "read_number mx 10 max_digits z (show_nat n @ r) = Some (n, r)"
  unfolding read_number_def radix_digits_10 takeWhile_show_nat [OF assms(2)]
  using assms show_nat_no_zero_prefix [of n]
  by (auto simp: radix_value_10 show_nat_digits decimal_show_nat Let_def split: option.splits)

lemma read_octet_show:
  assumes "r = [] \<or> \<not> is_digit (hd r)"
  shows "read_octet (show_nat (unat b) @ r) = Some (b, r)"
proof -
  have "length (show_nat (unat b)) \<le> 3"
    using unat_byte_le [of b] by (intro length_show_nat_le) auto
  then show ?thesis
    using assms unat_byte_le [of b] by (simp add: read_octet_def read_number_show_nat)
qed

lemma read_given_char_Cons [simp]: "read_given_char c (c # s) = Some s"
  by (simp add: read_given_char_def)

lemma not_digit_punct [simp]: "\<not> is_digit (CHR ''.'')" "\<not> is_digit (CHR '':'')"
  by (simp_all add: is_digit_def)

lemma read_ipv4_show:
  assumes "r = [] \<or> \<not> is_digit (hd r)"
  shows "read_ipv4 (show_ipv4 ip @ r) = Some (ip, r)"
  using assms by (cases ip) (simp add: read_ipv4_def read_octet_show)

lemma parse_show_v4: "parse_socket_addr (show_socket_addr (V4 ip p)) = Some (V4 ip p)"
  using read_number_show_nat [of "unat p" 65535 "[]" None True] unat_u16_le [of p]
  by (simp add: parse_socket_addr_def read_socket_addr_v4_def read_ipv4_show read_port_def)

section \<open>Reading in front of other text\<close>

text \<open>
  A character that is no digit, dot or colon ends an address: what follows it does not change what
  is read before it.
\<close>

definition keep_rest :: "string \<Rightarrow> ('a \<times> string) option \<Rightarrow> ('a \<times> string) option" where
  "keep_rest t x = map_option (\<lambda>(v, r). (v, r @ t)) x"

lemma keep_rest_simps [simp]: "keep_rest t None = None" "keep_rest t (Some (v, r)) = Some (v, r @ t)"
  by (simp_all add: keep_rest_def)

lemma read_given_char_append: "c \<noteq> x \<Longrightarrow> read_given_char x (s @ c # t) = map_option (\<lambda>r. r @ c # t) (read_given_char x s)"
  by (cases s) (simp_all add: read_given_char_def)

lemma read_number_append:
  assumes "to_digit radix c = None"
  shows "read_number mx radix k z (s @ c # t) = keep_rest (c # t) (read_number mx radix k z s)"
proof -
  have "radix_digits radix (s @ c # t) = radix_digits radix s"
    using assms by (induction s) (simp_all add: radix_digits_def)
  moreover have "length (radix_digits radix s) \<le> length s"
    by (simp add: radix_digits_def length_takeWhile_le)
  ultimately show ?thesis by (simp add: read_number_def Let_def split: option.split)
qed

lemma read_ipv4_append:
  assumes "\<not> is_digit c" and "c \<noteq> CHR ''.''"
  shows "read_ipv4 (s @ c # t) = keep_rest (c # t) (read_ipv4 s)"
proof -
  have octet: "read_octet (s @ c # t) = keep_rest (c # t) (read_octet s)" for s
    using assms(1) by (simp add: read_octet_def read_number_append to_digit_10 keep_rest_def option.map_comp comp_def split_beta)
  show ?thesis
    unfolding read_ipv4_def
    by (simp add: octet read_given_char_append [OF assms(2)] split: option.split bind_split)
qed

lemma read_groups_append:
  assumes "to_digit 16 c = None" and "c \<noteq> CHR ''.''" and "c \<noteq> CHR '':''"
  shows "read_groups k fst_group (s @ c # t) = (case read_groups k fst_group s of (gs, v4, r) \<Rightarrow> (gs, v4, r @ c # t))"
proof (induction k arbitrary: fst_group s)
  case (Suc k)
  have nd: "\<not> is_digit c" using assms(1) by (auto simp: to_digit_def is_digit_def Let_def split: if_splits)
  have sep: "read_sep fst_group (s @ c # t) = map_option (\<lambda>r. r @ c # t) (read_sep fst_group s)"
    by (simp add: read_sep_def read_given_char_append [OF assms(3)])
  show ?case
    by (cases "read_sep fst_group s")
      (auto simp: sep read_ipv4_append [OF nd assms(2)] read_number_append [OF assms(1)] Suc.IH keep_rest_def
        split: option.split prod.split Ipv4Addr.split)
qed simp

lemma read_ipv6_append:
  assumes "to_digit 16 c = None" and "c \<noteq> CHR ''.''" and "c \<noteq> CHR '':''"
  shows "read_ipv6 (s @ c # t) = keep_rest (c # t) (read_ipv6 s)"
  unfolding read_ipv6_def
  by (auto simp: read_groups_append [OF assms] read_given_char_append [OF assms(3)] keep_rest_def option.map_comp comp_def
      split: prod.split option.split bind_split)

lemma read_ipv4_rest:
  assumes "read_ipv4 s = Some (ip, r)"
  shows "set r \<subseteq> set s"
proof -
  have octet: "set r \<subseteq> set s" if "read_octet s = Some (b, r)" for s b r
    using that set_drop_subset
    by (fastforce simp: read_octet_def read_number_def Let_def split: if_splits option.splits)
  have dot: "set r \<subseteq> set s" if "read_given_char x s = Some r" for x s r
    using that by (cases s) (auto simp: read_given_char_def split: if_splits)
  from assms show ?thesis
    by (auto simp: read_ipv4_def bind_eq_Some_conv dest!: octet dot) blast
qed

text \<open>
  The texts of IPv4 addresses and bracketed IPv6 addresses, followed by a port, are socket
  addresses; a text with no colon that is not an IPv4 address is none with a port after it.
\<close>

lemma read_port_show: "read_port ('':'' @ show_nat (unat p)) = Some (p, [])"
  using read_number_show_nat [of "unat p" 65535 "[]" None True] unat_u16_le [of p]
  by (simp add: read_port_def)

lemma parse_socket_addr_v6:
  assumes "read_ipv6 t = Some (ip, [])"
  shows "parse_socket_addr (''['' @ t @ '']:'' @ show_nat (unat p)) = Some (V6 ip p 0 0)"
proof -
  have "read_ipv4 (CHR ''['' # s) = None" for s
    by (simp add: read_ipv4_def read_octet_def read_number_def radix_digits_10 is_digit_def)
  moreover have "read_ipv6 (t @ CHR '']'' # r) = Some (ip, CHR '']'' # r)" for r
    using assms by (subst read_ipv6_append) (simp_all add: to_digit_def)
  ultimately show ?thesis
    using read_port_show [of p]
    by (simp add: parse_socket_addr_def read_socket_addr_v4_def read_socket_addr_v6_def read_scope_id_def
        read_given_char_def)
qed

lemma parse_socket_addr_host:
  assumes "d \<noteq> []" and "CHR '':'' \<notin> set d" and "hd d \<noteq> CHR ''[''" and "\<nexists>ip. read_ipv4 d = Some (ip, [])"
  shows "parse_socket_addr (d @ CHR '':'' # r) = None"
proof -
  have "read_socket_addr_v4 (d @ CHR '':'' # r) = None"
  proof (cases "read_ipv4 d")
    case None
    then show ?thesis by (simp add: read_socket_addr_v4_def read_ipv4_append is_digit_def)
  next
    case (Some x)
    then obtain ip q where q: "read_ipv4 d = Some (ip, q)" by (cases x) simp
    moreover have "set q \<subseteq> set d" using q by (rule read_ipv4_rest)
    ultimately have "q \<noteq> []" "hd q \<noteq> CHR '':''"
      using assms(2,4) by (cases q; auto)+
    with q show ?thesis
      by (cases q) (simp_all add: read_socket_addr_v4_def read_ipv4_append is_digit_def read_port_def read_given_char_def)
  qed
  moreover have "read_socket_addr_v6 (d @ CHR '':'' # r) = None"
    using assms(1,3) by (cases d) (simp_all add: read_socket_addr_v6_def read_given_char_def)
  ultimately show ?thesis by (simp add: parse_socket_addr_def)
qed

text \<open>\<^verbatim>\<open>SocketAddr::new\<close>, and a signed number of 64 bits as text.\<close>

fun SocketAddr_new :: "IpAddr \<Rightarrow> u16 \<Rightarrow> SocketAddr" where
  "SocketAddr_new (IpV4 ip) port = V4 ip port"
| "SocketAddr_new (IpV6 ip) port = V6 ip port 0 0"

definition show_i64 :: "u64 \<Rightarrow> string" where
  "show_i64 w = (if sint w < 0 then CHR ''-'' # show_nat (nat (- sint w)) else show_nat (nat (sint w)))"

lemma SocketAddr_new_parts [simp]: "sa_ip (SocketAddr_new ip port) = ip" "sa_port (SocketAddr_new ip port) = port"
  by (cases ip; simp)+

text \<open>The printed difference is the signed one whenever it is representable.\<close>

lemma show_i64_difference:
  assumes "int (unat t) - int (unat now) \<in> {- (2 ^ 63) ..< 2 ^ 63}"
  shows "show_i64 (t - now) = (if unat now \<le> unat t then show_nat (unat t - unat now) else CHR ''-'' # show_nat (unat now - unat t))"
proof -
  have "t - now = word_of_int (int (unat t) - int (unat now))" by simp
  moreover have "signed_take_bit 63 (int (unat t) - int (unat now)) = int (unat t) - int (unat now)"
    using assms by (simp add: signed_take_bit_int_eq_self)
  ultimately have "sint (t - now) = int (unat t) - int (unat now)"
    by (simp only: signed_of_int) simp
  moreover have "nat (int a - int b) = a - b" "nat (- (int a - int b)) = b - a" "int a - int b < 0 \<longleftrightarrow> \<not> b \<le> a" for a b :: nat
    by arith+
  ultimately show ?thesis
    by (cases "unat now \<le> unat t")
      (simp_all only: show_i64_def not_True_eq_False not_False_eq_True if_True if_False simp_thms)
qed

end
