(* ===== verification/Address.thy ===== *)
theory Address
  imports Rust_Net
begin

text \<open>
  \<^verbatim>\<open>lib/shadowsocks/src/socks5.rs\<close> and \<^verbatim>\<open>addr.rs\<close>: SOCKS5 reply codes and
  errors, and the target address that starts every proxied stream and packet.  The stream an
  address is read from is a parameter (its \<^verbatim>\<open>read_exact\<close>); the locale
  \<open>byte_reader\<close> states what the decoder relies on and is interpreted on the cursor over a
  received packet.
\<close>

section \<open>SOCKS5 replies and errors\<close>

definition SOCKS5_REPLY_SUCCEEDED :: byte where "SOCKS5_REPLY_SUCCEEDED = 0x00"
definition SOCKS5_REPLY_GENERAL_FAILURE :: byte where "SOCKS5_REPLY_GENERAL_FAILURE = 0x01"
definition SOCKS5_REPLY_CONNECTION_NOT_ALLOWED :: byte where "SOCKS5_REPLY_CONNECTION_NOT_ALLOWED = 0x02"
definition SOCKS5_REPLY_NETWORK_UNREACHABLE :: byte where "SOCKS5_REPLY_NETWORK_UNREACHABLE = 0x03"
definition SOCKS5_REPLY_HOST_UNREACHABLE :: byte where "SOCKS5_REPLY_HOST_UNREACHABLE = 0x04"
definition SOCKS5_REPLY_CONNECTION_REFUSED :: byte where "SOCKS5_REPLY_CONNECTION_REFUSED = 0x05"
definition SOCKS5_REPLY_TTL_EXPIRED :: byte where "SOCKS5_REPLY_TTL_EXPIRED = 0x06"
definition SOCKS5_REPLY_COMMAND_NOT_SUPPORTED :: byte where "SOCKS5_REPLY_COMMAND_NOT_SUPPORTED = 0x07"
definition SOCKS5_REPLY_ADDRESS_TYPE_NOT_SUPPORTED :: byte where
  "SOCKS5_REPLY_ADDRESS_TYPE_NOT_SUPPORTED = 0x08"

lemmas reply_consts = SOCKS5_REPLY_SUCCEEDED_def SOCKS5_REPLY_GENERAL_FAILURE_def
  SOCKS5_REPLY_CONNECTION_NOT_ALLOWED_def SOCKS5_REPLY_NETWORK_UNREACHABLE_def
  SOCKS5_REPLY_HOST_UNREACHABLE_def SOCKS5_REPLY_CONNECTION_REFUSED_def SOCKS5_REPLY_TTL_EXPIRED_def
  SOCKS5_REPLY_COMMAND_NOT_SUPPORTED_def SOCKS5_REPLY_ADDRESS_TYPE_NOT_SUPPORTED_def

datatype Reply = Succeeded | GeneralFailure | ConnectionNotAllowed | NetworkUnreachable
  | HostUnreachable | Reply_ConnectionRefused | TtlExpired | CommandNotSupported
  | Reply_AddressTypeNotSupported | OtherReply byte

fun Reply_as_u8 :: "Reply \<Rightarrow> byte" where
  "Reply_as_u8 Succeeded = SOCKS5_REPLY_SUCCEEDED"
| "Reply_as_u8 GeneralFailure = SOCKS5_REPLY_GENERAL_FAILURE"
| "Reply_as_u8 ConnectionNotAllowed = SOCKS5_REPLY_CONNECTION_NOT_ALLOWED"
| "Reply_as_u8 NetworkUnreachable = SOCKS5_REPLY_NETWORK_UNREACHABLE"
| "Reply_as_u8 HostUnreachable = SOCKS5_REPLY_HOST_UNREACHABLE"
| "Reply_as_u8 Reply_ConnectionRefused = SOCKS5_REPLY_CONNECTION_REFUSED"
| "Reply_as_u8 TtlExpired = SOCKS5_REPLY_TTL_EXPIRED"
| "Reply_as_u8 CommandNotSupported = SOCKS5_REPLY_COMMAND_NOT_SUPPORTED"
| "Reply_as_u8 Reply_AddressTypeNotSupported = SOCKS5_REPLY_ADDRESS_TYPE_NOT_SUPPORTED"
| "Reply_as_u8 (OtherReply c) = c"

definition Reply_from_u8 :: "byte \<Rightarrow> Reply" where
  "Reply_from_u8 code =
     (if code = SOCKS5_REPLY_SUCCEEDED then Succeeded
      else if code = SOCKS5_REPLY_GENERAL_FAILURE then GeneralFailure
      else if code = SOCKS5_REPLY_CONNECTION_NOT_ALLOWED then ConnectionNotAllowed
      else if code = SOCKS5_REPLY_NETWORK_UNREACHABLE then NetworkUnreachable
      else if code = SOCKS5_REPLY_HOST_UNREACHABLE then HostUnreachable
      else if code = SOCKS5_REPLY_CONNECTION_REFUSED then Reply_ConnectionRefused
      else if code = SOCKS5_REPLY_TTL_EXPIRED then TtlExpired
      else if code = SOCKS5_REPLY_COMMAND_NOT_SUPPORTED then CommandNotSupported
      else if code = SOCKS5_REPLY_ADDRESS_TYPE_NOT_SUPPORTED then Reply_AddressTypeNotSupported
      else OtherReply code)"

fun Reply_fmt :: "Reply \<Rightarrow> string" where
  "Reply_fmt Succeeded = ''Succeeded''"
| "Reply_fmt Reply_AddressTypeNotSupported = ''Address type not supported''"
| "Reply_fmt CommandNotSupported = ''Command not supported''"
| "Reply_fmt ConnectionNotAllowed = ''Connection not allowed''"
| "Reply_fmt Reply_ConnectionRefused = ''Connection refused''"
| "Reply_fmt GeneralFailure = ''General failure''"
| "Reply_fmt HostUnreachable = ''Host unreachable''"
| "Reply_fmt NetworkUnreachable = ''Network unreachable''"
| "Reply_fmt (OtherReply u) = ''Other reply ('' @ show_nat (unat u) @ '')''"
| "Reply_fmt TtlExpired = ''TTL expired''"

datatype Socks5Error = Socks5_Io io_error | AddressTypeNotSupported byte | AddressDomainInvalidEncoding
  | UnsupportedSocksVersion byte | UnsupportedCommand byte | UnsupportedPasswdAuthVersion byte
  | PasswdAuthInvalidRequest | Socks5_Reply Reply

fun Socks5Error_fmt :: "Socks5Error \<Rightarrow> string" where
  "Socks5Error_fmt (Socks5_Io e) = err_msg e"
| "Socks5Error_fmt (AddressTypeNotSupported t) = ''address type 0x'' @ show_hex (unat t) @ '' not supported''"
| "Socks5Error_fmt AddressDomainInvalidEncoding = ''address domain name must be UTF-8 encoding''"
| "Socks5Error_fmt (UnsupportedSocksVersion v) = ''unsupported socks version 0x'' @ show_hex (unat v)"
| "Socks5Error_fmt (UnsupportedCommand c) = ''unsupported command 0x'' @ show_hex (unat c)"
| "Socks5Error_fmt (UnsupportedPasswdAuthVersion v) =
     ''unsupported username/password authentication version 0x'' @ show_hex (unat v)"
| "Socks5Error_fmt PasswdAuthInvalidRequest = ''username/password authentication invalid request''"
| "Socks5Error_fmt (Socks5_Reply r) = Reply_fmt r"

fun Socks5Error_into_io :: "Socks5Error \<Rightarrow> io_error" where
  "Socks5Error_into_io (Socks5_Io e) = e"
| "Socks5Error_into_io e = IoError Other (Socks5Error_fmt e)"

fun as_reply :: "Socks5Error \<Rightarrow> Reply" where
  "as_reply (Socks5_Io e) =
     (if err_kind e = ConnectionRefused then Reply_ConnectionRefused else GeneralFailure)"
| "as_reply (AddressTypeNotSupported _) = Reply_AddressTypeNotSupported"
| "as_reply AddressDomainInvalidEncoding = GeneralFailure"
| "as_reply (UnsupportedSocksVersion _) = GeneralFailure"
| "as_reply (UnsupportedCommand _) = CommandNotSupported"
| "as_reply (UnsupportedPasswdAuthVersion _) = GeneralFailure"
| "as_reply PasswdAuthInvalidRequest = GeneralFailure"
| "as_reply (Socks5_Reply r) = r"

section \<open>Addresses\<close>

definition ADDR_TYPE_IPV4 :: byte where "ADDR_TYPE_IPV4 = 0x01"
definition ADDR_TYPE_DOMAIN_NAME :: byte where "ADDR_TYPE_DOMAIN_NAME = 0x03"
definition ADDR_TYPE_IPV6 :: byte where "ADDR_TYPE_IPV6 = 0x04"

lemmas addr_types = ADDR_TYPE_IPV4_def ADDR_TYPE_DOMAIN_NAME_def ADDR_TYPE_IPV6_def

datatype Address = SocketAddress SocketAddr | DomainNameAddress string u16

fun get_addr_len :: "Address \<Rightarrow> nat" where
  "get_addr_len (SocketAddress (V4 _ _)) = 1 + 4 + 2"
| "get_addr_len (SocketAddress (V6 _ _ _ _)) = 1 + 8 * 2 + 2"
| "get_addr_len (DomainNameAddress domain _) = 1 + 1 + length domain + 2"

definition serialized_len :: "Address \<Rightarrow> nat" where
  "serialized_len a = get_addr_len a"

fun write_to_buf :: "Address \<Rightarrow> bytes \<Rightarrow> ('e, bytes) res" where
  "write_to_buf (SocketAddress (V4 ip port)) buf =
     Ok (buf @ [ADDR_TYPE_IPV4] @ octets ip @ be16 port)"
| "write_to_buf (SocketAddress (V6 ip port _ _)) buf =
     Ok (buf @ [ADDR_TYPE_IPV6] @ concat (map be16 (segments ip)) @ be16 port)"
| "write_to_buf (DomainNameAddress domain port) buf =
     (if length domain \<le> 255
      then Ok (buf @ [ADDR_TYPE_DOMAIN_NAME] @ [of_nat (length domain)] @ as_bytes domain @ be16 port)
      else Panic)"

text \<open>The \<open>k\<close>-th big-endian 16-bit field of a buffer.\<close>

definition be_field :: "bytes \<Rightarrow> nat \<Rightarrow> u16" where
  "be_field buf k = of_be16 (buf ! (2 * k)) (buf ! (2 * k + 1))"

definition read_from :: "(nat \<Rightarrow> 's \<Rightarrow> (io_error, bytes \<times> 's) res) \<Rightarrow> 's \<Rightarrow> (Socks5Error, Address \<times> 's) res" where
  "read_from read_exact stream =
     bind_res (map_err Socks5_Io (read_exact 1 stream)) (\<lambda>(addr_type_buf, stream).
     let addr_type = addr_type_buf ! 0 in
     if addr_type = ADDR_TYPE_IPV4 then
       bind_res (map_err Socks5_Io (read_exact 6 stream)) (\<lambda>(buf, stream).
         Ok (SocketAddress (V4 (Ipv4Addr (buf ! 0) (buf ! 1) (buf ! 2) (buf ! 3)) (be_field buf 2)), stream))
     else if addr_type = ADDR_TYPE_IPV6 then
       bind_res (map_err Socks5_Io (read_exact 18 stream)) (\<lambda>(buf, stream).
         Ok (SocketAddress (V6 (Ipv6Addr (be_field buf 0) (be_field buf 1) (be_field buf 2) (be_field buf 3)
               (be_field buf 4) (be_field buf 5) (be_field buf 6) (be_field buf 7)) (be_field buf 8) 0 0), stream))
     else if addr_type = ADDR_TYPE_DOMAIN_NAME then
       bind_res (map_err Socks5_Io (read_exact 1 stream)) (\<lambda>(length_buf, stream).
       let len = unat (length_buf ! 0) in
       bind_res (map_err Socks5_Io (read_exact (len + 2) stream)) (\<lambda>(raw_addr, stream).
       let port = of_be16 (raw_addr ! len) (raw_addr ! (len + 1)) in
       case from_utf8 (take len raw_addr) of
         Some addr \<Rightarrow> Ok (DomainNameAddress addr port, stream)
       | None \<Rightarrow> Err AddressDomainInvalidEncoding))
     else Err (AddressTypeNotSupported addr_type))"

fun Address_fmt :: "Address \<Rightarrow> string" where
  "Address_fmt (SocketAddress a) = show_socket_addr a"
| "Address_fmt (DomainNameAddress addr port) = addr @ '':'' @ show_nat (unat port)"

datatype AddressError = InvalidPort | MissingDomain | WithoutPort

definition Address_from_str :: "string \<Rightarrow> (AddressError, Address) res" where
  "Address_from_str s = (case parse_socket_addr s of
     Some addr \<Rightarrow> Ok (SocketAddress addr)
   | None \<Rightarrow> (case split_on (CHR '':'') s of
       dn # port # _ \<Rightarrow>
         if dn = [] then Err MissingDomain
         else (case parse_u16 port of
           Ok port \<Rightarrow> Ok (DomainNameAddress dn (of_nat port))
         | Err _ \<Rightarrow> Err InvalidPort
         | Panic \<Rightarrow> Panic)
     | _ \<Rightarrow> Err WithoutPort))"

section \<open>Reading what was written\<close>

text \<open>A Rust \<^verbatim>\<open>String\<close> is valid UTF-8; the encoder also needs it to fit one length byte.\<close>

fun addr_wf :: "Address \<Rightarrow> bool" where
  "addr_wf (SocketAddress _) = True"
| "addr_wf (DomainNameAddress domain _) = (valid_utf8 (as_bytes domain) \<and> length domain \<le> 255)"

text \<open>The flow label and the scope of a version 6 address are not transmitted.\<close>

fun addr_norm :: "Address \<Rightarrow> Address" where
  "addr_norm (SocketAddress (V6 ip port _ _)) = SocketAddress (V6 ip port 0 0)"
| "addr_norm a = a"

fun addr_bytes :: "Address \<Rightarrow> bytes" where
  "addr_bytes (SocketAddress (V4 ip port)) = ADDR_TYPE_IPV4 # octets ip @ be16 port"
| "addr_bytes (SocketAddress (V6 ip port _ _)) =
     ADDR_TYPE_IPV6 # concat (map be16 (segments ip)) @ be16 port"
| "addr_bytes (DomainNameAddress domain port) =
     ADDR_TYPE_DOMAIN_NAME # of_nat (length domain) # as_bytes domain @ be16 port"

lemma write_to_buf_addr_bytes: "addr_wf a \<Longrightarrow> write_to_buf a buf = Ok (buf @ addr_bytes a)"
  by (cases "(a, buf)" rule: write_to_buf.cases) auto

lemma write_to_buf_eq_Ok:
  "write_to_buf a buf = Ok bs \<longleftrightarrow>
    bs = buf @ addr_bytes a \<and> (\<forall>d p. a = DomainNameAddress d p \<longrightarrow> length d \<le> 255)"
  by (cases "(a, buf)" rule: write_to_buf.cases) auto

lemma length_concat_be16 [simp]: "length (concat (map be16 ws)) = 2 * length ws"
  by (induction ws) auto

lemma length_addr_bytes: "length (addr_bytes a) = serialized_len a"
  by (cases a rule: addr_bytes.cases) (simp_all add: serialized_len_def)

lemma be_field_concat:
  "k < length ws \<Longrightarrow> be_field (concat (map be16 ws) @ r) k = ws ! k"
proof (induction ws arbitrary: k)
  case (Cons w ws)
  then show ?case
    by (cases k) (simp_all add: be_field_def be16_def of_be16_be16 [unfolded be16_def])
qed simp

lemma concat_be_field:
  "length b = 2 * n \<Longrightarrow> concat (map (\<lambda>k. be16 (be_field b k)) [0..<n]) = b"
proof (induction n arbitrary: b)
  case (Suc n)
  then obtain x y b' where b: "b = x # y # b'" "length b' = 2 * n"
    by (cases b; cases "tl b") auto
  have "map (\<lambda>k. be16 (be_field b k)) [0..<Suc n]
      = be16 (of_be16 x y) # map (\<lambda>k. be16 (be_field b' k)) [0..<n]"
    by (simp add: b(1) be_field_def map_upt_Suc del: upt_Suc)
  then show ?case using Suc.IH [OF b(2)] b by (simp add: be16_of_be16 del: upt_Suc)
qed simp

section \<open>The stream interface\<close>

text \<open>
  What the decoder relies on: \<^verbatim>\<open>read_exact\<close> takes the next \<open>n\<close> bytes off the stream, or
  fails with \<^verbatim>\<open>UnexpectedEof\<close> when there are fewer.
\<close>

locale byte_reader =
  fixes read_exact :: "nat \<Rightarrow> 's \<Rightarrow> (io_error, bytes \<times> 's) res"
    and contents :: "'s \<Rightarrow> bytes"
  assumes read_ok: "n \<le> length (contents s) \<Longrightarrow>
      \<exists>s'. read_exact n s = Ok (take n (contents s), s') \<and> contents s' = drop n (contents s)"
    and read_eof: "length (contents s) < n \<Longrightarrow> \<exists>e. read_exact n s = Err e \<and> err_kind e = UnexpectedEof"
begin

lemma read_cases:
  obtains (ok) s' where "n \<le> length (contents s)" "read_exact n s = Ok (take n (contents s), s')"
    "contents s' = drop n (contents s)"
  | (eof) e where "length (contents s) < n" "read_exact n s = Err e" "err_kind e = UnexpectedEof"
  using read_ok [of n s] read_eof [of s n] by (cases "n \<le> length (contents s)") auto

lemma read_append:
  assumes "contents s = bs @ rest" and "length bs = n"
  obtains s' where "read_exact n s = Ok (bs, s')" "contents s' = rest"
  using read_ok [of n s] assms by auto

lemma read_from_V4:
  assumes "contents s = addr_bytes (SocketAddress (V4 ip port)) @ rest"
  shows "\<exists>s'. read_from read_exact s = Ok (SocketAddress (V4 ip port), s') \<and> contents s' = rest"
proof -
  obtain s1 where s1: "read_exact 1 s = Ok ([ADDR_TYPE_IPV4], s1)"
    "contents s1 = (octets ip @ be16 port) @ rest"
    by (rule read_append [of s "[ADDR_TYPE_IPV4]"]) (use assms in auto)
  obtain s2 where s2: "read_exact 6 s1 = Ok (octets ip @ be16 port, s2)" "contents s2 = rest"
    by (rule read_append [OF s1(2), of 6]) auto
  show ?thesis
    using s1(1) s2 by (cases ip) (simp add: read_from_def be_field_def be16_def)
qed

lemma read_from_V6:
  assumes "contents s = addr_bytes (SocketAddress (V6 ip port f sc)) @ rest"
  shows "\<exists>s'. read_from read_exact s = Ok (SocketAddress (V6 ip port 0 0), s') \<and> contents s' = rest"
proof -
  let ?b = "concat (map be16 (segments ip)) @ be16 port"
  obtain s1 where s1: "read_exact 1 s = Ok ([ADDR_TYPE_IPV6], s1)" "contents s1 = ?b @ rest"
    by (rule read_append [of s "[ADDR_TYPE_IPV6]"]) (use assms in auto)
  obtain s2 where s2: "read_exact 18 s1 = Ok (?b, s2)" "contents s2 = rest"
    by (rule read_append [OF s1(2), of 18]) auto
  have "?b = concat (map be16 (segments ip @ [port])) @ []" by simp
  then have "be_field ?b k = (segments ip @ [port]) ! k" if "k < 9" for k
    using be_field_concat [of k "segments ip @ [port]" "[]"] that by simp
  then show ?thesis
    using s1(1) s2 by (cases ip) (simp add: read_from_def addr_types)
qed

lemma read_from_domain:
  assumes "contents s = addr_bytes (DomainNameAddress d port) @ rest"
    and "valid_utf8 (as_bytes d)" and "length d \<le> 255"
  shows "\<exists>s'. read_from read_exact s = Ok (DomainNameAddress d port, s') \<and> contents s' = rest"
proof -
  obtain s1 where s1: "read_exact 1 s = Ok ([ADDR_TYPE_DOMAIN_NAME], s1)"
    "contents s1 = [of_nat (length d)] @ (as_bytes d @ be16 port) @ rest"
    by (rule read_append [of s "[ADDR_TYPE_DOMAIN_NAME]"]) (use assms in auto)
  obtain s2 where s2: "read_exact 1 s1 = Ok ([of_nat (length d)], s2)"
    "contents s2 = (as_bytes d @ be16 port) @ rest"
    by (rule read_append [OF s1(2), of 1]) auto
  obtain s3 where s3: "read_exact (length d + 2) s2 = Ok (as_bytes d @ be16 port, s3)" "contents s3 = rest"
    by (rule read_append [OF s2(2), of "length d + 2"]) auto
  have "unat (of_nat (length d) :: byte) = length d" using assms(3) by (simp add: unat_of_nat)
  then show ?thesis
    using s1(1) s2(1) s3 assms(2)
    by (simp add: read_from_def addr_types nth_append be16_def)
qed

lemma read_from_encoded:
  assumes "addr_wf a" and "contents s = addr_bytes a @ rest"
  shows "\<exists>s'. read_from read_exact s = Ok (addr_norm a, s') \<and> contents s' = rest"
  using assms read_from_V4 read_from_V6 read_from_domain
  by (cases a rule: addr_bytes.cases) auto

lemma read_exactD:
  assumes "read_exact n s = Ok (b, s')"
  shows "length b = n" "contents s = b @ contents s'"
  using assms by (cases n s rule: read_cases; auto)+

lemma read_from_sound:
  assumes "read_from read_exact s = Ok (a, s')"
  shows "addr_wf a \<and> addr_norm a = a \<and> contents s = addr_bytes a @ contents s'"
proof -
  obtain tb s1 where 1: "read_exact 1 s = Ok (tb, s1)"
    using assms by (auto simp: read_from_def res_simps)
  then obtain t where tb: "tb = [t]" using read_exactD(1) [OF 1] by (cases tb) auto
  note c1 = read_exactD(2) [OF 1, unfolded tb]
  consider "t = ADDR_TYPE_IPV4" | "t = ADDR_TYPE_IPV6" | "t = ADDR_TYPE_DOMAIN_NAME"
    using assms 1 tb by (auto simp: read_from_def split: if_splits)
  then show ?thesis
  proof cases
    case 1
    with assms \<open>read_exact 1 s = Ok (tb, s1)\<close> tb obtain b where r: "read_exact 6 s1 = Ok (b, s')"
      and a: "a = SocketAddress (V4 (Ipv4Addr (b ! 0) (b ! 1) (b ! 2) (b ! 3)) (be_field b 2))"
      by (auto simp: read_from_def res_simps)
    have "b = [b ! 0, b ! 1, b ! 2, b ! 3] @ be16 (be_field b 2)"
      using read_exactD(1) [OF r] by (auto simp: be_field_def be16_of_be16 list_eq_iff_nth_eq less_Suc_eq numeral_eq_Suc)
    with read_exactD(2) [OF r] c1 a 1 show ?thesis by simp
  next
    case 2
    with assms \<open>read_exact 1 s = Ok (tb, s1)\<close> tb obtain b where r: "read_exact 18 s1 = Ok (b, s')"
      and a: "a = SocketAddress (V6 (Ipv6Addr (be_field b 0) (be_field b 1) (be_field b 2) (be_field b 3)
               (be_field b 4) (be_field b 5) (be_field b 6) (be_field b 7)) (be_field b 8) 0 0)"
      by (auto simp: read_from_def res_simps addr_types)
    have "concat (map (\<lambda>k. be16 (be_field b k)) [0..<9]) = b"
      using read_exactD(1) [OF r] by (intro concat_be_field) simp
    moreover have "[0..<9] = [0, Suc 0, 2, 3, 4, 5, 6, 7, 8]" by (simp add: upt_rec)
    ultimately have "be16 (be_field b 0) @ be16 (be_field b (Suc 0)) @ be16 (be_field b 2)
        @ be16 (be_field b 3) @ be16 (be_field b 4) @ be16 (be_field b 5) @ be16 (be_field b 6)
        @ be16 (be_field b 7) @ be16 (be_field b 8) = b" by simp
    with read_exactD(2) [OF r] c1 a 2 show ?thesis by simp
  next
    case 3
    with assms \<open>read_exact 1 s = Ok (tb, s1)\<close> tb obtain lb s2 b d
      where r1: "read_exact 1 s1 = Ok (lb, s2)" and r2: "read_exact (unat (lb ! 0) + 2) s2 = Ok (b, s')"
        and d: "from_utf8 (take (unat (lb ! 0)) b) = Some d"
        and a: "a = DomainNameAddress d (of_be16 (b ! unat (lb ! 0)) (b ! (unat (lb ! 0) + 1)))"
      by (auto simp: read_from_def res_simps addr_types Let_def split: option.splits)
    obtain l where lb: "lb = [l]" using read_exactD(1) [OF r1] by (cases lb) auto
    from d lb have d': "valid_utf8 (as_bytes d)" "take (unat l) b = as_bytes d"
      by (auto simp: from_utf8_eq_Some)
    have len: "length d = unat l"
      using arg_cong [OF d'(2), of length] read_exactD(1) [OF r2] lb by simp
    have "drop (unat l) b = [b ! unat l, b ! (unat l + 1)]"
      using read_exactD(1) [OF r2] lb by (simp add: Cons_nth_drop_Suc [symmetric])
    then have "b = as_bytes d @ be16 (of_be16 (b ! unat l) (b ! (unat l + 1)))"
      using append_take_drop_id [of "unat l" b] d'(2) by (simp add: be16_of_be16)
    with read_exactD(2) [OF r2] read_exactD(2) [OF r1] c1 a lb d' len 3 unat_byte_le [of l]
    show ?thesis by simp
  qed
qed

lemma read_append_eof:
  assumes "read_exact n s = Ok (b, s1)" and "contents s = b @ p" and "length p < k"
  shows "\<exists>e. read_exact k s1 = Err e \<and> err_kind e = UnexpectedEof"
  using read_eof [of s1 k] read_exactD(2) [OF assms(1)] assms(2,3) by simp

lemma read_from_truncated:
  assumes "addr_wf a" and "strict_prefix (contents s) (addr_bytes a)"
  shows "\<exists>e. read_from read_exact s = Err (Socks5_Io e) \<and> err_kind e = UnexpectedEof"
proof (cases "contents s")
  case Nil
  with read_eof [of s 1] show ?thesis by (auto simp: read_from_def)
next
  case (Cons t p)
  then obtain s1 where s1: "read_exact 1 s = Ok ([t], s1)" "contents s1 = p"
    using read_append [of s "[t]" p 1] by auto
  have len: "length (contents s) < serialized_len a"
    using prefix_length_less [OF assms(2)] by (simp add: length_addr_bytes)
  show ?thesis
  proof (cases a rule: addr_bytes.cases)
    case (1 ip port)
    then have "t = ADDR_TYPE_IPV4" "length p < 6" using assms(2) Cons len
      by (auto simp: serialized_len_def strict_prefix_def)
    with read_eof [of s1 6] s1 show ?thesis by (auto simp: read_from_def)
  next
    case (2 ip port f sc)
    then have "t = ADDR_TYPE_IPV6" "length p < 18" using assms(2) Cons len
      by (auto simp: serialized_len_def strict_prefix_def)
    with read_eof [of s1 18] s1 show ?thesis by (auto simp: read_from_def addr_types)
  next
    case (3 d port)
    then have t: "t = ADDR_TYPE_DOMAIN_NAME" and p: "length p < length d + 3" using assms(2) Cons len
      by (auto simp: serialized_len_def strict_prefix_def)
    show ?thesis
    proof (cases p)
      case Nil
      with read_eof [of s1 1] s1 t show ?thesis by (auto simp: read_from_def addr_types)
    next
      case (Cons l q)
      then obtain s2 where s2: "read_exact 1 s1 = Ok ([l], s2)" "contents s2 = q"
        using read_append [of s1 "[l]" q 1] s1 by auto
      have "l = of_nat (length d)"
        using assms(2) \<open>contents s = t # p\<close> Cons 3 by (auto simp: strict_prefix_def)
      then have "unat l = length d" using assms(1) 3 by (simp add: unat_of_nat)
      with read_eof [of s2 "unat l + 2"] s1 s2 t p Cons show ?thesis
        by (auto simp: read_from_def addr_types)
    qed
  qed
qed

end

text \<open>A cursor over a received packet: what is left of it is the state.\<close>

definition cursor_read_exact :: "nat \<Rightarrow> bytes \<Rightarrow> (io_error, bytes \<times> bytes) res" where
  "cursor_read_exact n bs =
     (if n \<le> length bs then Ok (take n bs, drop n bs) else Err (IoError UnexpectedEof ''early eof''))"

interpretation cursor: byte_reader cursor_read_exact "\<lambda>bs. bs"
  by unfold_locales (auto simp: cursor_read_exact_def)

lemma Reply_from_as_u8: "Reply_as_u8 (Reply_from_u8 c) = c"
  by (simp add: Reply_from_u8_def)

lemma parse_socket_addr_letter:
  assumes "s \<noteq> []" and "\<not> is_digit (hd s)" and "hd s \<noteq> CHR ''[''"
  shows "parse_socket_addr s = None"
proof -
  obtain c cs where "s = c # cs" using assms(1) by (cases s) auto
  with assms show ?thesis
    by (simp add: parse_socket_addr_def read_socket_addr_v4_def read_socket_addr_v6_def read_ipv4_def
        read_octet_def read_number_def radix_digits_10 read_given_char_def)
qed

lemma Address_from_str_domain:
  assumes "d \<noteq> []" and "CHR '':'' \<notin> set d" and "\<not> is_digit (hd d)" and "hd d \<noteq> CHR ''[''"
    and "r = [] \<or> hd r = CHR '':''"
  shows "Address_from_str (d @ '':'' @ show_nat (unat port) @ r) = Ok (DomainNameAddress d port)"
proof -
  have nc: "CHR '':'' \<notin> set (show_nat (unat port))" by (auto dest: show_nat_digits)
  obtain ps where "split_on (CHR '':'') (show_nat (unat port) @ r) = show_nat (unat port) # ps"
    using assms(5) nc split_on_append_sep [OF nc] by (cases r) auto
  then have "split_on (CHR '':'') (d @ '':'' @ show_nat (unat port) @ r) = d # show_nat (unat port) # ps"
    using split_on_append_sep [OF assms(2)] by simp
  moreover have "parse_socket_addr (d @ '':'' @ show_nat (unat port) @ r) = None"
    using assms(1,3,4) by (intro parse_socket_addr_letter) auto
  ultimately show ?thesis
    using assms(1) parse_uint_show_nat [OF unat_u16_le [of port]] by (simp add: Address_from_str_def)
qed

text \<open>
  What the host of an endpoint names, with a port: the IPv4 or bracketed IPv6 address it is the
  text of, or the domain when it is neither.
\<close>

inductive host_names :: "string \<Rightarrow> u16 \<Rightarrow> Address \<Rightarrow> bool" where
  names_v4: "host_names (show_ipv4 ip) port (SocketAddress (V4 ip port))"
| names_v6: "read_ipv6 t = Some (ip, []) \<Longrightarrow> host_names (''['' @ t @ '']'') port (SocketAddress (V6 ip port 0 0))"
| names_domain: "d \<noteq> [] \<Longrightarrow> CHR '':'' \<notin> set d \<Longrightarrow> hd d \<noteq> CHR ''['' \<Longrightarrow> \<nexists>ip. read_ipv4 d = Some (ip, [])
    \<Longrightarrow> host_names d port (DomainNameAddress d port)"

lemma Address_from_str_host:
  assumes "host_names host port a"
  shows "Address_from_str (host @ '':'' @ show_nat (unat port)) = Ok a"
  using assms
proof cases
  case (names_v4 ip)
  then show ?thesis using parse_show_v4 [of ip port] by (simp add: Address_from_str_def)
next
  case (names_v6 t ip)
  then show ?thesis using parse_socket_addr_v6 [of t ip port] by (simp add: Address_from_str_def)
next
  case names_domain
  have nc: "CHR '':'' \<notin> set (show_nat (unat port))" by (auto dest: show_nat_digits)
  then have "split_on (CHR '':'') (host @ CHR '':'' # show_nat (unat port)) = [host, show_nat (unat port)]"
    using split_on_append_sep [OF names_domain(3), of "show_nat (unat port)"] by simp
  moreover have "parse_socket_addr (host @ CHR '':'' # show_nat (unat port)) = None"
    using names_domain(2-5) by (rule parse_socket_addr_host)
  ultimately show ?thesis
    using names_domain(1,2) parse_uint_show_nat [OF unat_u16_le [of port]] by (simp add: Address_from_str_def)
qed

section \<open>Properties\<close>

text \<open>
  C4: reading an address from the bytes the encoder produced returns the address (without the
  flow label and scope, which are not transmitted) and leaves exactly the bytes that follow, and
  the encoder wrote as many bytes as \<^verbatim>\<open>serialized_len\<close> announces.
\<close>

theorem address_roundtrip:
  assumes "addr_wf a"
  shows "\<exists>bs. write_to_buf a buf = Ok (buf @ bs) \<and> length bs = serialized_len a
    \<and> read_from cursor_read_exact (bs @ rest) = Ok (addr_norm a, rest)"
  using cursor.read_from_encoded [OF assms] write_to_buf_addr_bytes [OF assms, of buf] length_addr_bytes [of a]
  by auto

theorem address_roundtrip_witness:
  "\<exists>bs. write_to_buf (DomainNameAddress ''example.com'' 443) [] = Ok ([] @ bs)
    \<and> length bs = serialized_len (DomainNameAddress ''example.com'' 443)
    \<and> read_from cursor_read_exact (bs @ [1, 2, 3])
        = Ok (addr_norm (DomainNameAddress ''example.com'' 443), [1, 2, 3])"
  using address_roundtrip [of "DomainNameAddress ''example.com'' 443" "[]" "[1, 2, 3]"]
  by (simp add: valid_utf8_ascii is_ascii_def)

text \<open>
  C14: the wire form of an address is unique.  Whatever the decoder accepts is an address that
  the encoder writes back to exactly the bytes consumed, and every proper prefix of an encoded
  address is refused with \<^verbatim>\<open>UnexpectedEof\<close>.
\<close>

theorem address_canonical:
  "(read_from cursor_read_exact bs = Ok (a, rest) \<longrightarrow>
      (\<exists>used. write_to_buf a [] = Ok used \<and> bs = used @ rest))
   \<and> (addr_wf a \<and> write_to_buf a [] = Ok used' \<and> strict_prefix bs used' \<longrightarrow>
      (\<exists>e. read_from cursor_read_exact bs = Err (Socks5_Io e) \<and> err_kind e = UnexpectedEof))"
  using cursor.read_from_sound [of bs a rest] cursor.read_from_truncated [of a bs]
  by (auto simp: write_to_buf_addr_bytes)

theorem address_canonical_witness:
  "(\<exists>used. write_to_buf (SocketAddress (V4 (Ipv4Addr 127 0 0 1) 53)) [] = Ok used
     \<and> [1, 127, 0, 0, 1, 0, 53, 9] = used @ [9])
   \<and> (\<exists>e. read_from cursor_read_exact [1, 127, 0, 0] = Err (Socks5_Io e) \<and> err_kind e = UnexpectedEof)"
  using address_canonical [of "[1, 127, 0, 0, 1, 0, 53, 9]" "SocketAddress (V4 (Ipv4Addr 127 0 0 1) 53)" "[9]"]
    address_canonical [of "[1, 127, 0, 0]" "SocketAddress (V4 (Ipv4Addr 127 0 0 1) 53)" _ "[1, 127, 0, 0, 1, 0, 53]"]
  by (simp add: read_from_def cursor_read_exact_def addr_types be_field_def of_be16_def be16_def strict_prefix_def)

text \<open>
  The text form of an IPv4 socket address and of a domain name that starts with a letter
  parses back to the address; a further colon and anything after it are ignored.
\<close>

lemma address_text_roundtrip:
  "Address_from_str (Address_fmt (SocketAddress (V4 ip port))) = Ok (SocketAddress (V4 ip port))
   \<and> (d \<noteq> [] \<and> CHR '':'' \<notin> set d \<and> \<not> is_digit (hd d) \<and> hd d \<noteq> CHR ''['' \<longrightarrow>
      Address_from_str (Address_fmt (DomainNameAddress d port)) = Ok (DomainNameAddress d port)
      \<and> Address_from_str (Address_fmt (DomainNameAddress d port) @ '':'' @ junk) = Ok (DomainNameAddress d port))"
  using parse_show_v4 [of ip port] Address_from_str_domain [of d "[]" port]
    Address_from_str_domain [of d "'':'' @ junk" port]
  by (simp add: Address_from_str_def)

end
