(* ===== verification/Crypto.thy ===== *)
theory Crypto
  imports Rust_Net
begin

text \<open>
  \<^verbatim>\<open>lib/shadowsocks/src/crypto\<close>: the cipher kinds, the in-place AEAD wrappers, the
  \<^verbatim>\<open>Cipher\<close> with its counting nonce, and salt generation.  The primitives themselves
  (HKDF-SHA1, AES-GCM, XChaCha20-Poly1305, the random generator) are third-party code: they are
  the record \<open>crypto_prims\<close>, an argument of every definition that calls them, and
  \<open>aead_laws\<close> states the documented behaviour the proofs rely on.
\<close>

section \<open>Cipher kinds\<close>

datatype CipherCategory = Aead | Aead2022

datatype CipherKind = AES_128_GCM | AES_256_GCM
  | AEAD2022_BLAKE3_AES_128_GCM | AEAD2022_BLAKE3_AES_256_GCM
  | AEAD2022_BLAKE3_CHACHA20_POLY1305 | AEAD2022_BLAKE3_CHACHA8_POLY1305

definition is_aead :: "CipherKind \<Rightarrow> bool" where
  "is_aead k \<longleftrightarrow> k = AES_128_GCM \<or> k = AES_256_GCM"

definition is_aead2022 :: "CipherKind \<Rightarrow> bool" where
  "is_aead2022 k \<longleftrightarrow> k = AEAD2022_BLAKE3_AES_128_GCM \<or> k = AEAD2022_BLAKE3_AES_256_GCM
     \<or> k = AEAD2022_BLAKE3_CHACHA20_POLY1305 \<or> k = AEAD2022_BLAKE3_CHACHA8_POLY1305"

fun category :: "CipherKind \<Rightarrow> CipherCategory" where
  "category AES_128_GCM = Aead"
| "category AES_256_GCM = Aead"
| "category _ = Aead2022"

text \<open>The \<^verbatim>\<open>todo!()\<close> branches panic.\<close>

fun key_len :: "CipherKind \<Rightarrow> ('e, nat) res" where
  "key_len AES_128_GCM = Ok (128 div 8)"
| "key_len AES_256_GCM = Ok (256 div 8)"
| "key_len _ = Panic"

fun tag_len :: "CipherKind \<Rightarrow> ('e, nat) res" where
  "tag_len AES_128_GCM = Ok 16"
| "tag_len AES_256_GCM = Ok 16"
| "tag_len _ = Panic"

definition salt_len :: "CipherKind \<Rightarrow> ('e, nat) res" where
  "salt_len k = key_len k"

fun nonce_len :: "CipherKind \<Rightarrow> ('e, nat) res" where
  "nonce_len _ = Panic"

fun CipherKind_fmt :: "CipherKind \<Rightarrow> string" where
  "CipherKind_fmt AES_128_GCM = ''aes-128-gcm''"
| "CipherKind_fmt AES_256_GCM = ''aes-256-gcm''"
| "CipherKind_fmt AEAD2022_BLAKE3_AES_128_GCM = ''2022-blake3-aes-128-gcm''"
| "CipherKind_fmt AEAD2022_BLAKE3_AES_256_GCM = ''2022-blake3-aes-256-gcm''"
| "CipherKind_fmt AEAD2022_BLAKE3_CHACHA20_POLY1305 = ''2022-blake3-chacha20-poly1305''"
| "CipherKind_fmt AEAD2022_BLAKE3_CHACHA8_POLY1305 = ''2022-blake3-chacha8-poly1305''"

datatype ParseCipherKindError = ParseCipherKindError

definition CipherKind_from_str :: "string \<Rightarrow> (ParseCipherKindError, CipherKind) res" where
  "CipherKind_from_str s =
     (if s = ''aes-128-gcm'' then Ok AES_128_GCM
      else if s = ''aes-256-gcm'' then Ok AES_256_GCM
      else if s = ''2022-blake3-aes-128-gcm'' then Ok AEAD2022_BLAKE3_AES_128_GCM
      else if s = ''2022-blake3-aes-256-gcm'' then Ok AEAD2022_BLAKE3_AES_256_GCM
      else if s = ''2022-blake3-chacha20-poly1305'' then Ok AEAD2022_BLAKE3_CHACHA20_POLY1305
      else if s = ''2022-blake3-chacha8-poly1305'' then Ok AEAD2022_BLAKE3_CHACHA8_POLY1305
      else Err ParseCipherKindError)"

section \<open>Primitives\<close>

datatype Algorithm = Alg_Aes128Gcm | Alg_Aes256Gcm | Alg_XChaCha20Poly1305

text \<open>
  \<open>hkdf_sha1 salt ikm info n\<close> is the \<open>n\<close>-byte output of \<^verbatim>\<open>Hkdf::expand\<close>, nothing if the
  length is refused; \<open>seal alg key nonce plaintext\<close> is \<^verbatim>\<open>encrypt_in_place_detached\<close> (the
  buffer afterwards and the tag, nothing on an error); \<open>open alg key nonce ciphertext tag\<close> is
  \<^verbatim>\<open>decrypt_in_place_detached\<close> (whether the tag was accepted, and the buffer afterwards).
\<close>

record crypto_prims =
  hkdf_sha1 :: "bytes \<Rightarrow> bytes \<Rightarrow> bytes \<Rightarrow> nat \<Rightarrow> bytes option"
  seal :: "Algorithm \<Rightarrow> bytes \<Rightarrow> bytes \<Rightarrow> bytes \<Rightarrow> (bytes \<times> bytes) option"
  aopen :: "Algorithm \<Rightarrow> bytes \<Rightarrow> bytes \<Rightarrow> bytes \<Rightarrow> bytes \<Rightarrow> bool \<times> bytes"

fun alg_key_size :: "Algorithm \<Rightarrow> nat" where
  "alg_key_size Alg_Aes128Gcm = 16"
| "alg_key_size Alg_Aes256Gcm = 32"
| "alg_key_size Alg_XChaCha20Poly1305 = 32"

fun alg_nonce_size :: "Algorithm \<Rightarrow> nat" where
  "alg_nonce_size Alg_Aes128Gcm = 12"
| "alg_nonce_size Alg_Aes256Gcm = 12"
| "alg_nonce_size Alg_XChaCha20Poly1305 = 24"

definition tag_size :: nat where "tag_size = 16"

text \<open>\<^verbatim>\<open>GenericArray::from_slice\<close> panics on a slice of another length.\<close>

definition from_slice :: "nat \<Rightarrow> bytes \<Rightarrow> ('e, bytes) res" where
  "from_slice n b = (if length b = n then Ok b else Panic)"

text \<open>\<^verbatim>\<open>split_at_mut(len - tag_size)\<close>: the wrapped difference is out of range when the buffer is short.\<close>

definition split_tag :: "bytes \<Rightarrow> ('e, bytes \<times> bytes) res" where
  "split_tag buf =
     (if length buf < tag_size then Panic
      else Ok (take (length buf - tag_size) buf, drop (length buf - tag_size) buf))"

definition aead_new :: "Algorithm \<Rightarrow> bytes \<Rightarrow> ('e, bytes) res" where
  "aead_new alg key = from_slice (alg_key_size alg) key"

definition aead_encrypt :: "crypto_prims \<Rightarrow> Algorithm \<Rightarrow> bytes \<Rightarrow> bytes \<Rightarrow> bytes \<Rightarrow> ('e, bytes) res" where
  "aead_encrypt P alg key nonce buf =
     bind_res (from_slice (alg_nonce_size alg) nonce) (\<lambda>nonce.
     bind_res (split_tag buf) (\<lambda>(plaintext, out_tag).
     case seal P alg key nonce plaintext of
       Some (ciphertext, tag) \<Rightarrow> if length tag = length out_tag then Ok (ciphertext @ tag) else Panic
     | None \<Rightarrow> Panic))"

definition aead_decrypt :: "crypto_prims \<Rightarrow> Algorithm \<Rightarrow> bytes \<Rightarrow> bytes \<Rightarrow> bytes \<Rightarrow> ('e, bool \<times> bytes) res" where
  "aead_decrypt P alg key nonce buf =
     bind_res (from_slice (alg_nonce_size alg) nonce) (\<lambda>nonce.
     bind_res (split_tag buf) (\<lambda>(ciphertext, in_tag).
     case aopen P alg key nonce ciphertext in_tag of
       (ok, plaintext) \<Rightarrow> Ok (ok, plaintext @ in_tag)))"

definition Aes128Gcm_new :: "bytes \<Rightarrow> ('e, bytes) res" where
  "Aes128Gcm_new key = aead_new Alg_Aes128Gcm key"
definition Aes128Gcm_encrypt :: "crypto_prims \<Rightarrow> bytes \<Rightarrow> bytes \<Rightarrow> bytes \<Rightarrow> ('e, bytes) res" where
  "Aes128Gcm_encrypt P key nonce buf = aead_encrypt P Alg_Aes128Gcm key nonce buf"
definition Aes128Gcm_decrypt :: "crypto_prims \<Rightarrow> bytes \<Rightarrow> bytes \<Rightarrow> bytes \<Rightarrow> ('e, bool \<times> bytes) res" where
  "Aes128Gcm_decrypt P key nonce buf = aead_decrypt P Alg_Aes128Gcm key nonce buf"
definition Aes256Gcm_new :: "bytes \<Rightarrow> ('e, bytes) res" where
  "Aes256Gcm_new key = aead_new Alg_Aes256Gcm key"
definition Aes256Gcm_encrypt :: "crypto_prims \<Rightarrow> bytes \<Rightarrow> bytes \<Rightarrow> bytes \<Rightarrow> ('e, bytes) res" where
  "Aes256Gcm_encrypt P key nonce buf = aead_encrypt P Alg_Aes256Gcm key nonce buf"
definition Aes256Gcm_decrypt :: "crypto_prims \<Rightarrow> bytes \<Rightarrow> bytes \<Rightarrow> bytes \<Rightarrow> ('e, bool \<times> bytes) res" where
  "Aes256Gcm_decrypt P key nonce buf = aead_decrypt P Alg_Aes256Gcm key nonce buf"
definition XChaCha20Poly1305_new :: "bytes \<Rightarrow> ('e, bytes) res" where
  "XChaCha20Poly1305_new key = aead_new Alg_XChaCha20Poly1305 key"
definition XChaCha20Poly1305_encrypt :: "crypto_prims \<Rightarrow> bytes \<Rightarrow> bytes \<Rightarrow> bytes \<Rightarrow> ('e, bytes) res" where
  "XChaCha20Poly1305_encrypt P key nonce buf = aead_encrypt P Alg_XChaCha20Poly1305 key nonce buf"
definition XChaCha20Poly1305_decrypt :: "crypto_prims \<Rightarrow> bytes \<Rightarrow> bytes \<Rightarrow> bytes \<Rightarrow> ('e, bool \<times> bytes) res" where
  "XChaCha20Poly1305_decrypt P key nonce buf = aead_decrypt P Alg_XChaCha20Poly1305 key nonce buf"

section \<open>The cipher with a counting nonce\<close>

datatype CipherVariant = Variant_Aes128Gcm bytes | Variant_Aes256Gcm bytes

fun CipherVariant_new :: "CipherKind \<Rightarrow> bytes \<Rightarrow> ('e, CipherVariant) res" where
  "CipherVariant_new AES_128_GCM key = map_ok Variant_Aes128Gcm (Aes128Gcm_new key)"
| "CipherVariant_new AES_256_GCM key = map_ok Variant_Aes256Gcm (Aes256Gcm_new key)"
| "CipherVariant_new _ key = Panic"

fun nonce_size :: "CipherVariant \<Rightarrow> nat" where
  "nonce_size (Variant_Aes128Gcm _) = alg_nonce_size Alg_Aes128Gcm"
| "nonce_size (Variant_Aes256Gcm _) = alg_nonce_size Alg_Aes256Gcm"

fun CipherVariant_kind :: "CipherVariant \<Rightarrow> CipherKind" where
  "CipherVariant_kind (Variant_Aes128Gcm _) = AES_128_GCM"
| "CipherVariant_kind (Variant_Aes256Gcm _) = AES_256_GCM"

fun CipherVariant_encrypt :: "crypto_prims \<Rightarrow> CipherVariant \<Rightarrow> bytes \<Rightarrow> bytes \<Rightarrow> ('e, bytes) res" where
  "CipherVariant_encrypt P (Variant_Aes128Gcm key) nonce buf = Aes128Gcm_encrypt P key nonce buf"
| "CipherVariant_encrypt P (Variant_Aes256Gcm key) nonce buf = Aes256Gcm_encrypt P key nonce buf"

fun CipherVariant_decrypt :: "crypto_prims \<Rightarrow> CipherVariant \<Rightarrow> bytes \<Rightarrow> bytes \<Rightarrow> ('e, bool \<times> bytes) res" where
  "CipherVariant_decrypt P (Variant_Aes128Gcm key) nonce buf = Aes128Gcm_decrypt P key nonce buf"
| "CipherVariant_decrypt P (Variant_Aes256Gcm key) nonce buf = Aes256Gcm_decrypt P key nonce buf"

record Cipher =
  cipher :: CipherVariant
  nlen :: nat
  nonce :: bytes

definition N_MAX :: nat where "N_MAX = 24"
definition SUBKEY_INFO :: bytes where "SUBKEY_INFO = as_bytes ''ss-subkey''"
definition MAX_KEY_LEN :: nat where "MAX_KEY_LEN = 64"

definition Cipher_new :: "crypto_prims \<Rightarrow> CipherKind \<Rightarrow> bytes \<Rightarrow> bytes \<Rightarrow> ('e, Cipher) res" where
  "Cipher_new P kind key iv_or_salt =
     (case hkdf_sha1 P iv_or_salt key SUBKEY_INFO MAX_KEY_LEN of
        None \<Rightarrow> Panic
      | Some okm \<Rightarrow>
        if length key > MAX_KEY_LEN then Panic
        else bind_res (CipherVariant_new kind (take (length key) okm)) (\<lambda>c.
          Ok \<lparr>cipher = c, nlen = nonce_size c, nonce = replicate N_MAX 0\<rparr>))"

definition Cipher_tag_len :: "Cipher \<Rightarrow> ('e, nat) res" where
  "Cipher_tag_len c = tag_len (CipherVariant_kind (cipher c))"

text \<open>The carry loop over the bytes after the first, in 16-bit arithmetic.\<close>

fun carry_loop :: "u16 \<Rightarrow> bytes \<Rightarrow> bytes" where
  "carry_loop c [] = []"
| "carry_loop c (b # bs) =
     (let c = c + ucast b in ucast c # carry_loop (drop_bit 8 c) bs)"

definition increase_nonce :: "Cipher \<Rightarrow> Cipher" where
  "increase_nonce ci =
     (let n = nonce ci;
          c = ucast (hd n) + 1 :: u16
      in ci\<lparr>nonce := ucast c # carry_loop (drop_bit 8 c) (take (nlen ci - 1) (tl n)) @ drop (nlen ci) n\<rparr>)"

definition Cipher_encrypt :: "crypto_prims \<Rightarrow> Cipher \<Rightarrow> bytes \<Rightarrow> ('e, Cipher \<times> bytes) res" where
  "Cipher_encrypt P ci buf =
     bind_res (CipherVariant_encrypt P (cipher ci) (take (nlen ci) (nonce ci)) buf) (\<lambda>buf.
       Ok (increase_nonce ci, buf))"

definition Cipher_decrypt :: "crypto_prims \<Rightarrow> Cipher \<Rightarrow> bytes \<Rightarrow> ('e, Cipher \<times> bool \<times> bytes) res" where
  "Cipher_decrypt P ci buf =
     bind_res (CipherVariant_decrypt P (cipher ci) (take (nlen ci) (nonce ci)) buf) (\<lambda>(ret, buf).
       Ok (increase_nonce ci, ret, buf))"

section \<open>Salts\<close>

text \<open>
  The random generator is the sequence of its fills: \<open>rng k n\<close> is what the \<open>k\<close>-th call writes
  into a slice of \<open>n\<close> bytes.  The loop may run forever, which is the value \<^const>\<open>None\<close>.
\<close>

partial_function (option) random_loop :: "(nat \<Rightarrow> nat \<Rightarrow> bytes) \<Rightarrow> nat \<Rightarrow> nat \<Rightarrow> bytes option" where
  "random_loop rng k n =
     (let b = rng k n in if list_all (\<lambda>x. x = 0) b then random_loop rng (k + 1) n else Some b)"

definition random_iv_or_salt :: "(nat \<Rightarrow> nat \<Rightarrow> bytes) \<Rightarrow> nat \<Rightarrow> bytes \<Rightarrow> bytes option" where
  "random_iv_or_salt rng k b = (if b = [] then Some b else random_loop rng k (length b))"

definition generate_nonce :: "(nat \<Rightarrow> nat \<Rightarrow> bytes) \<Rightarrow> nat \<Rightarrow> CipherKind \<Rightarrow> bytes \<Rightarrow> bytes option" where
  "generate_nonce rng k kind b = (if b = [] then Some b else random_iv_or_salt rng k b)"

section \<open>The nonce counts in little-endian order\<close>

fun le_val :: "bytes \<Rightarrow> nat" where
  "le_val [] = 0"
| "le_val (b # bs) = unat b + 256 * le_val bs"

lemma le_val_less: "le_val bs < 256 ^ length bs"
proof (induction bs)
  case (Cons b bs)
  have "unat b < 256" using unat_byte_le [of b] by simp
  with Cons show ?case by (simp add: algebra_simps)
qed simp

lemma le_val_inj: "length a = length b \<Longrightarrow> le_val a = le_val b \<Longrightarrow> a = b"
proof (induction a b rule: list_induct2)
  case (Cons x xs y ys)
  have "unat x = (unat x + 256 * le_val xs) mod 256" "unat y = (unat y + 256 * le_val ys) mod 256"
    using unat_byte_le [of x] unat_byte_le [of y] by simp_all
  then have "unat x = unat y" using Cons.prems by (metis le_val.simps(2))
  with Cons show ?case by (simp add: word_unat_eq_iff)
qed simp

lemma length_carry_loop [simp]: "length (carry_loop c bs) = length bs"
  by (induction bs arbitrary: c) (simp_all add: Let_def)

lemma le_val_step:
  fixes s :: u16
  assumes "le_val rest = (v + unat s div 256) mod 256 ^ n"
  shows "le_val (ucast s # rest) = (unat s + 256 * v) mod 256 ^ Suc n"
proof -
  have "unat (ucast s :: byte) = unat s mod 256" by (rule unat_byte_of_u16)
  moreover have "(unat s + 256 * v) mod 256 ^ Suc n
      = 256 * ((unat s + 256 * v) div 256 mod 256 ^ n) + (unat s + 256 * v) mod 256"
    by (simp only: power_Suc mod_mult2_eq)
  ultimately show ?thesis using assms by (simp add: add.commute)
qed

lemma le_val_carry_loop:
  "unat c \<le> 1 \<Longrightarrow> le_val (carry_loop c bs) = (le_val bs + unat c) mod 256 ^ length bs"
proof (induction bs arbitrary: c)
  case (Cons b bs)
  have s: "unat (c + ucast b) = unat c + unat b"
    using Cons.prems unat_byte_le [of b] by (simp add: unat_word_ariths unat_u16_of_byte)
  then have "unat (drop_bit 8 (c + ucast b)) \<le> 1"
    using Cons.prems unat_byte_le [of b] by (simp add: unat_drop_8)
  from le_val_step [OF Cons.IH [OF this, unfolded unat_drop_8]] s show ?case
    by (simp add: Let_def algebra_simps)
qed simp

definition nonce_val :: "Cipher \<Rightarrow> nat" where
  "nonce_val ci = le_val (take (nlen ci) (nonce ci))"

definition cipher_wf :: "Cipher \<Rightarrow> bool" where
  "cipher_wf ci \<longleftrightarrow> nlen ci = nonce_size (cipher ci) \<and> length (nonce ci) = N_MAX
     \<and> (case cipher ci of Variant_Aes128Gcm k \<Rightarrow> length k = 16 | Variant_Aes256Gcm k \<Rightarrow> length k = 32)"

lemma cipher_wf_nlen: "cipher_wf ci \<Longrightarrow> nlen ci = 12"
  by (cases "cipher ci") (auto simp: cipher_wf_def)

lemma increase_nonce_wf:
  assumes "cipher_wf ci"
  shows "cipher_wf (increase_nonce ci)" "cipher (increase_nonce ci) = cipher ci"
    "nonce_val (increase_nonce ci) = (nonce_val ci + 1) mod 2 ^ 96"
proof -
  have nl: "nlen ci = 12" and len: "length (nonce ci) = 24"
    using assms cipher_wf_nlen by (auto simp: cipher_wf_def N_MAX_def)
  obtain b bs where n: "nonce ci = b # bs" "length bs = 23" using len by (cases "nonce ci") auto
  show "cipher_wf (increase_nonce ci)" "cipher (increase_nonce ci) = cipher ci"
    using assms n nl by (simp_all add: cipher_wf_def increase_nonce_def Let_def N_MAX_def)
  have s: "unat (ucast b + 1 :: u16) = unat b + 1"
    using unat_byte_le [of b] by (simp add: unat_word_ariths unat_u16_of_byte)
  then have "unat (drop_bit 8 (ucast b + 1 :: u16)) \<le> 1"
    using unat_byte_le [of b] by (simp add: unat_drop_8)
  from le_val_step [OF le_val_carry_loop [OF this, unfolded unat_drop_8, of "take 11 bs"]] s n nl
  show "nonce_val (increase_nonce ci) = (nonce_val ci + 1) mod 2 ^ 96"
    by (simp add: nonce_val_def increase_nonce_def Let_def take_Cons')
qed

lemma iterate_nonce:
  assumes "cipher_wf ci"
  shows "cipher_wf ((increase_nonce ^^ k) ci)" "cipher ((increase_nonce ^^ k) ci) = cipher ci"
    "nonce_val ((increase_nonce ^^ k) ci) = (nonce_val ci + k) mod 2 ^ 96"
proof (induction k)
  case 0
  { case 1 show ?case using assms by simp }
  { case 2 show ?case by simp }
  { case 3
    have "nonce_val ci < 256 ^ 12"
      using le_val_less [of "take (nlen ci) (nonce ci)"] assms cipher_wf_nlen [OF assms]
      by (simp add: nonce_val_def cipher_wf_def N_MAX_def)
    then show ?case by simp }
next
  case (Suc k)
  { case 1 show ?case using increase_nonce_wf Suc by simp }
  { case 2 show ?case using increase_nonce_wf Suc by simp }
  { case 3 show ?case using increase_nonce_wf(3) [OF Suc(1)] Suc(3) by (simp add: mod_simps) }
qed

lemma Cipher_new_wf:
  assumes "Cipher_new P k key salt = Ok ci"
    and "\<And>okm. hkdf_sha1 P salt key SUBKEY_INFO MAX_KEY_LEN = Some okm \<Longrightarrow> length okm = MAX_KEY_LEN"
  shows "cipher_wf ci \<and> nonce_val ci = 0"
proof -
  have z: "le_val (replicate n 0) = 0" for n by (induction n) auto
  show ?thesis
    using assms
    by (cases k) (auto simp: Cipher_new_def cipher_wf_def Aes128Gcm_new_def Aes256Gcm_new_def aead_new_def
        from_slice_def nonce_val_def N_MAX_def z res_simps split: option.splits if_splits)
qed

section \<open>Sealing and opening\<close>

text \<open>
  The documented behaviour of the primitives: HKDF-SHA1 gives up to 255 blocks of 20 bytes, an AEAD
  accepts a plaintext of at most \<open>2 ^ 36\<close> bytes, keeps its length, makes a tag of 16 bytes and
  opens what it sealed under the same key and nonce; opening works in place.
\<close>

definition hkdf_law :: "crypto_prims \<Rightarrow> bool" where
  "hkdf_law P \<longleftrightarrow> (\<forall>salt ikm info n. n \<le> 255 * 20 \<longrightarrow>
     (\<exists>okm. hkdf_sha1 P salt ikm info n = Some okm \<and> length okm = n))"

definition aead_law :: "crypto_prims \<Rightarrow> bool" where
  "aead_law P \<longleftrightarrow> (\<forall>alg key n pt.
     length key = alg_key_size alg \<and> length n = alg_nonce_size alg \<and> length pt \<le> 2 ^ 36 \<longrightarrow>
     (\<exists>ct tag. seal P alg key n pt = Some (ct, tag) \<and> length ct = length pt \<and> length tag = tag_size
        \<and> aopen P alg key n ct tag = (True, pt)))
   \<and> (\<forall>alg key n ct tag. length (snd (aopen P alg key n ct tag)) = length ct)"

definition aead_laws :: "crypto_prims \<Rightarrow> bool" where
  "aead_laws P \<longleftrightarrow> hkdf_law P \<and> aead_law P"

text \<open>A concrete instance: no encryption, and a constant tag.\<close>

definition null_prims :: crypto_prims where
  "null_prims = \<lparr>hkdf_sha1 = (\<lambda>salt ikm info n. if n \<le> 255 * 20 then Some (replicate n 0) else None),
     seal = (\<lambda>alg key n pt. Some (pt, replicate 16 0)),
     aopen = (\<lambda>alg key n ct tag. (tag = replicate 16 0, ct))\<rparr>"

lemma null_prims_laws: "aead_laws null_prims"
  by (simp add: aead_laws_def hkdf_law_def aead_law_def null_prims_def tag_size_def)

lemma length_nonce_slice: "cipher_wf ci \<Longrightarrow> length (take (nlen ci) (nonce ci)) = 12"
  using cipher_wf_nlen [of ci] by (simp add: cipher_wf_def N_MAX_def)

fun variant_alg :: "CipherVariant \<Rightarrow> Algorithm" where
  "variant_alg (Variant_Aes128Gcm _) = Alg_Aes128Gcm"
| "variant_alg (Variant_Aes256Gcm _) = Alg_Aes256Gcm"

fun variant_key :: "CipherVariant \<Rightarrow> bytes" where
  "variant_key (Variant_Aes128Gcm k) = k"
| "variant_key (Variant_Aes256Gcm k) = k"

lemmas wrapper_defs = Aes128Gcm_encrypt_def Aes128Gcm_decrypt_def Aes256Gcm_encrypt_def Aes256Gcm_decrypt_def

lemma CipherVariant_encrypt_alg:
  "CipherVariant_encrypt P v n buf = aead_encrypt P (variant_alg v) (variant_key v) n buf"
  "CipherVariant_decrypt P v n buf = aead_decrypt P (variant_alg v) (variant_key v) n buf"
  by (cases v; simp add: wrapper_defs)+

text \<open>What a cipher in state \<open>ci\<close> makes of a plaintext: the ciphertext followed by the tag.\<close>

definition sealed :: "crypto_prims \<Rightarrow> Cipher \<Rightarrow> bytes \<Rightarrow> bytes" where
  "sealed P ci pt =
     (case seal P (variant_alg (cipher ci)) (variant_key (cipher ci)) (take (nlen ci) (nonce ci)) pt of
        Some (ct, tag) \<Rightarrow> ct @ tag | None \<Rightarrow> [])"

lemma sealed_cases:
  assumes "aead_law P" and "cipher_wf ci" and "length pt \<le> 2 ^ 36"
  obtains ct tag where
    "seal P (variant_alg (cipher ci)) (variant_key (cipher ci)) (take (nlen ci) (nonce ci)) pt = Some (ct, tag)"
    "length ct = length pt" "length tag = tag_size"
    "aopen P (variant_alg (cipher ci)) (variant_key (cipher ci)) (take (nlen ci) (nonce ci)) ct tag = (True, pt)"
proof -
  have "length (variant_key (cipher ci)) = alg_key_size (variant_alg (cipher ci))"
    "length (take (nlen ci) (nonce ci)) = alg_nonce_size (variant_alg (cipher ci))"
    using assms(2) length_nonce_slice [OF assms(2)] by (cases "cipher ci"; simp add: cipher_wf_def)+
  with assms(1,3) that show ?thesis unfolding aead_law_def by blast
qed

lemma length_sealed:
  "aead_law P \<Longrightarrow> cipher_wf ci \<Longrightarrow> length pt \<le> 2 ^ 36 \<Longrightarrow> length (sealed P ci pt) = length pt + tag_size"
  by (erule (2) sealed_cases) (simp add: sealed_def)

lemma Cipher_encrypt_sealed:
  assumes "aead_law P" and "cipher_wf ci" and "length pt \<le> 2 ^ 36" and "length pad = tag_size"
  shows "Cipher_encrypt P ci (pt @ pad) = Ok (increase_nonce ci, sealed P ci pt)"
proof -
  have "length (take (nlen ci) (nonce ci)) = alg_nonce_size (variant_alg (cipher ci))"
    using length_nonce_slice [OF assms(2)] by (cases "cipher ci") simp_all
  with assms(4) show ?thesis
    by (rule_tac sealed_cases [OF assms(1-3)])
      (simp add: Cipher_encrypt_def CipherVariant_encrypt_alg aead_encrypt_def split_tag_def from_slice_def sealed_def)
qed

lemma Cipher_decrypt_sealed:
  assumes "aead_law P" and "cipher_wf ci" and "length pt \<le> 2 ^ 36"
  shows "Cipher_decrypt P ci (sealed P ci pt)
    = Ok (increase_nonce ci, True, pt @ drop (length pt) (sealed P ci pt))"
proof -
  have "length (take (nlen ci) (nonce ci)) = alg_nonce_size (variant_alg (cipher ci))"
    using length_nonce_slice [OF assms(2)] by (cases "cipher ci") simp_all
  then show ?thesis
    by (rule_tac sealed_cases [OF assms(1-3)])
      (simp add: Cipher_decrypt_def CipherVariant_encrypt_alg aead_decrypt_def split_tag_def from_slice_def sealed_def)
qed

text \<open>Opening any buffer that holds at least a tag ends with an answer and keeps the length.\<close>

lemma Cipher_decrypt_total:
  assumes "aead_law P" and "cipher_wf ci" and "tag_size \<le> length buf"
  shows "\<exists>ok out. length out = length buf \<and> Cipher_decrypt P ci buf = Ok (increase_nonce ci, ok, out)"
proof -
  let ?n = "length buf - tag_size"
  obtain ok pt where o: "aopen P (variant_alg (cipher ci)) (variant_key (cipher ci))
      (take (nlen ci) (nonce ci)) (take ?n buf) (drop ?n buf) = (ok, pt)" by fastforce
  have "length pt = length (take ?n buf)"
    using assms(1) o unfolding aead_law_def by (metis snd_conv)
  moreover have "length (take (nlen ci) (nonce ci)) = alg_nonce_size (variant_alg (cipher ci))"
    using length_nonce_slice [OF assms(2)] by (cases "cipher ci") simp_all
  ultimately show ?thesis
    using assms(3) o
    by (intro exI [of _ ok] exI [of _ "pt @ drop ?n buf"])
      (simp add: Cipher_decrypt_def CipherVariant_encrypt_alg aead_decrypt_def split_tag_def from_slice_def)
qed

lemma hkdf_law_length:
  assumes "hkdf_law P" and "hkdf_sha1 P salt key info MAX_KEY_LEN = Some okm"
  shows "length okm = MAX_KEY_LEN"
proof -
  have "MAX_KEY_LEN \<le> 255 * 20" by (simp add: MAX_KEY_LEN_def)
  with assms(1) have "\<exists>okm. hkdf_sha1 P salt key info MAX_KEY_LEN = Some okm \<and> length okm = MAX_KEY_LEN"
    unfolding hkdf_law_def by blast
  with assms(2) show ?thesis by simp
qed

fun kind_key_size :: "CipherKind \<Rightarrow> nat" where
  "kind_key_size AES_128_GCM = 16"
| "kind_key_size _ = 32"

lemma aead_lens:
  assumes "is_aead k"
  shows "key_len k = Ok (kind_key_size k)" "salt_len k = Ok (kind_key_size k)" "tag_len k = Ok tag_size"
  using assms by (auto simp: is_aead_def salt_len_def tag_size_def)

definition fresh_cipher :: "crypto_prims \<Rightarrow> CipherKind \<Rightarrow> bytes \<Rightarrow> bytes \<Rightarrow> Cipher" where
  "fresh_cipher P k key salt =
     (let sub = take (length key) (the (hkdf_sha1 P salt key SUBKEY_INFO MAX_KEY_LEN)) in
      \<lparr>cipher = (if k = AES_128_GCM then Variant_Aes128Gcm sub else Variant_Aes256Gcm sub),
       nlen = 12, nonce = replicate N_MAX 0\<rparr>)"

lemma Cipher_new_fresh:
  assumes "hkdf_law P" and "is_aead k" and "length key = kind_key_size k"
  shows "Cipher_new P k key salt = Ok (fresh_cipher P k key salt)"
    and "cipher_wf (fresh_cipher P k key salt)"
    and "tag_len (CipherVariant_kind (cipher (fresh_cipher P k key salt))) = Ok tag_size"
proof -
  have "MAX_KEY_LEN \<le> 255 * 20" by (simp add: MAX_KEY_LEN_def)
  then obtain okm where okm: "hkdf_sha1 P salt key SUBKEY_INFO MAX_KEY_LEN = Some okm" "length okm = 64"
    using assms(1) unfolding hkdf_law_def by (metis MAX_KEY_LEN_def)
  show "Cipher_new P k key salt = Ok (fresh_cipher P k key salt)"
    "cipher_wf (fresh_cipher P k key salt)"
    "tag_len (CipherVariant_kind (cipher (fresh_cipher P k key salt))) = Ok tag_size"
    using okm assms(2,3)
    by (auto simp: is_aead_def Cipher_new_def fresh_cipher_def cipher_wf_def N_MAX_def Aes128Gcm_new_def
        Aes256Gcm_new_def aead_new_def from_slice_def MAX_KEY_LEN_def tag_size_def)
qed

lemma random_loop_Some:
  assumes "\<not> list_all (\<lambda>x. x = 0) (rng (k + j) n)"
  shows "\<exists>b. random_loop rng k n = Some b"
  using assms
proof (induction j arbitrary: k)
  case 0
  then show ?case by (simp add: random_loop.simps Let_def)
next
  case (Suc j)
  from Suc.IH [of "k + 1"] Suc.prems show ?case
    by (subst random_loop.simps) (simp add: Let_def)
qed

lemma random_loop_first:
  "\<not> list_all (\<lambda>x. x = 0) (rng k n) \<Longrightarrow> random_loop rng k n = Some (rng k n)"
  by (subst random_loop.simps) simp

lemma random_loop_nonzero:
  "random_loop rng k n = Some b \<Longrightarrow> \<not> list_all (\<lambda>x. x = 0) b \<and> (\<exists>j. b = rng j n)"
proof (induction rule: random_loop.raw_induct [rotated 1, consumes 1])
  case (1 loop rng k n b)
  then show ?case by (auto simp: Let_def split: if_splits)
qed

section \<open>Runs of a cipher\<close>

text \<open>Encrypting buffers one after the other, each in the state the one before left.\<close>

fun encrypt_all :: "crypto_prims \<Rightarrow> Cipher \<Rightarrow> bytes list \<Rightarrow> (unit, bytes list) res" where
  "encrypt_all P ci [] = Ok []"
| "encrypt_all P ci (b # bs) =
     bind_res (Cipher_encrypt P ci b) (\<lambda>(ci', out).
     bind_res (encrypt_all P ci' bs) (\<lambda>outs. Ok (out # outs)))"

fun decrypt_all :: "crypto_prims \<Rightarrow> Cipher \<Rightarrow> bytes list \<Rightarrow> (unit, (bool \<times> bytes) list) res" where
  "decrypt_all P ci [] = Ok []"
| "decrypt_all P ci (b # bs) =
     bind_res (Cipher_decrypt P ci b) (\<lambda>(ci', ok, out).
     bind_res (decrypt_all P ci' bs) (\<lambda>outs. Ok ((ok, take (length out - tag_size) out) # outs)))"

text \<open>
  The little-endian encoding of a number in \<open>n\<close> bytes, and a buffer sealed under a given nonce by the
  AEAD of a variant: what \<^verbatim>\<open>seal\<close> makes of the plaintext, ciphertext then tag.
\<close>

fun le_bytes :: "nat \<Rightarrow> nat \<Rightarrow> bytes" where
  "le_bytes 0 k = []"
| "le_bytes (Suc n) k = of_nat k # le_bytes n (k div 256)"

definition sealed_under :: "crypto_prims \<Rightarrow> CipherVariant \<Rightarrow> bytes \<Rightarrow> bytes \<Rightarrow> bytes \<Rightarrow> bool" where
  "sealed_under P v n pt out \<longleftrightarrow>
     (\<exists>ct tag. seal P (variant_alg v) (variant_key v) n pt = Some (ct, tag) \<and> out = ct @ tag)"

lemma length_le_bytes [simp]: "length (le_bytes n k) = n"
  by (induction n arbitrary: k) simp_all

lemma le_val_le_bytes: "le_val (le_bytes n k) = k mod 256 ^ n"
proof (induction n arbitrary: k)
  case (Suc n)
  have "unat (of_nat k :: byte) = k mod 256" by (simp add: unat_of_nat)
  with Suc [of "k div 256"] show ?case by (simp add: mod_mult2_eq add.commute)
qed simp

lemma nonce_slice:
  assumes "cipher_wf ci"
  shows "take (nlen ci) (nonce ci) = le_bytes 12 (nonce_val ci)"
proof (rule le_val_inj)
  show "length (take (nlen ci) (nonce ci)) = length (le_bytes 12 (nonce_val ci))"
    using length_nonce_slice [OF assms] by simp
  have "nonce_val ci < 256 ^ 12"
    using le_val_less [of "take (nlen ci) (nonce ci)"] length_nonce_slice [OF assms] by (simp add: nonce_val_def)
  then show "le_val (take (nlen ci) (nonce ci)) = le_val (le_bytes 12 (nonce_val ci))"
    by (simp only: le_val_le_bytes nonce_val_def mod_less)
qed

lemma le_bytes_distinct: "n \<le> 2 ^ 96 \<Longrightarrow> distinct (map (le_bytes 12) [0..<n])"
proof -
  assume n: "n \<le> 2 ^ 96"
  have "inj_on (le_bytes 12) {0..<n}"
  proof (rule inj_onI)
    fix x y assume xy: "x \<in> {0..<n}" "y \<in> {0..<n}" "le_bytes 12 x = le_bytes 12 y"
    then have "x mod 256 ^ 12 = y mod 256 ^ 12" by (metis le_val_le_bytes)
    moreover have "x < 256 ^ 12" "y < 256 ^ 12" using xy n by auto
    ultimately show "x = y" by (simp only: mod_less)
  qed
  then show ?thesis by (simp add: distinct_map)
qed

lemma encrypt_all_sealed:
  assumes "aead_law P" and "cipher_wf ci" and "\<forall>p \<in> set pts. length p \<le> 2 ^ 36" and "length pad = tag_size"
    and "nonce_val ci = i" and "i + length pts \<le> 2 ^ 96"
  shows "\<exists>outs. encrypt_all P ci (map (\<lambda>p. p @ pad) pts) = Ok outs
    \<and> list_all2 (\<lambda>(j, p) out. sealed_under P (cipher ci) (le_bytes 12 j) p out) (enumerate i pts) outs"
  using assms(2,3,5,6)
proof (induction pts arbitrary: ci i)
  case (Cons p pts)
  have p: "length p \<le> 2 ^ 36" using Cons.prems by simp
  have under: "sealed_under P (cipher ci) (le_bytes 12 i) p (sealed P ci p)"
    using Cons.prems(3) nonce_slice [OF Cons.prems(1)]
    by (rule_tac sealed_cases [OF assms(1) Cons.prems(1) p]) (auto simp: sealed_under_def sealed_def)
  note stepped = increase_nonce_wf [OF Cons.prems(1)]
  have "\<exists>outs. encrypt_all P (increase_nonce ci) (map (\<lambda>p. p @ pad) pts) = Ok outs
    \<and> list_all2 (\<lambda>(j, p) out. sealed_under P (cipher ci) (le_bytes 12 j) p out) (enumerate (Suc i) pts) outs"
  proof (cases pts)
    case (Cons q qs)
    with Cons.prems have "i + 1 < 2 ^ 96" by simp
    with stepped(3) Cons.prems(3) have "nonce_val (increase_nonce ci) = Suc i" by simp
    from Cons.IH [OF stepped(1) _ this] Cons.prems(2,4) stepped(2) show ?thesis by simp
  qed simp
  then obtain outs where "encrypt_all P (increase_nonce ci) (map (\<lambda>p. p @ pad) pts) = Ok outs"
    "list_all2 (\<lambda>(j, p) out. sealed_under P (cipher ci) (le_bytes 12 j) p out) (enumerate (Suc i) pts) outs" by blast
  with under show ?case
    by (simp add: Cipher_encrypt_sealed [OF assms(1) Cons.prems(1) p assms(4)])
qed simp

lemma encrypt_decrypt_all:
  assumes "aead_law P" and "cipher_wf ci" and "\<forall>p \<in> set pts. length p \<le> 2 ^ 36" and "length pad = tag_size"
  shows "\<exists>outs. encrypt_all P ci (map (\<lambda>p. p @ pad) pts) = Ok outs
    \<and> decrypt_all P ci outs = Ok (map (Pair True) pts)"
  using assms(2,3)
proof (induction pts arbitrary: ci)
  case (Cons p pts)
  have p: "length p \<le> 2 ^ 36" using Cons.prems by simp
  from Cons.IH [of "increase_nonce ci"] Cons.prems increase_nonce_wf [OF Cons.prems(1)]
  obtain outs where "encrypt_all P (increase_nonce ci) (map (\<lambda>p. p @ pad) pts) = Ok outs"
    "decrypt_all P (increase_nonce ci) outs = Ok (map (Pair True) pts)" by auto
  then show ?case
    by (simp add: Cipher_encrypt_sealed [OF assms(1) Cons.prems(1) p assms(4)]
        Cipher_decrypt_sealed [OF assms(1) Cons.prems(1) p] length_sealed [OF assms(1) Cons.prems(1) p])
qed simp

section \<open>Properties\<close>

text \<open>
  C10: a cipher never uses a nonce twice.  After \<^verbatim>\<open>Cipher::new\<close>, up to \<open>2 ^ 96\<close> plaintexts are encrypted
  one after the other, and the \<open>i\<close>-th output is what the AEAD's \<^verbatim>\<open>seal\<close> gives for the \<open>i\<close>-th plaintext
  under the nonce that is the little-endian encoding of \<open>i\<close>; these nonces are pairwise different.
\<close>

theorem cipher_nonces_distinct:
  assumes "aead_laws P" and "Cipher_new P k key salt = Ok ci" and "\<forall>p \<in> set pts. length p \<le> 2 ^ 36"
    and "length pad = tag_size" and "length pts \<le> 2 ^ 96"
  shows "(\<exists>outs. encrypt_all P ci (map (\<lambda>p. p @ pad) pts) = Ok outs
      \<and> list_all2 (\<lambda>(i, p) out. sealed_under P (cipher ci) (le_bytes 12 i) p out) (enumerate 0 pts) outs)
    \<and> distinct (map (le_bytes 12) [0..<length pts])"
proof -
  have laws: "hkdf_law P" "aead_law P" using assms(1) by (simp_all add: aead_laws_def)
  have "cipher_wf ci \<and> nonce_val ci = 0"
    by (rule Cipher_new_wf [OF assms(2) hkdf_law_length [OF laws(1)]])
  then show ?thesis
    using encrypt_all_sealed [OF laws(2) _ assms(3,4)] le_bytes_distinct [OF assms(5)] assms(5) by simp
qed

text \<open>An instance whose ciphertexts and tags show the nonce they were made with.\<close>

definition xor_prims :: crypto_prims where
  "xor_prims = \<lparr>hkdf_sha1 = (\<lambda>salt ikm info n. if n \<le> 255 * 20 then Some (replicate n 0) else None),
     seal = (\<lambda>alg key n pt. Some (map (xor (hd n)) pt, replicate 16 (hd n))),
     aopen = (\<lambda>alg key n ct tag. (tag = replicate 16 (hd n), map (xor (hd n)) ct))\<rparr>"

lemma xor_prims_laws: "aead_laws xor_prims"
proof -
  have "map (xor n \<circ> xor n) bs = bs" for n :: byte and bs
    by (rule map_idI) (simp add: xor.assoc [symmetric])
  then show ?thesis
    by (simp add: aead_laws_def hkdf_law_def aead_law_def xor_prims_def tag_size_def)
qed

lemma xor_cipher:
  "Cipher_new xor_prims AES_128_GCM (replicate 16 0) [] = Ok
    \<lparr>cipher = Variant_Aes128Gcm (replicate 16 0), nlen = 12, nonce = replicate 24 0\<rparr>"
  by (simp add: Cipher_new_def xor_prims_def MAX_KEY_LEN_def Aes128Gcm_new_def aead_new_def from_slice_def N_MAX_def)

theorem cipher_nonces_distinct_witness:
  "encrypt_all xor_prims \<lparr>cipher = Variant_Aes128Gcm (replicate 16 0), nlen = 12, nonce = replicate 24 0\<rparr>
     [[7, 7] @ replicate 16 0, [7] @ replicate 16 0] = Ok [[7, 7] @ replicate 16 0, [6] @ replicate 16 1]"
proof -
  let ?ci = "\<lparr>cipher = Variant_Aes128Gcm (replicate 16 0), nlen = 12, nonce = replicate 24 0\<rparr>"
  have "(\<exists>outs. encrypt_all xor_prims ?ci (map (\<lambda>p. p @ replicate 16 0) [[7, 7], [7]]) = Ok outs
      \<and> list_all2 (\<lambda>(i, p) out. sealed_under xor_prims (cipher ?ci) (le_bytes 12 i) p out)
          (enumerate 0 [[7, 7], [7]]) outs)
    \<and> distinct (map (le_bytes 12) [0..<length [[7, 7], [7 :: byte]]])"
    by (rule cipher_nonces_distinct [OF xor_prims_laws xor_cipher]) (simp_all add: tag_size_def)
  moreover have "hd (le_bytes 12 i) = of_nat i" for i using le_bytes.simps(2) [of 11] by simp
  ultimately show ?thesis
    by (auto simp: sealed_under_def xor_prims_def list_all2_Cons1)
qed

text \<open>
  Two ciphers made from the same key and salt form a channel: any sequence of buffers
  encrypted on one side (plaintext followed by room for the tag) is accepted on the other side in
  the same order and gives the plaintexts back.
\<close>

lemma cipher_channel:
  assumes "aead_laws P" and "Cipher_new P k key salt = Ok ci" and "\<forall>p \<in> set pts. length p \<le> 2 ^ 36"
    and "length pad = tag_size"
  shows "\<exists>outs. encrypt_all P ci (map (\<lambda>p. p @ pad) pts) = Ok outs
    \<and> decrypt_all P ci outs = Ok (map (Pair True) pts)"
proof -
  have laws: "hkdf_law P" "aead_law P" using assms(1) by (simp_all add: aead_laws_def)
  have "cipher_wf ci"
    by (rule Cipher_new_wf [OF assms(2) hkdf_law_length [OF laws(1)], THEN conjunct1])
  then show ?thesis
    by (rule encrypt_decrypt_all [OF laws(2) _ assms(3,4)])
qed

text \<open>
  The text of a cipher kind parses back to it, the two AEAD kinds have the key, salt and tag
  lengths of their algorithms, and for every AEAD-2022 kind each of these lengths, and with them the
  construction of a cipher, panics.
\<close>

lemma cipher_kinds:
  "CipherKind_from_str (CipherKind_fmt k) = Ok k
   \<and> (key_len k = (Panic :: ('e, nat) res) \<longleftrightarrow> is_aead2022 k)
   \<and> (tag_len k = (Panic :: ('e, nat) res) \<longleftrightarrow> is_aead2022 k)
   \<and> (salt_len k = (Panic :: ('e, nat) res) \<longleftrightarrow> category k = Aead2022)
   \<and> is_aead k = (\<not> is_aead2022 k)
   \<and> (is_aead2022 k \<longrightarrow> Cipher_new P k key salt = (Panic :: ('e, Cipher) res))"
  by (cases k) (simp_all add: CipherKind_from_str_def is_aead2022_def is_aead_def salt_len_def Cipher_new_def
      split: option.splits)

text \<open>
  A generated salt is never all zeros, and the loop that draws it ends as soon as the
  generator delivers a fill with a nonzero byte.
\<close>

lemma generate_nonce_nonzero:
  assumes "b \<noteq> []" and "\<And>j. length (rng j (length b)) = length b"
  shows "(generate_nonce rng k kind b = Some salt \<longrightarrow>
      length salt = length b \<and> \<not> list_all (\<lambda>x. x = 0) salt)
    \<and> ((\<exists>j \<ge> k. \<not> list_all (\<lambda>x. x = 0) (rng j (length b))) \<longrightarrow> (\<exists>salt. generate_nonce rng k kind b = Some salt))"
proof (intro conjI impI)
  assume "generate_nonce rng k kind b = Some salt"
  then have "random_loop rng k (length b) = Some salt"
    using assms(1) by (simp add: generate_nonce_def random_iv_or_salt_def)
  then show "length salt = length b" "\<not> list_all (\<lambda>x. x = 0) salt"
    using random_loop_nonzero [of rng k "length b" salt] assms(2) by auto
next
  assume "\<exists>j \<ge> k. \<not> list_all (\<lambda>x. x = 0) (rng j (length b))"
  then obtain j where "\<not> list_all (\<lambda>x. x = 0) (rng (k + j) (length b))"
    by (auto simp: le_iff_add)
  then show "\<exists>salt. generate_nonce rng k kind b = Some salt"
    using random_loop_Some assms(1) by (simp add: generate_nonce_def random_iv_or_salt_def)
qed

end
