(* ===== verification/UdpAead.thy ===== *)
theory UdpAead
  imports Address Crypto
begin

text \<open>
  \<^verbatim>\<open>lib/shadowsocks/src/udp/aead.rs\<close>: one UDP packet, a salt followed by the sealed target
  address and payload.  The round trip uses the address codec through the cursor instance of
  \<open>byte_reader\<close> and the cipher through \<open>sealed\<close>.
\<close>

section \<open>Model\<close>

datatype UdpAeadError = PacketTooShortForSalt nat nat | PacketTooShortForTag nat nat
  | InvalidAddress Socks5Error | DecryptPayloadError

definition UdpAeadError_fmt :: "UdpAeadError \<Rightarrow> string" where
  "UdpAeadError_fmt e = (case e of
     PacketTooShortForSalt a b \<Rightarrow> ''packet too short for salt, at least '' @ show_nat a @ '' bytes, but only '' @ show_nat b @ '' bytes''
   | PacketTooShortForTag a b \<Rightarrow> ''packet too short for tag, at least '' @ show_nat a @ '' bytes, but only '' @ show_nat b @ '' bytes''
   | InvalidAddress e \<Rightarrow> ''invalid address in packet, '' @ Socks5Error_fmt e
   | DecryptPayloadError \<Rightarrow> ''decrypt payload failed'')"

text \<open>
  The result is \<^const>\<open>None\<close> when the salt generator does not return.  The bytes that
  \<^verbatim>\<open>advance_mut\<close> exposes for the tag are overwritten by the encryption; they are zeros here.
\<close>

definition encrypt_payload_aead ::
  "crypto_prims \<Rightarrow> (nat \<Rightarrow> nat \<Rightarrow> bytes) \<Rightarrow> nat \<Rightarrow> CipherKind \<Rightarrow> bytes \<Rightarrow> Address \<Rightarrow> bytes \<Rightarrow> bytes
    \<Rightarrow> (unit, bytes) res option" where
  "encrypt_payload_aead P rng k method key addr payload dst =
     (case salt_len method of
        Ok n \<Rightarrow>
          (let dst = resize n dst in
           case (if n > 0 then generate_nonce rng k method dst else Some dst) of
             None \<Rightarrow> None
           | Some salt \<Rightarrow> Some (
               bind_res (Cipher_new P method key salt) (\<lambda>ci.
               bind_res (write_to_buf addr salt) (\<lambda>dst.
               bind_res (tag_len method) (\<lambda>tn.
               let dst = dst @ payload @ replicate tn 0 in
               bind_res (Cipher_encrypt P ci (drop n dst)) (\<lambda>(_, m).
                 Ok (take n dst @ m)))))))
      | Err e \<Rightarrow> Some (Err e)
      | Panic \<Rightarrow> Some Panic)"

definition parse_packet :: "bytes \<Rightarrow> (UdpAeadError, nat \<times> Address) res" where
  "parse_packet buf = (case read_from cursor_read_exact buf of
     Ok (address, rest) \<Rightarrow> Ok (length buf - length rest, address)
   | Err err \<Rightarrow> Err (InvalidAddress err)
   | Panic \<Rightarrow> Panic)"

text \<open>\<^verbatim>\<open>payload.copy_within(a..b, 0)\<close>; a range outside the slice panics.\<close>

definition copy_within :: "nat \<Rightarrow> nat \<Rightarrow> bytes \<Rightarrow> ('e, bytes) res" where
  "copy_within a b p =
     (if a \<le> b \<and> b \<le> length p then Ok (take (b - a) (drop a p) @ drop (b - a) p) else Panic)"

text \<open>The length and the address, with the packet buffer afterwards.\<close>

definition decrypt_payload_aead ::
  "crypto_prims \<Rightarrow> CipherKind \<Rightarrow> bytes \<Rightarrow> bytes \<Rightarrow> (UdpAeadError, (nat \<times> Address) \<times> bytes) res" where
  "decrypt_payload_aead P k key payload =
     bind_res (salt_len k) (\<lambda>salt_len.
     if length payload < salt_len then Err (PacketTooShortForSalt salt_len (length payload))
     else let salt = take salt_len payload; data = drop salt_len payload in
     bind_res (Cipher_new P k key salt) (\<lambda>cipher.
     bind_res (Cipher_tag_len cipher) (\<lambda>tag_len.
     if length data < tag_len then Err (PacketTooShortForTag tag_len (length data))
     else bind_res (Cipher_decrypt P cipher data) (\<lambda>(_, ok, data).
     if \<not> ok then Err DecryptPayloadError
     else let data_len = length data - tag_len in
     bind_res (parse_packet (take data_len data)) (\<lambda>(dn, addr).
     let data_length = data_len - dn;
         data_start_idx = salt_len + dn;
         data_end_idx = data_start_idx + data_length in
     bind_res (copy_within data_start_idx data_end_idx (salt @ data)) (\<lambda>payload.
       Ok ((data_length, addr), payload)))))))"

section \<open>Round trip\<close>

lemma parse_packet_encoded:
  assumes "addr_wf a"
  shows "parse_packet (addr_bytes a @ rest) = Ok (serialized_len a, addr_norm a)"
  using cursor.read_from_encoded [OF assms, of "addr_bytes a @ rest" rest]
  by (simp add: parse_packet_def length_addr_bytes)

lemma parse_packet_pos: "parse_packet buf = Ok (dn, a) \<Longrightarrow> dn \<le> length buf"
  by (auto simp: parse_packet_def split: res.splits prod.splits)

lemma parse_packet_no_panic: "parse_packet buf \<noteq> Panic"
proof -
  have "read_from cursor_read_exact buf \<noteq> Panic"
    by (auto simp: read_from_def cursor_read_exact_def res_simps Let_def split: if_splits option.splits)
  then show ?thesis by (auto simp: parse_packet_def split: res.splits)
qed

lemma encrypt_payload_aead_eq:
  assumes "aead_laws P" and "is_aead k" and "length key = kind_key_size k" and "addr_wf a"
    and "length payload \<le> 65536"
    and "generate_nonce rng j k (resize (kind_key_size k) dst) = Some salt" and "length salt = kind_key_size k"
  shows "encrypt_payload_aead P rng j k key a payload dst
    = Some (Ok (salt @ sealed P (fresh_cipher P k key salt) (addr_bytes a @ payload)))"
proof -
  have laws: "hkdf_law P" "aead_law P" using assms(1) by (simp_all add: aead_laws_def)
  have pos: "0 < kind_key_size k" by (cases k) auto
  have "serialized_len a \<le> 2 ^ 16" using assms(4)
    by (cases a rule: addr_bytes.cases) (simp_all add: serialized_len_def)
  then have "length (addr_bytes a @ payload) \<le> 2 ^ 36" using assms(5) by (simp add: length_addr_bytes)
  note enc = Cipher_encrypt_sealed [OF laws(2) Cipher_new_fresh(2) [OF laws(1) assms(2,3)] this,
      of "replicate tag_size 0", unfolded append_assoc]
  show ?thesis
    using assms(6,7) pos
    by (simp add: enc encrypt_payload_aead_def aead_lens [OF assms(2)] Cipher_new_fresh(1) [OF laws(1) assms(2,3)]
        write_to_buf_addr_bytes [OF assms(4)] Let_def)
qed

lemma decrypt_sealed_packet:
  assumes "aead_laws P" and "is_aead k" and "length key = kind_key_size k" and "addr_wf a"
    and "length payload \<le> 65536" and "length salt = kind_key_size k"
  shows "\<exists>p. decrypt_payload_aead P k key (salt @ sealed P (fresh_cipher P k key salt) (addr_bytes a @ payload))
      = Ok ((length payload, addr_norm a), p) \<and> take (length payload) p = payload"
proof -
  let ?ci = "fresh_cipher P k key salt" and ?m = "addr_bytes a @ payload"
  have laws: "hkdf_law P" "aead_law P" using assms(1) by (simp_all add: aead_laws_def)
  have "serialized_len a \<le> 2 ^ 16" using assms(4)
    by (cases a rule: addr_bytes.cases) (simp_all add: serialized_len_def)
  then have m: "length ?m \<le> 2 ^ 36" using assms(5) by (simp add: length_addr_bytes)
  note wf = Cipher_new_fresh(2) [OF laws(1) assms(2,3)]
  note len = length_sealed [OF laws(2) wf m]
  have parse: "parse_packet ?m = Ok (length (addr_bytes a), addr_norm a)"
    using parse_packet_encoded [OF assms(4)] by (simp add: length_addr_bytes)
  show ?thesis
    using assms(6) len parse
    by (simp add: Cipher_decrypt_sealed [OF laws(2) wf m] decrypt_payload_aead_def aead_lens [OF assms(2)] Cipher_new_fresh [OF laws(1) assms(2,3)]
        Cipher_tag_len_def Let_def copy_within_def)
qed

lemma decrypt_long_enough:
  assumes "aead_laws P" and "is_aead k" and "length key = kind_key_size k"
    and "kind_key_size k + tag_size \<le> length payload"
  shows "decrypt_payload_aead P k key payload \<noteq> Panic"
    and "decrypt_payload_aead P k key payload = Ok ((n, a), p) \<Longrightarrow>
      n + kind_key_size k + tag_size \<le> length payload \<and> length p = length payload"
proof -
  let ?salt = "take (kind_key_size k) payload" and ?data = "drop (kind_key_size k) payload"
  have laws: "hkdf_law P" "aead_law P" using assms(1) by (simp_all add: aead_laws_def)
  note fresh = Cipher_new_fresh [OF laws(1) assms(2,3)]
  have tag: "tag_size \<le> length ?data" using assms(4) by simp
  obtain ok out where len: "length out = length ?data"
    and dec: "Cipher_decrypt P (fresh_cipher P k key ?salt) ?data
      = (Ok (increase_nonce (fresh_cipher P k key ?salt), ok, out) :: (UdpAeadError, _) res)"
    using Cipher_decrypt_total [OF laws(2) fresh(2) tag, where 'a = UdpAeadError] by blast
  have eq: "decrypt_payload_aead P k key payload =
    (if \<not> ok then Err DecryptPayloadError
     else bind_res (parse_packet (take (length out - tag_size) out)) (\<lambda>(dn, addr).
       bind_res (copy_within (kind_key_size k + dn) (kind_key_size k + dn + (length out - tag_size - dn)) (?salt @ out))
         (\<lambda>payload. Ok ((length out - tag_size - dn, addr), payload))))"
    using assms(4) tag
    by (simp add: decrypt_payload_aead_def aead_lens [OF assms(2)] fresh Cipher_tag_len_def Let_def dec)
  show "decrypt_payload_aead P k key payload \<noteq> Panic"
  proof (cases "parse_packet (take (length out - tag_size) out)")
    case (Ok x)
    obtain dn b where x: "x = (dn, b)" by (cases x)
    with parse_packet_pos [of "take (length out - tag_size) out"] Ok have "dn \<le> length out - tag_size" by simp
    with Ok x assms(4) len show ?thesis by (simp add: eq copy_within_def)
  qed (simp_all add: eq parse_packet_no_panic)
  assume "decrypt_payload_aead P k key payload = Ok ((n, a), p)"
  then show "n + kind_key_size k + tag_size \<le> length payload \<and> length p = length payload"
    using assms(4) len by (auto simp: eq res_simps copy_within_def split: if_splits)
qed

lemma length_sealed_packet:
  assumes "aead_laws P" and "is_aead k" and "length key = kind_key_size k" and "addr_wf a"
    and "length payload \<le> 65536" and "length salt = kind_key_size k"
  shows "length (salt @ sealed P (fresh_cipher P k key salt) (addr_bytes a @ payload))
    = kind_key_size k + serialized_len a + length payload + tag_size"
proof -
  have "serialized_len a \<le> 2 ^ 16" using assms(4)
    by (cases a rule: addr_bytes.cases) (simp_all add: serialized_len_def)
  then have "length (addr_bytes a @ payload) \<le> 2 ^ 36" using assms(5) by (simp add: length_addr_bytes)
  with assms show ?thesis by (simp add: length_sealed Cipher_new_fresh(2) aead_laws_def length_addr_bytes)
qed

section \<open>Properties\<close>

text \<open>
  C21: no received packet makes the decryption panic: a packet too short for the salt or the tag
  is refused with the matching error, and otherwise a successful result names a payload inside the
  packet and keeps the length of the buffer.
\<close>

theorem udp_decrypt_total:
  assumes "aead_laws P" and "is_aead k" and "length key = kind_key_size k"
  shows "decrypt_payload_aead P k key payload \<noteq> Panic
    \<and> (length payload < kind_key_size k \<longrightarrow>
        decrypt_payload_aead P k key payload = Err (PacketTooShortForSalt (kind_key_size k) (length payload)))
    \<and> (kind_key_size k \<le> length payload \<and> length payload < kind_key_size k + tag_size \<longrightarrow>
        decrypt_payload_aead P k key payload
          = Err (PacketTooShortForTag tag_size (length payload - kind_key_size k)))
    \<and> (decrypt_payload_aead P k key payload = Ok ((n, a), p) \<longrightarrow>
        n + kind_key_size k + tag_size \<le> length payload \<and> length p = length payload)"
proof -
  have hk: "hkdf_law P" using assms(1) by (simp add: aead_laws_def)
  have short: "length payload < kind_key_size k \<Longrightarrow>
      decrypt_payload_aead P k key payload = Err (PacketTooShortForSalt (kind_key_size k) (length payload))"
    by (simp add: decrypt_payload_aead_def aead_lens [OF assms(2)])
  have mid: "kind_key_size k \<le> length payload \<Longrightarrow> length payload < kind_key_size k + tag_size \<Longrightarrow>
      decrypt_payload_aead P k key payload = Err (PacketTooShortForTag tag_size (length payload - kind_key_size k))"
    by (auto simp: decrypt_payload_aead_def aead_lens [OF assms(2)] Cipher_new_fresh [OF hk assms(2,3)]
        Cipher_tag_len_def Let_def)
  consider "length payload < kind_key_size k" | "kind_key_size k \<le> length payload" "length payload < kind_key_size k + tag_size"
    | "kind_key_size k + tag_size \<le> length payload" by linarith
  then show ?thesis
  proof cases
    case 1
    then show ?thesis by (simp add: short)
  next
    case 2
    then show ?thesis by (simp add: mid)
  next
    case 3
    from decrypt_long_enough [OF assms this] 3 show ?thesis by simp
  qed
qed

theorem udp_decrypt_total_witness:
  "decrypt_payload_aead null_prims AES_128_GCM (replicate 16 1) (replicate 20 9) = Err (PacketTooShortForTag 16 4)"
  using udp_decrypt_total [OF null_prims_laws, of AES_128_GCM "replicate 16 1" "replicate 20 9"]
  by (simp add: is_aead_def tag_size_def)

end
