(* ===== verification/TcpAead.thy ===== *)
theory TcpAead
  imports Crypto
begin

text \<open>
  \<^verbatim>\<open>lib/shadowsocks/src/tcp/aead.rs\<close>: the reader that decrypts and the writer that encrypts
  a shadowsocks TCP stream, as the poll-driven state machines of the source.  The network is the
  sequence of what the successive polls of the socket answer: a socket that is read is a list of
  events, a socket that is written is a list of grants together with the bytes it has taken.
\<close>

section \<open>Sockets\<close>

datatype ('e, 'a) poll = Pending | Ready "('e, 'a) res"

text \<open>
  One answer of \<^verbatim>\<open>poll_read\<close>: not yet, some bytes (what does not fit the caller's buffer
  stays), or an error.  After the last event the peer has closed: zero bytes are read.
\<close>

datatype read_event = RPending | RData bytes | RError io_error

fun poll_read :: "nat \<Rightarrow> read_event list \<Rightarrow> (io_error, bytes) poll \<times> read_event list" where
  "poll_read cap [] = (Ready (Ok []), [])"
| "poll_read cap (RPending # es) = (Pending, es)"
| "poll_read cap (RError e # es) = (Ready (Err e), es)"
| "poll_read cap (RData bs # es) =
     (Ready (Ok (take cap bs)), if length bs > cap then RData (drop cap bs) # es else es)"

text \<open>One answer of \<^verbatim>\<open>poll_write\<close>; after the last grant everything is taken.\<close>

datatype write_event = WPending | WAccept nat | WError io_error

record wsocket =
  grants :: "write_event list"
  sent :: bytes

definition poll_write :: "bytes \<Rightarrow> wsocket \<Rightarrow> (io_error, nat) poll \<times> wsocket" where
  "poll_write b s = (case grants s of
     [] \<Rightarrow> (Ready (Ok (length b)), s\<lparr>sent := sent s @ b\<rparr>)
   | WPending # g \<Rightarrow> (Pending, s\<lparr>grants := g\<rparr>)
   | WError e # g \<Rightarrow> (Ready (Err e), s\<lparr>grants := g\<rparr>)
   | WAccept n # g \<Rightarrow> (Ready (Ok (min n (length b))), s\<lparr>grants := g, sent := sent s @ take n b\<rparr>))"

section \<open>The reader\<close>

definition MAX_PACKET_SIZE :: nat where "MAX_PACKET_SIZE = 0x3FFF"

datatype TcpAeadError = TcpAead_IoError io_error | HeaderTooShort nat nat | DecryptDataError
  | DecryptLengthError | DataTooLong nat

fun TcpAeadError_fmt :: "TcpAeadError \<Rightarrow> string" where
  "TcpAeadError_fmt (TcpAead_IoError e) = err_msg e"
| "TcpAeadError_fmt (HeaderTooShort a b) =
     ''header too short, expecting '' @ show_nat a @ '' bytes, but found '' @ show_nat b @ '' bytes''"
| "TcpAeadError_fmt DecryptDataError = ''decrypt data failed''"
| "TcpAeadError_fmt DecryptLengthError = ''decrypt length failed''"
| "TcpAeadError_fmt (DataTooLong n) = ''buffer size too large (0x'' @ show_hex n @
     ''), AEAD encryption protocol requires buffer to be smaller than 0x3FFF, the higher two bits must be set to zero''"

fun TcpAeadError_into_io :: "TcpAeadError \<Rightarrow> io_error" where
  "TcpAeadError_into_io (TcpAead_IoError e) = e"
| "TcpAeadError_into_io e = IoError Other (TcpAeadError_fmt e)"

datatype DecryptReadState = WaitSalt bytes | ReadLength | ReadData nat | BufferedData nat

text \<open>
  The buffer is a \<^verbatim>\<open>BytesMut\<close>: its bytes, and the capacity \<open>r_cap\<close> that \<^verbatim>\<open>with_capacity\<close> and the calls of
  \<^verbatim>\<open>reserve\<close> so far guarantee.  More than that may be allocated, but the reader cannot count on it.
\<close>

record DecryptedReader =
  r_state :: DecryptReadState
  r_kind :: CipherKind
  r_cipher :: "Cipher option"
  r_buffer :: bytes
  r_cap :: nat
  r_salt :: "bytes option"
  r_handshaked :: bool

definition unexpected_eof :: io_error where
  "unexpected_eof = IoError UnexpectedEof ''unexpected end of file''"

definition DecryptedReader_new :: "CipherKind \<Rightarrow> bytes \<Rightarrow> ('e, DecryptedReader) res" where
  "DecryptedReader_new k key =
     bind_res (salt_len k) (\<lambda>n.
     Ok \<lparr>r_state = WaitSalt key, r_kind = k, r_cipher = None, r_buffer = [], r_cap = n, r_salt = None,
         r_handshaked = False\<rparr>)"

text \<open>
  \<^verbatim>\<open>pool_read_exact\<close>: fill the buffer up to \<open>size\<close> bytes.  Each round adds at least one byte,
  so the loop ends.
\<close>

function read_exact_loop :: "nat \<Rightarrow> bytes \<Rightarrow> read_event list
    \<Rightarrow> (io_error, nat) poll \<times> bytes \<times> read_event list" where
  "read_exact_loop sz buf es =
     (if length buf < sz then
        (case poll_read (sz - length buf) es of
           (Pending, es') \<Rightarrow> (Pending, buf, es')
         | (Ready (Err e), es') \<Rightarrow> (Ready (Err e), buf, es')
         | (Ready Panic, es') \<Rightarrow> (Ready Panic, buf, es')
         | (Ready (Ok bs), es') \<Rightarrow>
             if bs = [] then
               (if buf \<noteq> [] then (Ready (Err unexpected_eof), buf, es') else (Ready (Ok 0), buf, es'))
             else read_exact_loop sz (buf @ bs) es')
      else (Ready (Ok sz), buf, es))"
  by pat_completeness auto
termination
  by (relation "measure (\<lambda>(sz, buf, es). sz - length buf)") (auto simp: neq_Nil_conv)

declare read_exact_loop.simps [simp del]

text \<open>
  The slice \<^verbatim>\<open>chunk_mut()[..remaining]\<close> of the spare capacity panics when it is shorter than what
  remains to be read.  The capacity does not change in the loop and what is read never exceeds it,
  so the first round decides for all of them.
\<close>

definition pool_read_exact :: "nat \<Rightarrow> DecryptedReader \<Rightarrow> read_event list
    \<Rightarrow> (io_error, nat) poll \<times> DecryptedReader \<times> read_event list" where
  "pool_read_exact sz r es =
     (if sz = 0 then (Ready Panic, r, es)
      else if length (r_buffer r) < sz \<and> r_cap r - length (r_buffer r) < sz - length (r_buffer r) then (Ready Panic, r, es)
      else case read_exact_loop sz (r_buffer r) es of (p, buf, es') \<Rightarrow> (p, r\<lparr>r_buffer := buf\<rparr>, es'))"

text \<open>Continue with the value of a poll that is ready; \<^verbatim>\<open>ready!(..)?\<close> passes the rest on.\<close>

fun and_then :: "('e, 'a) poll \<times> 's \<times> 't \<Rightarrow> ('e \<Rightarrow> 'f) \<Rightarrow> ('a \<Rightarrow> 's \<Rightarrow> 't \<Rightarrow> ('f, 'b) poll \<times> 's \<times> 't)
    \<Rightarrow> ('f, 'b) poll \<times> 's \<times> 't" where
  "and_then (Pending, s, t) h f = (Pending, s, t)"
| "and_then (Ready (Err e), s, t) h f = (Ready (Err (h e)), s, t)"
| "and_then (Ready Panic, s, t) h f = (Ready Panic, s, t)"
| "and_then (Ready (Ok x), s, t) h f = f x s t"

definition poll_read_salt :: "crypto_prims \<Rightarrow> bytes \<Rightarrow> DecryptedReader \<Rightarrow> read_event list
    \<Rightarrow> (TcpAeadError, unit) poll \<times> DecryptedReader \<times> read_event list" where
  "poll_read_salt P key r es = (case salt_len (r_kind r) of
     Ok n \<Rightarrow>
       and_then (pool_read_exact n r es) TcpAead_IoError (\<lambda>m r es.
       if m < n then (Ready (Err (TcpAead_IoError unexpected_eof)), r, es)
       else let salt = take n (r_buffer r); r = r\<lparr>r_salt := Some salt\<rparr> in
         (case Cipher_new P (r_kind r) key salt of
            Ok c \<Rightarrow> (Ready (Ok ()), r\<lparr>r_cipher := Some c\<rparr>, es)
          | Err e \<Rightarrow> (Ready (Err e), r, es)
          | Panic \<Rightarrow> (Ready Panic, r, es)))
   | Err e \<Rightarrow> (Ready (Err e), r, es)
   | Panic \<Rightarrow> (Ready Panic, r, es))"

definition decrypt_length :: "crypto_prims \<Rightarrow> Cipher \<Rightarrow> bytes \<Rightarrow> Cipher option \<times> bytes \<times> (TcpAeadError, nat) res" where
  "decrypt_length P c m = (case Cipher_decrypt P c m of
     Ok (c', ok, m') \<Rightarrow> (Some c', m',
       if \<not> ok then Err DecryptLengthError
       else let plen = unat (of_be16 (m' ! 0) (m' ! 1)) in
         if plen > MAX_PACKET_SIZE then Err (DataTooLong plen) else Ok plen)
   | Err e \<Rightarrow> (Some c, m, Err e)
   | Panic \<Rightarrow> (Some c, m, Panic))"

definition poll_read_length :: "crypto_prims \<Rightarrow> DecryptedReader \<Rightarrow> read_event list
    \<Rightarrow> (TcpAeadError, nat option) poll \<times> DecryptedReader \<times> read_event list" where
  "poll_read_length P r es = (case tag_len (r_kind r) of
     Ok n \<Rightarrow>
       and_then (pool_read_exact (2 + n) r es) TcpAead_IoError (\<lambda>m r es.
       if m = 0 then (Ready (Ok None), r, es)
       else case r_cipher r of
         None \<Rightarrow> (Ready Panic, r, es)
       | Some c \<Rightarrow>
           (case decrypt_length P c (take (2 + n) (r_buffer r)) of (c', m', res) \<Rightarrow>
             (Ready (map_ok Some res), r\<lparr>r_cipher := c', r_buffer := m' @ drop (2 + n) (r_buffer r)\<rparr>, es)))
   | Err e \<Rightarrow> (Ready (Err e), r, es)
   | Panic \<Rightarrow> (Ready Panic, r, es))"

definition poll_read_data :: "crypto_prims \<Rightarrow> nat \<Rightarrow> DecryptedReader \<Rightarrow> read_event list
    \<Rightarrow> (TcpAeadError, unit) poll \<times> DecryptedReader \<times> read_event list" where
  "poll_read_data P sz r es = (case tag_len (r_kind r) of
     Ok n \<Rightarrow>
       and_then (pool_read_exact (sz + n) r es) TcpAead_IoError (\<lambda>m r es.
       if m = 0 then (Ready (Err (TcpAead_IoError unexpected_eof)), r, es)
       else case r_cipher r of
         None \<Rightarrow> (Ready Panic, r, es)
       | Some c \<Rightarrow>
           (case Cipher_decrypt P c (take (sz + n) (r_buffer r)) of
              Ok (c', ok, m') \<Rightarrow>
                if \<not> ok then (Ready (Err DecryptDataError),
                  r\<lparr>r_cipher := Some c', r_buffer := m' @ drop (sz + n) (r_buffer r)\<rparr>, es)
                else (Ready (Ok ()), r\<lparr>r_cipher := Some c', r_buffer := take sz (m' @ drop (sz + n) (r_buffer r))\<rparr>, es)
            | Err e \<Rightarrow> (Ready (Err e), r, es)
            | Panic \<Rightarrow> (Ready Panic, r, es)))
   | Err e \<Rightarrow> (Ready (Err e), r, es)
   | Panic \<Rightarrow> (Ready Panic, r, es))"

text \<open>
  The body of the loop of \<^verbatim>\<open>poll_read_decrypted\<close>: it returns (\<^const>\<open>Inl\<close>), with the bytes
  put into the caller's buffer of \<open>cap\<close> free bytes, or goes round again (\<^const>\<open>Inr\<close>).
\<close>

fun step_then :: "('e, 'a) poll \<times> 's \<times> 't \<Rightarrow> ('a \<Rightarrow> 's \<Rightarrow> 't \<Rightarrow> (('e, 'b) poll \<times> 's \<times> 't) + ('s \<times> 't))
    \<Rightarrow> (('e, 'b) poll \<times> 's \<times> 't) + ('s \<times> 't)" where
  "step_then (Pending, s, t) f = Inl (Pending, s, t)"
| "step_then (Ready (Err e), s, t) f = Inl (Ready (Err e), s, t)"
| "step_then (Ready Panic, s, t) f = Inl (Ready Panic, s, t)"
| "step_then (Ready (Ok x), s, t) f = f x s t"

text \<open>
  \<^verbatim>\<open>buffer.reserve(n + kind.tag_len())\<close> panics with \<^verbatim>\<open>tag_len\<close>, and makes room for that many bytes after
  those in the buffer; clearing or truncating the buffer keeps its capacity.
\<close>

definition reserve_tag :: "nat \<Rightarrow> DecryptedReader \<Rightarrow> read_event list
    \<Rightarrow> ((TcpAeadError, bytes) poll \<times> DecryptedReader \<times> read_event list) + (DecryptedReader \<times> read_event list)" where
  "reserve_tag n r es = (case tag_len (r_kind r) of
     Ok t \<Rightarrow> Inr (r\<lparr>r_cap := max (r_cap r) (length (r_buffer r) + (n + t))\<rparr>, es)
   | Err e \<Rightarrow> Inl (Ready (Err e), r, es)
   | Panic \<Rightarrow> Inl (Ready Panic, r, es))"

definition read_step :: "crypto_prims \<Rightarrow> nat \<Rightarrow> DecryptedReader \<Rightarrow> read_event list
    \<Rightarrow> ((TcpAeadError, bytes) poll \<times> DecryptedReader \<times> read_event list) + (DecryptedReader \<times> read_event list)" where
  "read_step P cap r es = (case r_state r of
     WaitSalt key \<Rightarrow>
       step_then (poll_read_salt P key r es) (\<lambda>_ r es.
         reserve_tag 2 (r\<lparr>r_buffer := [], r_state := ReadLength, r_handshaked := True\<rparr>) es)
   | ReadLength \<Rightarrow>
       step_then (poll_read_length P r es) (\<lambda>len r es. case len of
         None \<Rightarrow> Inl (Ready (Ok []), r, es)
       | Some n \<Rightarrow> reserve_tag n (r\<lparr>r_buffer := [], r_state := ReadData n\<rparr>) es)
   | ReadData n \<Rightarrow>
       step_then (poll_read_data P n r es) (\<lambda>_ r es. Inr (r\<lparr>r_state := BufferedData 0\<rparr>, es))
   | BufferedData pos \<Rightarrow>
       if pos < length (r_buffer r) then
         let buffered = drop pos (r_buffer r); consumed = min (length buffered) cap in
         Inl (Ready (Ok (take consumed buffered)), r\<lparr>r_state := BufferedData (pos + consumed)\<rparr>, es)
       else reserve_tag 2 (r\<lparr>r_buffer := [], r_state := ReadLength\<rparr>) es)"

text \<open>The loop ends: each turn through the three reading states takes bytes off the socket.\<close>

fun stream_data :: "read_event list \<Rightarrow> bytes" where
  "stream_data [] = []"
| "stream_data (RData bs # es) = bs @ stream_data es"
| "stream_data (_ # es) = stream_data es"

definition read_weight :: "DecryptedReader \<Rightarrow> read_event list \<Rightarrow> nat" where
  "read_weight r es = 8 * length (stream_data es) + (case r_state r of
     WaitSalt _ \<Rightarrow> 7
   | ReadLength \<Rightarrow> if r_buffer r = [] then 3 else 6
   | ReadData _ \<Rightarrow> 5
   | BufferedData _ \<Rightarrow> 4)"

lemma poll_read_data_le:
  "poll_read cap es = (p, es') \<Longrightarrow>
    (\<exists>bs. p = Ready (Ok bs) \<and> stream_data es = bs @ stream_data es')
    \<or> stream_data es = stream_data es' \<and> (\<forall>bs. p \<noteq> Ready (Ok bs))"
  by (cases "(cap, es)" rule: poll_read.cases) (auto split: if_splits)

lemma poll_read_length: "poll_read cap es = (Ready (Ok bs), es') \<Longrightarrow> length bs \<le> cap"
  by (cases "(cap, es)" rule: poll_read.cases) auto

lemma read_exact_loop_data:
  "read_exact_loop sz buf es = (p, buf', es') \<Longrightarrow> buf' @ stream_data es' = buf @ stream_data es"
proof (induction sz buf es rule: read_exact_loop.induct)
  case (1 sz buf es)
  show ?case
  proof (cases "length buf < sz")
    case True
    obtain q es1 where q: "poll_read (sz - length buf) es = (q, es1)" by fastforce
    from 1 True q poll_read_data_le [OF q] show ?thesis
      by (subst (asm) (2) read_exact_loop.simps) (auto split: poll.splits res.splits if_splits)
  qed (use 1 in \<open>simp add: read_exact_loop.simps\<close>)
qed

lemma read_exact_loop_Ok:
  "read_exact_loop sz buf es = (Ready (Ok n), buf', es') \<Longrightarrow>
    n = sz \<and> length buf' = max (length buf) sz \<or> n = 0 \<and> buf = [] \<and> buf' = []"
proof (induction sz buf es rule: read_exact_loop.induct)
  case (1 sz buf es)
  show ?case
  proof (cases "length buf < sz")
    case True
    obtain q es1 where q: "poll_read (sz - length buf) es = (q, es1)" by fastforce
    show ?thesis
    proof (cases "\<exists>bs. q = Ready (Ok bs) \<and> bs \<noteq> []")
      case nonempty: True
      then obtain bs where bs: "q = Ready (Ok bs)" "bs \<noteq> []" by blast
      then have "read_exact_loop sz (buf @ bs) es1 = (Ready (Ok n), buf', es')"
        using 1(2) True q by (subst (asm) read_exact_loop.simps) simp
      then have "n = sz \<and> length buf' = max (length (buf @ bs)) sz \<or> n = 0 \<and> buf @ bs = [] \<and> buf' = []"
        using 1(1) [OF True q [symmetric] bs(1) refl bs(2)] by simp
      with bs(2) True poll_read_length [of "sz - length buf" es bs es1] q bs(1) show ?thesis by auto
    next
      case False
      with 1(2) True q show ?thesis
        by (subst (asm) read_exact_loop.simps) (auto split: poll.splits res.splits if_splits)
    qed
  qed (use 1(2) in \<open>simp add: read_exact_loop.simps\<close>)
qed

lemma read_exact_loop_grows: "read_exact_loop sz buf es = (p, buf', es') \<Longrightarrow> length buf \<le> length buf'"
proof (induction sz buf es rule: read_exact_loop.induct)
  case (1 sz buf es)
  show ?case
  proof (cases "length buf < sz")
    case True
    obtain q es1 where q: "poll_read (sz - length buf) es = (q, es1)" by fastforce
    from 1 True q show ?thesis
      by (subst (asm) (2) read_exact_loop.simps) (fastforce split: poll.splits res.splits if_splits)
  qed (use 1 in \<open>simp add: read_exact_loop.simps\<close>)
qed

text \<open>With room for all it is asked for, the reading is just the loop.\<close>

lemma pool_read_exact_room:
  assumes "0 < sz" and "sz \<le> r_cap r"
  shows "pool_read_exact sz r es =
    (case read_exact_loop sz (r_buffer r) es of (p, buf, es') \<Rightarrow> (p, r\<lparr>r_buffer := buf\<rparr>, es'))"
proof -
  have "\<not> (length (r_buffer r) < sz \<and> r_cap r - length (r_buffer r) < sz - length (r_buffer r))"
    using assms(2) by arith
  with assms(1) show ?thesis by (simp only: pool_read_exact_def if_False) simp
qed

lemma pool_read_exact_shrinks:
  assumes "pool_read_exact sz r es = (p, r', es')"
  shows "length (stream_data es') \<le> length (stream_data es)"
    and "length (r_buffer r') + length (stream_data es') = length (r_buffer r) + length (stream_data es)"
    and "\<exists>b. r' = r\<lparr>r_buffer := b\<rparr>"
proof -
  have "p = Ready Panic \<and> r' = r \<and> es' = es
      \<or> (\<exists>b. read_exact_loop sz (r_buffer r) es = (p, b, es') \<and> r' = r\<lparr>r_buffer := b\<rparr>)"
    using assms by (auto simp: pool_read_exact_def split: if_splits prod.splits)
  then show sum: "length (r_buffer r') + length (stream_data es') = length (r_buffer r) + length (stream_data es)"
    by (auto dest!: read_exact_loop_data arg_cong [where f = length])
  show "\<exists>b. r' = r\<lparr>r_buffer := b\<rparr>" using assms
    by (cases r) (auto simp: pool_read_exact_def split: if_splits prod.splits)
  have "length (r_buffer r) \<le> length (r_buffer r')"
    using assms read_exact_loop_grows by (auto simp: pool_read_exact_def split: if_splits prod.splits)
  with sum show "length (stream_data es') \<le> length (stream_data es)" by simp
qed

lemma and_then_Ok:
  "and_then x h f = (Ready (Ok y), s', t') \<longleftrightarrow>
    (\<exists>v s t. x = (Ready (Ok v), s, t) \<and> f v s t = (Ready (Ok y), s', t'))"
  by (cases "(x, h, f)" rule: and_then.cases) auto

lemma step_then_Inr:
  "step_then x f = Inr z \<longleftrightarrow> (\<exists>v s t. x = (Ready (Ok v), s, t) \<and> f v s t = Inr z)"
  by (cases "(x, f)" rule: step_then.cases) auto

lemma reserve_tag_Inr: "reserve_tag n r es = Inr z \<Longrightarrow> \<exists>c. z = (r\<lparr>r_cap := c\<rparr>, es)"
  by (auto simp: reserve_tag_def split: res.splits)

lemma poll_read_salt_Ok:
  "poll_read_salt P key r es = (Ready (Ok u), r', es') \<Longrightarrow> length (stream_data es') \<le> length (stream_data es)"
  by (auto simp: poll_read_salt_def and_then_Ok Let_def split: res.splits if_splits
      dest!: pool_read_exact_shrinks(1))

lemma poll_read_data_Ok:
  "poll_read_data P n r es = (Ready (Ok u), r', es') \<Longrightarrow> length (stream_data es') \<le> length (stream_data es)"
  by (auto simp: poll_read_data_def and_then_Ok Let_def split: res.splits if_splits option.splits prod.splits
      dest!: pool_read_exact_shrinks(1))

lemma poll_read_length_Some:
  assumes "poll_read_length P r es = (Ready (Ok (Some n)), r', es')"
  shows "length (stream_data es') \<le> length (stream_data es)"
    and "r_buffer r = [] \<Longrightarrow> length (stream_data es') < length (stream_data es)"
proof -
  obtain m tn r1 where 1: "pool_read_exact (2 + tn) r es = (Ready (Ok m), r1, es')" "m \<noteq> 0"
    using assms by (auto simp: poll_read_length_def and_then_Ok split: res.splits if_splits option.splits prod.splits)
  show "length (stream_data es') \<le> length (stream_data es)"
    using pool_read_exact_shrinks(1) [OF 1(1)] .
  assume "r_buffer r = []"
  moreover from this 1 have "length (r_buffer r1) = 2 + tn"
    by (auto simp: pool_read_exact_def split: prod.splits if_splits dest!: read_exact_loop_Ok)
  ultimately show "length (stream_data es') < length (stream_data es)"
    using pool_read_exact_shrinks(2) [OF 1(1)] by simp
qed

lemma read_step_weight:
  assumes "read_step P cap r es = Inr (r', es')"
  shows "read_weight r' es' < read_weight r es"
proof (cases "r_state r")
  case (WaitSalt key)
  with assms obtain r1 es1 where "poll_read_salt P key r es = (Ready (Ok ()), r1, es1)"
    and "r_buffer r' = []" "r_state r' = ReadLength" and "es' = es1"
    by (auto simp: read_step_def step_then_Inr dest!: reserve_tag_Inr)
  with WaitSalt poll_read_salt_Ok show ?thesis by (fastforce simp: read_weight_def)
next
  case ReadLength
  with assms obtain n r1 es1 where l: "poll_read_length P r es = (Ready (Ok (Some n)), r1, es1)"
    and z: "reserve_tag n (r1\<lparr>r_buffer := [], r_state := ReadData n\<rparr>) es1 = Inr (r', es')"
    by (auto simp: read_step_def step_then_Inr split: option.splits)
  from reserve_tag_Inr [OF z] poll_read_length_Some [OF l] ReadLength show ?thesis
    by (auto simp: read_weight_def)
next
  case (ReadData n)
  with assms show ?thesis
    by (auto simp: read_step_def step_then_Inr read_weight_def dest!: poll_read_data_Ok)
next
  case (BufferedData pos)
  with assms show ?thesis
    by (auto simp: read_step_def Let_def read_weight_def split: if_splits dest!: reserve_tag_Inr)
qed

function poll_read_decrypted :: "crypto_prims \<Rightarrow> nat \<Rightarrow> DecryptedReader \<Rightarrow> read_event list
    \<Rightarrow> (TcpAeadError, bytes) poll \<times> DecryptedReader \<times> read_event list" where
  "poll_read_decrypted P cap r es = (case read_step P cap r es of
     Inl out \<Rightarrow> out
   | Inr (r', es') \<Rightarrow> poll_read_decrypted P cap r' es')"
  by pat_completeness auto
termination
  by (relation "measure (\<lambda>(P, cap, r, es). read_weight r es)") (auto dest: read_step_weight)

declare poll_read_decrypted.simps [simp del]

section \<open>The writer\<close>

datatype EncryptWriteState = AssemblePacket | Writing nat

record EncryptedWriter =
  w_cipher :: Cipher
  w_buffer :: bytes
  w_state :: EncryptWriteState
  w_salt :: bytes

definition EncryptedWriter_new :: "crypto_prims \<Rightarrow> CipherKind \<Rightarrow> bytes \<Rightarrow> bytes \<Rightarrow> ('e, EncryptedWriter) res" where
  "EncryptedWriter_new P k key salt =
     bind_res (Cipher_new P k key salt) (\<lambda>c.
     Ok \<lparr>w_cipher = c, w_buffer = salt, w_state = AssemblePacket, w_salt = salt\<rparr>)"

text \<open>
  The state \<^verbatim>\<open>AssemblePacket\<close>: the sealed length and the sealed data go to the end of the
  buffer.  The room for a tag is exposed uninitialised and overwritten; it is zeros here.
\<close>

definition assemble_packet :: "crypto_prims \<Rightarrow> EncryptedWriter \<Rightarrow> bytes \<Rightarrow> (io_error, EncryptedWriter) res" where
  "assemble_packet P w buf =
     bind_res (Cipher_tag_len (w_cipher w)) (\<lambda>n.
     bind_res (Cipher_encrypt P (w_cipher w) (be16 (of_nat (length buf)) @ replicate n 0)) (\<lambda>(c, m).
     let w = w\<lparr>w_cipher := c, w_buffer := w_buffer w @ m\<rparr> in
     bind_res (Cipher_encrypt P (w_cipher w) (buf @ replicate n 0)) (\<lambda>(c, m).
     Ok (w\<lparr>w_cipher := c, w_buffer := w_buffer w @ m, w_state := Writing 0\<rparr>))))"

text \<open>The state \<^verbatim>\<open>Writing\<close>: the inner loop; each round moves \<open>pos\<close> on.\<close>

function write_loop :: "bytes \<Rightarrow> nat \<Rightarrow> wsocket \<Rightarrow> (io_error, unit) poll \<times> nat \<times> wsocket" where
  "write_loop buf pos s =
     (if pos < length buf then
        (case poll_write (drop pos buf) s of
           (Pending, s') \<Rightarrow> (Pending, pos, s')
         | (Ready (Err e), s') \<Rightarrow> (Ready (Err e), pos, s')
         | (Ready Panic, s') \<Rightarrow> (Ready Panic, pos, s')
         | (Ready (Ok n), s') \<Rightarrow>
             if n = 0 then (Ready (Err unexpected_eof), pos, s') else write_loop buf (pos + n) s')
      else (Ready (Ok ()), pos, s))"
  by pat_completeness auto
termination
  by (relation "measure (\<lambda>(buf, pos, s). length buf - pos)") auto

declare write_loop.simps [simp del]

definition finish_write :: "EncryptedWriter \<Rightarrow> wsocket \<Rightarrow> bytes \<Rightarrow> nat
    \<Rightarrow> (io_error, nat) poll \<times> EncryptedWriter \<times> wsocket" where
  "finish_write w s buf pos = (case write_loop (w_buffer w) pos s of
     (Pending, pos', s') \<Rightarrow> (Pending, w\<lparr>w_state := Writing pos'\<rparr>, s')
   | (Ready (Err e), pos', s') \<Rightarrow> (Ready (Err e), w\<lparr>w_state := Writing pos'\<rparr>, s')
   | (Ready Panic, pos', s') \<Rightarrow> (Ready Panic, w\<lparr>w_state := Writing pos'\<rparr>, s')
   | (Ready (Ok _), pos', s') \<Rightarrow>
       (Ready (Ok (length buf)), w\<lparr>w_state := AssemblePacket, w_buffer := []\<rparr>, s'))"

definition poll_write_encrypted :: "crypto_prims \<Rightarrow> EncryptedWriter \<Rightarrow> wsocket \<Rightarrow> bytes
    \<Rightarrow> (io_error, nat) poll \<times> EncryptedWriter \<times> wsocket" where
  "poll_write_encrypted P w s buf =
     (let buf = (if length buf > MAX_PACKET_SIZE then take MAX_PACKET_SIZE buf else buf) in
      case w_state w of
        AssemblePacket \<Rightarrow> (case assemble_packet P w buf of
           Ok w' \<Rightarrow> finish_write w' s buf 0
         | Err e \<Rightarrow> (Ready (Err e), w, s)
         | Panic \<Rightarrow> (Ready Panic, w, s))
      | Writing pos \<Rightarrow> finish_write w s buf pos)"

section \<open>What goes over the wire\<close>

definition frame :: "crypto_prims \<Rightarrow> Cipher \<Rightarrow> bytes \<Rightarrow> bytes" where
  "frame P ci d = sealed P ci (be16 (of_nat (length d))) @ sealed P (increase_nonce ci) d"

fun frames :: "crypto_prims \<Rightarrow> Cipher \<Rightarrow> bytes list \<Rightarrow> bytes" where
  "frames P ci [] = []"
| "frames P ci (d # ds) = frame P ci d @ frames P (increase_nonce (increase_nonce ci)) ds"

text \<open>A caller that polls again until the write is done, and one that writes several buffers.\<close>

lemma poll_write_grants:
  "poll_write b s = (p, s') \<Longrightarrow> length (grants s') \<le> length (grants s) \<and> (p = Pending \<longrightarrow> length (grants s') < length (grants s))"
  by (auto simp: poll_write_def split: list.splits write_event.splits)

lemma write_loop_grants:
  "write_loop buf pos s = (p, pos', s') \<Longrightarrow>
    length (grants s') \<le> length (grants s) \<and> (p = Pending \<longrightarrow> length (grants s') < length (grants s))"
proof (induction buf pos s rule: write_loop.induct)
  case (1 buf pos s)
  show ?case
  proof (cases "pos < length buf")
    case True
    obtain q s1 where q: "poll_write (drop pos buf) s = (q, s1)" by fastforce
    from 1 True q poll_write_grants [OF q] show ?thesis
      by (subst (asm) (2) write_loop.simps) (fastforce split: poll.splits res.splits if_splits)
  qed (use 1(2) in \<open>auto simp: write_loop.simps\<close>)
qed

lemma poll_write_encrypted_grants:
  "poll_write_encrypted P w s buf = (Pending, w', s') \<Longrightarrow> length (grants s') < length (grants s)"
  by (auto simp: poll_write_encrypted_def finish_write_def Let_def
      split: EncryptWriteState.splits res.splits poll.splits prod.splits if_splits dest!: write_loop_grants)

function drive_write :: "crypto_prims \<Rightarrow> EncryptedWriter \<Rightarrow> wsocket \<Rightarrow> bytes
    \<Rightarrow> (io_error, nat) res \<times> EncryptedWriter \<times> wsocket" where
  "drive_write P w s buf = (case poll_write_encrypted P w s buf of
     (Pending, w', s') \<Rightarrow> drive_write P w' s' buf
   | (Ready r, w', s') \<Rightarrow> (r, w', s'))"
  by pat_completeness auto
termination
  by (relation "measure (\<lambda>(P, w, s, buf). length (grants s))") (auto dest: poll_write_encrypted_grants [OF sym])

declare drive_write.simps [simp del]

fun write_all :: "crypto_prims \<Rightarrow> EncryptedWriter \<Rightarrow> wsocket \<Rightarrow> bytes list
    \<Rightarrow> (io_error, EncryptedWriter \<times> wsocket) res" where
  "write_all P w s [] = Ok (w, s)"
| "write_all P w s (b # bs) = (case drive_write P w s b of
     (Ok _, w', s') \<Rightarrow> write_all P w' s' bs
   | (Err e, w', s') \<Rightarrow> Err e
   | (Panic, w', s') \<Rightarrow> Panic)"

end
