(* ===== verification/TcpStream.thy ===== *)
theory TcpStream
  imports TcpAead
begin

text \<open>
  The two halves of \<^verbatim>\<open>tcp/aead.rs\<close> put together: whatever the writer was given arrives at
  the reader, however the network splits, delays and merges the bytes in both directions.  The
  writer's effect on the socket is computed first, then an invariant relates each reader state to
  the plaintext that is still to be delivered.
\<close>

section \<open>The writer\<close>

fun good_grant :: "write_event \<Rightarrow> bool" where
  "good_grant WPending = True"
| "good_grant (WAccept n) = (n > 0)"
| "good_grant (WError _) = False"

definition good_grants :: "wsocket \<Rightarrow> bool" where
  "good_grants s \<longleftrightarrow> list_all good_grant (grants s)"

lemma poll_write_good:
  assumes "good_grants s" and "b \<noteq> []" and "poll_write b s = (p, s')"
  shows "good_grants s' \<and> (p = Pending \<and> sent s' = sent s
    \<or> (\<exists>n. p = Ready (Ok n) \<and> 0 < n \<and> n \<le> length b \<and> sent s' = sent s @ take n b))"
  using assms by (auto simp: poll_write_def good_grants_def min_def split: list.splits write_event.splits)

lemma write_loop_good:
  assumes "good_grants s" and "pos \<le> length buf" and "write_loop buf pos s = (p, pos', s')"
  shows "good_grants s' \<and> sent s' @ drop pos' buf = sent s @ drop pos buf \<and> pos' \<le> length buf
    \<and> (p = Pending \<or> p = Ready (Ok ()) \<and> pos' = length buf)"
  using assms
proof (induction buf pos s rule: write_loop.induct)
  case (1 buf pos s)
  show ?case
  proof (cases "pos < length buf")
    case True
    obtain q s1 where q: "poll_write (drop pos buf) s = (q, s1)" by fastforce
    have ne: "drop pos buf \<noteq> []" using True by simp
    from poll_write_good [OF 1(2) ne q] consider
      "q = Pending" "good_grants s1" "sent s1 = sent s"
      | n where "q = Ready (Ok n)" "0 < n" "n \<le> length buf - pos" "good_grants s1"
          "sent s1 = sent s @ take n (drop pos buf)" by auto
    then show ?thesis
    proof cases
      case 1
      with \<open>write_loop buf pos s = (p, pos', s')\<close> True q show ?thesis
        by (subst (asm) write_loop.simps) auto
    next
      case (2 n)
      with 1(4) True q have "write_loop buf (pos + n) s1 = (p, pos', s')"
        by (subst (asm) write_loop.simps) auto
      moreover have "sent s1 @ drop (pos + n) buf = sent s @ drop pos buf"
        using 2(5) append_take_drop_id [of n "drop pos buf"] by (simp add: add.commute)
      ultimately show ?thesis
        using 1(1) [OF True q [symmetric] 2(1)] 2 True by auto
    qed
  qed (use 1 in \<open>auto simp: write_loop.simps\<close>)
qed

lemma drive_writing:
  assumes "good_grants s" and "w_state w = Writing pos" and "pos \<le> length (w_buffer w)"
  shows "\<exists>s'. drive_write P w s buf
      = (Ok (min (length buf) MAX_PACKET_SIZE), w\<lparr>w_state := AssemblePacket, w_buffer := []\<rparr>, s')
    \<and> good_grants s' \<and> sent s' = sent s @ drop pos (w_buffer w)"
  using assms
proof (induction "length (grants s)" arbitrary: s w pos rule: less_induct)
  case less
  obtain p pos' s' where l: "write_loop (w_buffer w) pos s = (p, pos', s')" by (metis prod_cases3)
  note g = write_loop_good [OF less.prems(1,3) l]
  have pw: "poll_write_encrypted P w s buf = (case p of Pending \<Rightarrow> (Pending, w\<lparr>w_state := Writing pos'\<rparr>, s')
    | Ready _ \<Rightarrow> (Ready (Ok (min (length buf) MAX_PACKET_SIZE)), w\<lparr>w_state := AssemblePacket, w_buffer := []\<rparr>, s'))"
    using less.prems(2) l g by (auto simp: poll_write_encrypted_def finish_write_def Let_def min_def)
  show ?case
  proof (cases "p = Pending")
    case True
    with l have "length (grants s') < length (grants s)" using write_loop_grants by blast
    from less.hyps [OF this, of "w\<lparr>w_state := Writing pos'\<rparr>" pos'] g True pw show ?thesis
      by (subst drive_write.simps) auto
  next
    case False
    with g pw show ?thesis by (subst drive_write.simps) auto
  qed
qed

lemma Cipher_tag_len_16: "Cipher_tag_len ci = Ok tag_size"
  by (cases "cipher ci") (simp_all add: Cipher_tag_len_def tag_size_def)

lemma max_packet_le: "length d \<le> MAX_PACKET_SIZE \<Longrightarrow> length d \<le> 2 ^ 36"
  by (simp add: MAX_PACKET_SIZE_def)

lemma assemble_packet_frame:
  assumes "aead_law P" and "cipher_wf (w_cipher w)" and "length buf \<le> MAX_PACKET_SIZE"
  shows "assemble_packet P w buf = Ok (w\<lparr>w_cipher := increase_nonce (increase_nonce (w_cipher w)),
    w_buffer := w_buffer w @ frame P (w_cipher w) buf, w_state := Writing 0\<rparr>)"
  using assms(2) increase_nonce_wf(1) [OF assms(2)] max_packet_le [OF assms(3)]
  by (simp add: assemble_packet_def Cipher_tag_len_16 Let_def frame_def Cipher_encrypt_sealed [OF assms(1)])

lemma drive_write_frame:
  assumes "aead_law P" and "cipher_wf (w_cipher w)" and "good_grants s" and "w_state w = AssemblePacket"
  shows "\<exists>s'. drive_write P w s buf
      = (Ok (min (length buf) MAX_PACKET_SIZE),
         w\<lparr>w_cipher := increase_nonce (increase_nonce (w_cipher w)), w_buffer := []\<rparr>, s')
    \<and> good_grants s' \<and> sent s' = sent s @ w_buffer w @ frame P (w_cipher w) (take MAX_PACKET_SIZE buf)"
proof -
  let ?b = "take MAX_PACKET_SIZE buf"
  let ?w = "w\<lparr>w_cipher := increase_nonce (increase_nonce (w_cipher w)),
    w_buffer := w_buffer w @ frame P (w_cipher w) ?b, w_state := Writing 0\<rparr>"
  have asm: "assemble_packet P w ?b = Ok ?w"
    by (rule assemble_packet_frame [OF assms(1,2)]) simp
  have "poll_write_encrypted P w s buf = poll_write_encrypted P ?w s buf"
    using asm assms(4) by (auto simp: poll_write_encrypted_def Let_def)
  then have "drive_write P w s buf = drive_write P ?w s buf"
    by (subst (1 2) drive_write.simps) simp
  moreover have "?w\<lparr>w_state := AssemblePacket, w_buffer := []\<rparr>
      = w\<lparr>w_cipher := increase_nonce (increase_nonce (w_cipher w)), w_buffer := []\<rparr>"
    using assms(4) by (cases w) simp
  ultimately show ?thesis using drive_writing [OF assms(3), of ?w 0 P buf] by auto
qed

lemma write_all_frames:
  assumes "aead_law P" and "cipher_wf (w_cipher w)" and "good_grants s" and "w_state w = AssemblePacket"
    and "\<forall>b \<in> set bufs. length b \<le> MAX_PACKET_SIZE" and "bufs \<noteq> []"
  shows "\<exists>w' s'. write_all P w s bufs = Ok (w', s') \<and> sent s' = sent s @ w_buffer w @ frames P (w_cipher w) bufs"
  using assms(2-)
proof (induction bufs arbitrary: w s)
  case (Cons b bs)
  let ?w = "w\<lparr>w_cipher := increase_nonce (increase_nonce (w_cipher w)), w_buffer := []\<rparr>"
  obtain s1 where s1: "drive_write P w s b = (Ok (min (length b) MAX_PACKET_SIZE), ?w, s1)"
    "good_grants s1" "sent s1 = sent s @ w_buffer w @ frame P (w_cipher w) b"
    using drive_write_frame [OF assms(1) Cons.prems(1-3), of b] Cons.prems(4) by auto
  show ?case
  proof (cases "bs = []")
    case True
    with s1 show ?thesis by simp
  next
    case False
    have "cipher_wf (w_cipher ?w)" using increase_nonce_wf(1) Cons.prems(1) by simp
    from Cons.IH [OF this s1(2)] Cons.prems False obtain w' s' where
      "write_all P ?w s1 bs = Ok (w', s')" "sent s' = sent s1 @ frames P (w_cipher ?w) bs" by auto
    with s1 show ?thesis by simp
  qed
qed simp

text \<open>The cipher after some packets.\<close>

definition after_frames :: "Cipher \<Rightarrow> bytes list \<Rightarrow> Cipher" where
  "after_frames ci ds = fold (\<lambda>_ c. increase_nonce (increase_nonce c)) ds ci"

lemma after_frames_append: "after_frames ci (ds @ [d]) = increase_nonce (increase_nonce (after_frames ci ds))"
  by (simp add: after_frames_def)

lemma after_frames_wf: "cipher_wf ci \<Longrightarrow> cipher_wf (after_frames ci ds)"
  unfolding after_frames_def by (induction ds arbitrary: ci) (simp_all add: increase_nonce_wf(1))

lemma frames_append: "frames P ci (ds @ [d]) = frames P ci ds @ frame P (after_frames ci ds) d"
  by (induction ds arbitrary: ci) (simp_all add: after_frames_def)

section \<open>The reader\<close>

fun good_event :: "read_event \<Rightarrow> bool" where
  "good_event RPending = True"
| "good_event (RData bs) = (bs \<noteq> [])"
| "good_event (RError _) = False"

definition good_events :: "read_event list \<Rightarrow> bool" where
  "good_events es \<longleftrightarrow> list_all good_event es"

lemma poll_read_good:
  assumes "good_events es" and "0 < cap" and "poll_read cap es = (p, es')"
  shows "good_events es' \<and> length es' \<le> length es
    \<and> (p = Pending \<and> stream_data es' = stream_data es \<and> length es' < length es
       \<or> p = Ready (Ok []) \<and> stream_data es = [] \<and> es' = []
       \<or> (\<exists>bs. p = Ready (Ok bs) \<and> bs \<noteq> [] \<and> length bs \<le> cap \<and> stream_data es = bs @ stream_data es'))"
  using assms by (cases "(cap, es)" rule: poll_read.cases) (auto simp: good_events_def)

lemma read_exact_good:
  assumes "good_events es" and "buf @ stream_data es = x @ rest" and "length x = sz" and "length buf \<le> sz"
  shows "\<exists>p buf' es'. read_exact_loop sz buf es = (p, buf', es') \<and> good_events es' \<and> length es' \<le> length es
    \<and> buf' @ stream_data es' = x @ rest \<and> length buf' \<le> sz
    \<and> (p = Pending \<and> length es' < length es \<or> p = Ready (Ok sz) \<and> buf' = x \<and> stream_data es' = rest)"
  using assms
proof (induction sz buf es rule: read_exact_loop.induct)
  case (1 sz buf es)
  show ?case
  proof (cases "length buf < sz")
    case True
    obtain q es1 where q: "poll_read (sz - length buf) es = (q, es1)" by fastforce
    have "stream_data es \<noteq> []" using True 1(3,4) by (metis append_Nil2 length_append not_less le_add1)
    with poll_read_good [OF 1(2) _ q] True consider
      "q = Pending" "good_events es1" "stream_data es1 = stream_data es" "length es1 < length es"
      | bs where "q = Ready (Ok bs)" "bs \<noteq> []" "length bs \<le> sz - length buf"
          "stream_data es = bs @ stream_data es1" "good_events es1" "length es1 \<le> length es" by auto
    then show ?thesis
    proof cases
      case 1
      with True q \<open>buf @ stream_data es = x @ rest\<close> show ?thesis
        by (subst read_exact_loop.simps) auto
    next
      case (2 bs)
      have "read_exact_loop sz buf es = read_exact_loop sz (buf @ bs) es1"
        using True q 2(1,2) by (subst read_exact_loop.simps) simp
      moreover have "(buf @ bs) @ stream_data es1 = x @ rest" "length (buf @ bs) \<le> sz"
        using 1(3) 2(3,4) True by simp_all
      with 1(1) [OF True q [symmetric] 2(1) refl 2(2,5)] 1(4) obtain p buf' es' where
        "read_exact_loop sz (buf @ bs) es1 = (p, buf', es')" "good_events es'" "length es' \<le> length es1"
        "buf' @ stream_data es' = x @ rest" "length buf' \<le> sz"
        "p = Pending \<and> length es' < length es1 \<or> p = Ready (Ok sz) \<and> buf' = x \<and> stream_data es' = rest"
        by blast
      ultimately show ?thesis using 2(6) by (intro exI [of _ p] exI [of _ buf'] exI [of _ es']) auto
    qed
  next
    case False
    with 1(3-5) have "buf = x" "stream_data es = rest" by (simp_all add: append_eq_append_conv)
    with False 1 show ?thesis by (subst read_exact_loop.simps) simp
  qed
qed

lemma read_exact_end:
  assumes "good_events es" and "stream_data es = []" and "0 < sz"
  shows "read_exact_loop sz [] es = (Ready (Ok 0), [], []) \<and> es = []
    \<or> (\<exists>es'. read_exact_loop sz [] es = (Pending, [], es') \<and> good_events es' \<and> stream_data es' = []
       \<and> length es' < length es)"
proof (cases es)
  case Nil
  with assms(3) show ?thesis by (subst read_exact_loop.simps) simp
next
  case (Cons e es')
  with assms show ?thesis
    by (subst (1 2) read_exact_loop.simps) (cases e, auto simp: good_events_def)
qed

text \<open>
  The invariant: in each state, what is in the buffer and still in the socket is a suffix of the
  wire form, the buffer has the capacity for what the state reads, and \<open>T\<close> is the plaintext the caller has not seen yet.
\<close>

definition packets :: "bytes list \<Rightarrow> bool" where
  "packets ds \<longleftrightarrow> (\<forall>d \<in> set ds. length d \<le> MAX_PACKET_SIZE)"

inductive rd_inv :: "crypto_prims \<Rightarrow> CipherKind \<Rightarrow> DecryptedReader \<Rightarrow> read_event list \<Rightarrow> bytes \<Rightarrow> bool"
  for P k where
  wait_salt: "r_state r = WaitSalt key \<Longrightarrow> r_kind r = k \<Longrightarrow> length key = kind_key_size k \<Longrightarrow>
    length salt = kind_key_size k \<Longrightarrow> length (r_buffer r) \<le> kind_key_size k \<Longrightarrow> kind_key_size k \<le> r_cap r \<Longrightarrow>
    r_buffer r @ stream_data es = salt @ frames P (fresh_cipher P k key salt) ds \<Longrightarrow> packets ds \<Longrightarrow>
    rd_inv P k r es (concat ds)"
| read_length: "r_state r = ReadLength \<Longrightarrow> r_kind r = k \<Longrightarrow> r_cipher r = Some ci \<Longrightarrow> cipher_wf ci \<Longrightarrow>
    length (r_buffer r) \<le> 2 + tag_size \<Longrightarrow> 2 + tag_size \<le> r_cap r \<Longrightarrow> r_buffer r @ stream_data es = frames P ci ds \<Longrightarrow> packets ds \<Longrightarrow>
    rd_inv P k r es (concat ds)"
| read_data: "r_state r = ReadData (length d) \<Longrightarrow> r_kind r = k \<Longrightarrow> r_cipher r = Some ci \<Longrightarrow> cipher_wf ci \<Longrightarrow>
    length (r_buffer r) \<le> length d + tag_size \<Longrightarrow> length d + tag_size \<le> r_cap r \<Longrightarrow>
    r_buffer r @ stream_data es = sealed P ci d @ frames P (increase_nonce ci) ds \<Longrightarrow> packets (d # ds) \<Longrightarrow>
    rd_inv P k r es (d @ concat ds)"
| buffered: "r_state r = BufferedData pos \<Longrightarrow> r_kind r = k \<Longrightarrow> r_cipher r = Some ci \<Longrightarrow> cipher_wf ci \<Longrightarrow>
    stream_data es = frames P ci ds \<Longrightarrow> packets ds \<Longrightarrow>
    rd_inv P k r es (drop pos (r_buffer r) @ concat ds)"

definition step_ok :: "crypto_prims \<Rightarrow> CipherKind \<Rightarrow> read_event list \<Rightarrow> bytes
    \<Rightarrow> ((TcpAeadError, bytes) poll \<times> DecryptedReader \<times> read_event list) + (DecryptedReader \<times> read_event list) \<Rightarrow> bool" where
  "step_ok P k es T out = (case out of
     Inr (r', es') \<Rightarrow> good_events es' \<and> length es' \<le> length es \<and> rd_inv P k r' es' T
   | Inl (Pending, r', es') \<Rightarrow> good_events es' \<and> length es' < length es \<and> rd_inv P k r' es' T
   | Inl (Ready (Ok b), r', es') \<Rightarrow> good_events es' \<and> length es' \<le> length es
       \<and> (\<exists>T'. T = b @ T' \<and> rd_inv P k r' es' T' \<and> (b = [] \<longrightarrow> T = []))
   | _ \<Rightarrow> False)"

lemma kind_size_pos: "0 < kind_key_size k"
  by (cases k) simp_all

lemma pool_read_exact_good:
  assumes "good_events es" and "r_buffer r @ stream_data es = x @ rest" and "length x = sz" and "0 < sz"
    and "length (r_buffer r) \<le> sz" and "sz \<le> r_cap r"
  obtains (pending) buf es' where "pool_read_exact sz r es = (Pending, r\<lparr>r_buffer := buf\<rparr>, es')"
      "good_events es'" "length es' < length es" "buf @ stream_data es' = x @ rest" "length buf \<le> sz"
  | (ready) es' where "pool_read_exact sz r es = (Ready (Ok sz), r\<lparr>r_buffer := x\<rparr>, es')"
      "good_events es'" "length es' \<le> length es" "stream_data es' = rest"
  using read_exact_good [OF assms(1-3,5)] pool_read_exact_room [OF assms(4,6)] by auto

lemma step_wait_salt:
  assumes "hkdf_law P" and "is_aead k" and "good_events es"
    and "r_state r = WaitSalt key" "r_kind r = k" "length key = kind_key_size k"
      "length salt = kind_key_size k" "length (r_buffer r) \<le> kind_key_size k"
      "r_buffer r @ stream_data es = salt @ frames P (fresh_cipher P k key salt) ds" "packets ds" "kind_key_size k \<le> r_cap r"
  shows "step_ok P k es (concat ds) (read_step P cap r es)"
proof (cases rule: pool_read_exact_good [OF assms(3,9,7) kind_size_pos assms(8,11), case_names pending ready])
  case (pending buf es')
  have "rd_inv P k (r\<lparr>r_buffer := buf\<rparr>) es' (concat ds)"
    using pending assms by (intro wait_salt [where key = key and salt = salt]) simp_all
  with pending assms(4,5) show ?thesis
    by (simp add: read_step_def poll_read_salt_def aead_lens [OF assms(2)] step_ok_def)
next
  case (ready es')
  let ?r = "r\<lparr>r_salt := Some salt, r_cipher := Some (fresh_cipher P k key salt), r_buffer := [],
    r_state := ReadLength, r_handshaked := True, r_cap := max (r_cap r) (2 + tag_size)\<rparr>"
  have "rd_inv P k ?r es' (concat ds)"
    using ready assms Cipher_new_fresh(2) [OF assms(1,2,6)]
    by (intro read_length [where ci = "fresh_cipher P k key salt"]) simp_all
  with ready assms(4,5,7) show ?thesis
    by (simp add: read_step_def poll_read_salt_def aead_lens [OF assms(2)] step_ok_def reserve_tag_def
        Cipher_new_fresh(1) [OF assms(1,2,6)] Let_def)
qed

lemma frames_Cons_sealed:
  "frames P ci (d # ds) = sealed P ci (be16 (of_nat (length d)))
    @ (sealed P (increase_nonce ci) d @ frames P (increase_nonce (increase_nonce ci)) ds)"
  by (simp add: frame_def)

lemma decrypt_length_sealed:
  assumes "aead_law P" and "cipher_wf ci" and "length d \<le> MAX_PACKET_SIZE"
  shows "\<exists>m. decrypt_length P ci (sealed P ci (be16 (of_nat (length d)))) = (Some (increase_nonce ci), m, Ok (length d))"
proof -
  have "unat (of_nat (length d) :: u16) = length d"
    using assms(3) by (simp add: MAX_PACKET_SIZE_def unat_of_nat)
  then show ?thesis
    using assms(3)
    by (simp add: decrypt_length_def Cipher_decrypt_sealed [OF assms(1,2)] Let_def) (simp add: be16_def)
qed

lemma step_read_length:
  assumes "aead_law P" and "is_aead k" and "good_events es"
    and "r_state r = ReadLength" "r_kind r = k" "r_cipher r = Some ci" "cipher_wf ci"
      "length (r_buffer r) \<le> 2 + tag_size" "r_buffer r @ stream_data es = frames P ci (d # ds)" "packets (d # ds)"
      "2 + tag_size \<le> r_cap r"
  shows "step_ok P k es (concat (d # ds)) (read_step P cap r es)"
proof -
  let ?x = "sealed P ci (be16 (of_nat (length d)))"
    and ?rest = "sealed P (increase_nonce ci) d @ frames P (increase_nonce (increase_nonce ci)) ds"
  have d: "length d \<le> MAX_PACKET_SIZE" using assms(10) by (simp add: packets_def)
  have len: "length ?x = 2 + tag_size" using length_sealed [OF assms(1,7)] by simp
  show ?thesis
  proof (cases rule: pool_read_exact_good [OF assms(3) assms(9) [unfolded frames_Cons_sealed] len _ assms(8,11),
        case_names pos pending ready])
    case pos
    then show ?case by simp
  next
    case (pending buf es')
    have "rd_inv P k (r\<lparr>r_buffer := buf\<rparr>) es' (concat (d # ds))"
      using pending assms by (intro read_length [where ci = ci]) (simp_all add: frame_def)
    with pending assms(4,5) show ?thesis
      by (simp add: read_step_def poll_read_length_def aead_lens [OF assms(2)] step_ok_def)
  next
    case (ready es')
    obtain m where m: "decrypt_length P ci ?x = (Some (increase_nonce ci), m, Ok (length d))"
      using decrypt_length_sealed [OF assms(1,7) d] by blast
    let ?r = "r\<lparr>r_cipher := Some (increase_nonce ci), r_buffer := [], r_state := ReadData (length d),
      r_cap := max (r_cap r) (length d + tag_size)\<rparr>"
    have "rd_inv P k ?r es' (d @ concat ds)"
      using ready assms increase_nonce_wf(1) [OF assms(7)]
      by (intro read_data [where ci = "increase_nonce ci"]) simp_all
    with ready assms(4-6) m len show ?thesis
      by (simp add: read_step_def poll_read_length_def aead_lens [OF assms(2)] step_ok_def reserve_tag_def)
  qed
qed

lemma step_read_end:
  assumes "is_aead k" and "good_events es"
    and "r_state r = ReadLength" "r_kind r = k" "r_cipher r = Some ci" "cipher_wf ci"
      "r_buffer r @ stream_data es = []" "2 + tag_size \<le> r_cap r"
  shows "step_ok P k es [] (read_step P cap r es)"
proof -
  have inv: "rd_inv P k r es' []" if "stream_data es' = []" for es'
    using that assms read_length [of r k ci es' P "[]"] by (simp add: packets_def)
  have b: "r_buffer r = []" "stream_data es = []" using assms(7) by simp_all
  have r: "r\<lparr>r_buffer := []\<rparr> = r" using b(1) by (cases r) simp
  from read_exact_end [OF assms(2) b(2), of "2 + tag_size"] inv b assms(3,4,8) show ?thesis
    by (auto simp: r read_step_def poll_read_length_def aead_lens [OF assms(1)] step_ok_def pool_read_exact_room
        good_events_def)
qed

lemma step_read_data:
  assumes "aead_law P" and "is_aead k" and "good_events es"
    and "r_state r = ReadData (length d)" "r_kind r = k" "r_cipher r = Some ci" "cipher_wf ci"
      "length (r_buffer r) \<le> length d + tag_size"
      "r_buffer r @ stream_data es = sealed P ci d @ frames P (increase_nonce ci) ds" "packets (d # ds)"
      "length d + tag_size \<le> r_cap r"
  shows "step_ok P k es (d @ concat ds) (read_step P cap r es)"
proof -
  have d: "length d \<le> 2 ^ 36" using assms(10) max_packet_le [of d] by (simp add: packets_def)
  have len: "length (sealed P ci d) = length d + tag_size" using length_sealed [OF assms(1,7) d] by simp
  have pos: "0 < length d + tag_size" by (simp add: tag_size_def)
  show ?thesis
  proof (cases rule: pool_read_exact_good [OF assms(3,9) len pos assms(8,11), case_names pending ready])
    case (pending buf es')
    have "rd_inv P k (r\<lparr>r_buffer := buf\<rparr>) es' (d @ concat ds)"
      using pending assms by (intro read_data [where ci = ci]) simp_all
    with pending assms(4,5) show ?thesis
      by (simp add: read_step_def poll_read_data_def aead_lens [OF assms(2)] step_ok_def)
  next
    case (ready es')
    let ?r = "r\<lparr>r_cipher := Some (increase_nonce ci), r_buffer := d, r_state := BufferedData 0\<rparr>"
    have "rd_inv P k ?r es' (drop 0 (r_buffer ?r) @ concat ds)"
      using ready assms increase_nonce_wf(1) [OF assms(7)]
      by (intro buffered [where ci = "increase_nonce ci"]) (simp_all add: packets_def)
    with ready assms(4-6) len pos show ?thesis
      by (simp add: read_step_def poll_read_data_def aead_lens [OF assms(2)] step_ok_def
          Cipher_decrypt_sealed [OF assms(1,7) d])
  qed
qed

lemma step_buffered:
  assumes "is_aead k" and "good_events es" and "0 < cap"
    and "r_state r = BufferedData pos" "r_kind r = k" "r_cipher r = Some ci" "cipher_wf ci"
      "stream_data es = frames P ci ds" "packets ds"
  shows "step_ok P k es (drop pos (r_buffer r) @ concat ds) (read_step P cap r es)"
proof (cases "pos < length (r_buffer r)")
  case True
  let ?n = "min (length (r_buffer r) - pos) cap"
  have "rd_inv P k (r\<lparr>r_state := BufferedData (pos + ?n)\<rparr>) es
      (drop (pos + ?n) (r_buffer (r\<lparr>r_state := BufferedData (pos + ?n)\<rparr>)) @ concat ds)"
    using assms by (intro buffered [where ci = ci]) simp_all
  moreover have "drop pos (r_buffer r) = take ?n (drop pos (r_buffer r)) @ drop (pos + ?n) (r_buffer r)"
    using append_take_drop_id [of ?n "drop pos (r_buffer r)"] by (simp add: add.commute)
  moreover have "take ?n (drop pos (r_buffer r)) \<noteq> []" using True assms(3) by simp
  ultimately show ?thesis
    using True assms(2,4) unfolding step_ok_def read_step_def Let_def
    by (simp del: take_drop drop_drop) (metis append.assoc)
next
  case False
  have "rd_inv P k (r\<lparr>r_buffer := [], r_state := ReadLength, r_cap := max (r_cap r) (2 + tag_size)\<rparr>) es (concat ds)"
    using assms by (intro read_length [where ci = ci]) simp_all
  with False assms show ?thesis
    by (simp add: read_step_def step_ok_def reserve_tag_def aead_lens)
qed

lemma read_step_ok:
  assumes "aead_laws P" and "is_aead k" and "good_events es" and "0 < cap" and "rd_inv P k r es T"
  shows "step_ok P k es T (read_step P cap r es)"
proof -
  have laws: "hkdf_law P" "aead_law P" using assms(1) by (simp_all add: aead_laws_def)
  from assms(5) show ?thesis
  proof cases
    case (wait_salt key salt ds)
    then show ?thesis using step_wait_salt [OF laws(1) assms(2,3)] by simp
  next
    case (read_length ci ds)
    then show ?thesis
      using step_read_length [OF laws(2) assms(2,3)] step_read_end [OF assms(2,3)] by (cases ds) simp_all
  next
    case (read_data d ci ds)
    then show ?thesis using step_read_data [OF laws(2) assms(2,3)] by simp
  next
    case (buffered pos ci ds)
    then show ?thesis using step_buffered [OF assms(2-4)] by simp
  qed
qed

lemma step_ok_mono: "length es' \<le> length es \<Longrightarrow> step_ok P k es' T x \<Longrightarrow> step_ok P k es T x"
  by (auto simp: step_ok_def split: sum.splits poll.splits res.splits prod.splits)

lemma poll_read_decrypted_ok:
  assumes "aead_laws P" and "is_aead k" and "0 < cap" and "good_events es" and "rd_inv P k r es T"
  shows "step_ok P k es T (Inl (poll_read_decrypted P cap r es))"
  using assms
proof (induction P cap r es rule: poll_read_decrypted.induct)
  case (1 P cap r es)
  note ok = read_step_ok [OF 1(2,3,5,4,6)]
  show ?case
  proof (cases "read_step P cap r es")
    case (Inl out)
    with ok show ?thesis by (subst poll_read_decrypted.simps) simp
  next
    case (Inr x)
    obtain r' es' where x: "x = (r', es')" by (cases x)
    from ok Inr x have "good_events es'" "length es' \<le> length es" "rd_inv P k r' es' T"
      by (simp_all add: step_ok_def)
    with 1(1) [OF Inr x [symmetric] 1(2-4)] have "step_ok P k es T (Inl (poll_read_decrypted P cap r' es'))"
      using step_ok_mono by blast
    with Inr x show ?thesis by (subst poll_read_decrypted.simps) simp
  qed
qed

text \<open>A caller that polls up to \<open>n\<close> times with room for \<open>cap\<close> bytes, until the end of the stream.\<close>

fun read_to_end :: "nat \<Rightarrow> crypto_prims \<Rightarrow> nat \<Rightarrow> DecryptedReader \<Rightarrow> read_event list
    \<Rightarrow> (TcpAeadError, bytes) res option" where
  "read_to_end 0 P cap r es = None"
| "read_to_end (Suc n) P cap r es = (case poll_read_decrypted P cap r es of
     (Pending, r', es') \<Rightarrow> read_to_end n P cap r' es'
   | (Ready (Ok b), r', es') \<Rightarrow>
       if b = [] then Some (Ok []) else map_option (map_ok (append b)) (read_to_end n P cap r' es')
   | (Ready (Err e), r', es') \<Rightarrow> Some (Err e)
   | (Ready Panic, r', es') \<Rightarrow> Some Panic)"

lemma read_to_end_ok:
  assumes "aead_laws P" and "is_aead k" and "0 < cap"
    and "good_events es" and "rd_inv P k r es T" and "length T + length es < n"
  shows "read_to_end n P cap r es = Some (Ok T)"
  using assms(4-)
proof (induction n arbitrary: r es T)
  case (Suc n)
  obtain p r' es' where p: "poll_read_decrypted P cap r es = (p, r', es')" by (metis prod_cases3)
  from poll_read_decrypted_ok [OF assms(1-3) Suc.prems(1,2)] p have ok: "step_ok P k es T (Inl (p, r', es'))"
    by simp
  then consider "p = Pending" "good_events es'" "length es' < length es" "rd_inv P k r' es' T"
    | b T' where "p = Ready (Ok b)" "good_events es'" "length es' \<le> length es" "T = b @ T'"
        "rd_inv P k r' es' T'" "b = [] \<longrightarrow> T = []"
    by (auto simp: step_ok_def split: poll.splits res.splits)
  then show ?case
  proof cases
    case 1
    with Suc p show ?thesis by simp
  next
    case (2 b T')
    then show ?thesis
    proof (cases "b = []")
      case False
      then have "length T' + length es' < n" using 2(3,4) Suc.prems(3) by (cases b) auto
      with Suc.IH [OF 2(2,5)] False 2 p show ?thesis by simp
    qed (use 2 p in simp)
  qed
qed simp

section \<open>Any bytes from the network\<close>

definition read_safe :: "DecryptedReader \<Rightarrow> bool" where
  "read_safe r \<longleftrightarrow> is_aead (r_kind r) \<and> (case r_state r of
     WaitSalt key \<Rightarrow> length key = kind_key_size (r_kind r) \<and> kind_key_size (r_kind r) \<le> r_cap r
   | ReadLength \<Rightarrow> (\<exists>ci. r_cipher r = Some ci \<and> cipher_wf ci) \<and> 2 + tag_size \<le> r_cap r
   | ReadData n \<Rightarrow> (\<exists>ci. r_cipher r = Some ci \<and> cipher_wf ci) \<and> n + tag_size \<le> r_cap r
   | BufferedData _ \<Rightarrow> (\<exists>ci. r_cipher r = Some ci \<and> cipher_wf ci))"

fun safe_out :: "(('e, 'a) poll \<times> DecryptedReader \<times> read_event list) + (DecryptedReader \<times> read_event list) \<Rightarrow> bool" where
  "safe_out (Inr (r, es)) = read_safe r"
| "safe_out (Inl (Pending, r, es)) = read_safe r"
| "safe_out (Inl (Ready (Ok _), r, es)) = read_safe r"
| "safe_out (Inl (Ready (Err _), r, es)) = True"
| "safe_out (Inl (Ready Panic, r, es)) = False"

lemma pool_read_exact_safe:
  assumes "0 < sz" and "sz \<le> r_cap r" and "pool_read_exact sz r es = (p, r', es')"
  shows "p \<noteq> Ready Panic \<and> (\<exists>b. r' = r\<lparr>r_buffer := b\<rparr>)
    \<and> (\<forall>m. p = Ready (Ok m) \<longrightarrow> m = 0 \<or> m = sz \<and> sz \<le> length (r_buffer r'))"
proof -
  have "read_exact_loop sz buf es \<noteq> (Ready Panic, b, es')" for buf b
  proof (induction sz buf es rule: read_exact_loop.induct)
    case (1 sz buf es)
    have np: "poll_read c es \<noteq> (Ready Panic, x)" for c x
      by (cases "(c, es)" rule: poll_read.cases) auto
    show ?case
    proof
      assume a: "read_exact_loop sz buf es = (Ready Panic, b, es')"
      obtain q es1 where q: "poll_read (sz - length buf) es = (q, es1)" by fastforce
      from a q np 1 show False
        by (subst (asm) read_exact_loop.simps) (auto split: if_splits poll.splits res.splits)
    qed
  qed
  with assms show ?thesis
    using read_exact_loop_Ok [of sz "r_buffer r" es]
    by (auto simp: pool_read_exact_room split: prod.splits)
qed

lemma read_safe_cipher:
  "read_safe r \<Longrightarrow> (\<And>key. r_state r \<noteq> WaitSalt key) \<Longrightarrow> is_aead (r_kind r) \<and> (\<exists>ci. r_cipher r = Some ci \<and> cipher_wf ci)"
  by (cases "r_state r") (auto simp: read_safe_def)

lemma step_safe_salt:
  assumes "aead_laws P" and "read_safe r" and "r_state r = WaitSalt key"
  shows "safe_out (read_step P cap r es)"
proof -
  let ?n = "kind_key_size (r_kind r)"
  have k: "is_aead (r_kind r)" "length key = ?n" and room: "?n \<le> r_cap r" and hk: "hkdf_law P"
    using assms by (simp_all add: read_safe_def aead_laws_def)
  obtain p r' es' where p: "pool_read_exact ?n r es = (p, r', es')" by (metis prod_cases3)
  from pool_read_exact_safe [OF kind_size_pos room p] obtain b where r': "r' = r\<lparr>r_buffer := b\<rparr>"
    and np: "p \<noteq> Ready Panic" and m: "\<And>m. p = Ready (Ok m) \<Longrightarrow> m = 0 \<or> m = ?n" by auto
  consider "p = Pending" | e where "p = Ready (Err e)" | "p = Ready (Ok 0)" | "p = Ready (Ok ?n)"
    using np m by (cases p; metis res.exhaust)
  then show ?thesis
    using assms(2,3) p r' kind_size_pos [of "r_kind r"] Cipher_new_fresh(2) [OF hk k]
    by cases (simp_all add: read_step_def poll_read_salt_def aead_lens [OF k(1)] read_safe_def
        Cipher_new_fresh(1) [OF hk k] Let_def reserve_tag_def)
qed

lemma step_safe_length:
  assumes "aead_laws P" and "read_safe r" and "r_state r = ReadLength"
  shows "safe_out (read_step P cap r es)"
proof -
  from read_safe_cipher [OF assms(2)] assms(3) obtain ci where k: "is_aead (r_kind r)"
    and ci: "r_cipher r = Some ci" "cipher_wf ci" by auto
  have law: "aead_law P" using assms(1) by (simp add: aead_laws_def)
  obtain p r' es' where p: "pool_read_exact (2 + tag_size) r es = (p, r', es')" by (metis prod_cases3)
  have room: "2 + tag_size \<le> r_cap r" using assms(2,3) by (simp add: read_safe_def)
  from pool_read_exact_safe [OF _ room p] obtain b where r': "r' = r\<lparr>r_buffer := b\<rparr>"
    and np: "p \<noteq> Ready Panic"
    and m: "\<And>m. p = Ready (Ok m) \<Longrightarrow> m = 0 \<or> m = 2 + tag_size \<and> 2 + tag_size \<le> length b" by auto
  consider "p = Pending" | e where "p = Ready (Err e)" | "p = Ready (Ok 0)"
    | "p = Ready (Ok (2 + tag_size))" "2 + tag_size \<le> length b"
    using np m by (cases p; metis res.exhaust)
  then show ?thesis
  proof cases
    case 4
    then have "tag_size \<le> length (take (2 + tag_size) b)" by simp
    from Cipher_decrypt_total [OF law ci(2) this, where 'a = TcpAeadError] obtain ok out where
      "Cipher_decrypt P ci (take (2 + tag_size) b) = (Ok (increase_nonce ci, ok, out) :: (TcpAeadError, _) res)"
      by blast
    with 4 assms(3) p r' ci increase_nonce_wf(1) [OF ci(2)] k show ?thesis
      by (simp add: read_step_def poll_read_length_def aead_lens [OF k] decrypt_length_def Let_def
          reserve_tag_def read_safe_def)
  qed (use assms(2,3) p r' in \<open>simp_all add: read_step_def poll_read_length_def aead_lens [OF k] read_safe_def\<close>)
qed

lemma step_safe_data:
  assumes "aead_laws P" and "read_safe r" and "r_state r = ReadData n"
  shows "safe_out (read_step P cap r es)"
proof -
  from read_safe_cipher [OF assms(2)] assms(3) obtain ci where k: "is_aead (r_kind r)"
    and ci: "r_cipher r = Some ci" "cipher_wf ci" by auto
  have law: "aead_law P" using assms(1) by (simp add: aead_laws_def)
  have pos: "0 < n + tag_size" by (simp add: tag_size_def)
  obtain p r' es' where p: "pool_read_exact (n + tag_size) r es = (p, r', es')" by (metis prod_cases3)
  have room: "n + tag_size \<le> r_cap r" using assms(2,3) by (simp add: read_safe_def)
  from pool_read_exact_safe [OF pos room p] obtain b where r': "r' = r\<lparr>r_buffer := b\<rparr>"
    and np: "p \<noteq> Ready Panic"
    and m: "\<And>m. p = Ready (Ok m) \<Longrightarrow> m = 0 \<or> m = n + tag_size \<and> n + tag_size \<le> length b" by auto
  consider "p = Pending" | e where "p = Ready (Err e)" | "p = Ready (Ok 0)"
    | "p = Ready (Ok (n + tag_size))" "n + tag_size \<le> length b"
    using np m by (cases p; metis res.exhaust)
  then show ?thesis
  proof cases
    case 4
    then have "tag_size \<le> length (take (n + tag_size) b)" by simp
    from Cipher_decrypt_total [OF law ci(2) this, where 'a = TcpAeadError] obtain ok out where
      "Cipher_decrypt P ci (take (n + tag_size) b) = (Ok (increase_nonce ci, ok, out) :: (TcpAeadError, _) res)"
      by blast
    with 4 assms(3) p r' ci increase_nonce_wf(1) [OF ci(2)] k pos show ?thesis
      by (simp add: read_step_def poll_read_data_def aead_lens [OF k] read_safe_def)
  qed (use assms(2,3) p r' in \<open>simp_all add: read_step_def poll_read_data_def aead_lens [OF k] read_safe_def\<close>)
qed

lemma read_step_safe:
  assumes "aead_laws P" and "read_safe r"
  shows "safe_out (read_step P cap r es)"
proof (cases "r_state r")
  case (BufferedData pos)
  then show ?thesis
    using assms(2) read_safe_cipher [OF assms(2)]
    by (auto simp: read_step_def read_safe_def Let_def reserve_tag_def aead_lens)
qed (use assms step_safe_salt step_safe_length step_safe_data in blast)+

lemma poll_read_decrypted_safe:
  assumes "aead_laws P" and "read_safe r"
  shows "safe_out (Inl (poll_read_decrypted P cap r es))"
  using assms
proof (induction P cap r es rule: poll_read_decrypted.induct)
  case (1 P cap r es)
  note ok = read_step_safe [OF 1(2,3), of cap es]
  show ?case
  proof (cases "read_step P cap r es")
    case (Inl out)
    with ok show ?thesis by (subst poll_read_decrypted.simps) simp
  next
    case (Inr x)
    with ok 1(1) [OF Inr _ 1(2)] show ?thesis
      by (subst poll_read_decrypted.simps) (auto split: prod.splits)
  qed
qed

lemma read_to_end_safe:
  assumes "aead_laws P" and "read_safe r"
  shows "read_to_end n P cap r es \<noteq> Some Panic"
  using assms(2)
proof (induction n arbitrary: r es)
  case (Suc n)
  obtain p r' es' where p: "poll_read_decrypted P cap r es = (p, r', es')" by (metis prod_cases3)
  have map_panic: "map_option (map_ok f) x = Some Panic \<longleftrightarrow> x = Some Panic" for f x
    by (cases x) auto
  from poll_read_decrypted_safe [OF assms(1) Suc.prems, of cap es] p Suc.IH show ?case
    by (cases p) (auto simp: map_panic split: res.splits)
qed simp

lemma new_reader:
  assumes "DecryptedReader_new k key = Ok r"
  shows "is_aead k" and "r_state r = WaitSalt key" "r_kind r = k" "r_buffer r = []" "r_cap r = kind_key_size k"
  using assms by (cases k; auto simp: DecryptedReader_new_def salt_len_def is_aead_def)+

section \<open>Properties\<close>

text \<open>
  C2: buffers written through the encrypting writer arrive unchanged and in order at the
  decrypting reader.  The writer's socket may accept the bytes in any portions and delay at any
  point, the reader's socket may deliver the same bytes in any other portions and delay at any
  point, and the reader's caller may offer a buffer of any nonzero size: reading to the end gives
  the concatenation of what was written.
\<close>

theorem tcp_stream_roundtrip:
  assumes "aead_laws P" and "length key = kind_key_size k" and "length salt = kind_key_size k"
    and "EncryptedWriter_new P k key salt = Ok w" and "DecryptedReader_new k key = Ok r"
    and "good_grants s" and "sent s = []" and "bufs \<noteq> []"
    and "\<forall>b \<in> set bufs. length b \<le> MAX_PACKET_SIZE"
  shows "\<exists>w' s'. write_all P w s bufs = Ok (w', s')
    \<and> (\<forall>es cap n. good_events es \<and> stream_data es = sent s' \<and> 0 < cap \<and> length (concat bufs) + length es < n \<longrightarrow>
        read_to_end n P cap r es = Some (Ok (concat bufs)))"
proof -
  note r = new_reader [OF assms(5)]
  have laws: "hkdf_law P" "aead_law P" using assms(1) by (simp_all add: aead_laws_def)
  let ?ci = "fresh_cipher P k key salt"
  have w: "w_cipher w = ?ci" "w_buffer w = salt" "w_state w = AssemblePacket"
    using assms(4) by (auto simp: EncryptedWriter_new_def Cipher_new_fresh(1) [OF laws(1) r(1) assms(2)])
  have "cipher_wf (w_cipher w)" using w(1) Cipher_new_fresh(2) [OF laws(1) r(1) assms(2)] by simp
  from write_all_frames [OF laws(2) this assms(6) w(3) assms(9,8)] w(1,2) assms(7)
  obtain w' s' where wr: "write_all P w s bufs = Ok (w', s')" "sent s' = salt @ frames P ?ci bufs" by auto
  have "rd_inv P k r es (concat bufs)" if "stream_data es = sent s'" for es
    using that r wr(2) assms(2,3,9) by (intro wait_salt [where key = key and salt = salt]) (simp_all add: packets_def)
  then have "read_to_end n P cap r es = Some (Ok (concat bufs))"
    if "good_events es" "stream_data es = sent s'" "0 < cap" "length (concat bufs) + length es < n" for es cap n
    using read_to_end_ok [OF assms(1) r(1) that(3,1)] that by blast
  with wr(1) show ?thesis by blast
qed

theorem tcp_stream_roundtrip_witness:
  "\<exists>w r w' s'. EncryptedWriter_new null_prims AES_128_GCM (replicate 16 1) (replicate 16 2) = (Ok w :: (unit, _) res)
    \<and> DecryptedReader_new AES_128_GCM (replicate 16 1) = (Ok r :: (unit, _) res)
    \<and> write_all null_prims w \<lparr>grants = [WAccept 5, WPending, WAccept 1], sent = []\<rparr> [[1, 2, 3], [], [4]] = Ok (w', s')
    \<and> (\<forall>es cap n. good_events es \<and> stream_data es = sent s' \<and> 0 < cap
         \<and> length (concat [[1 :: byte, 2, 3], [], [4]]) + length es < n \<longrightarrow>
        read_to_end n null_prims cap r es = Some (Ok (concat [[1, 2, 3], [], [4]])))"
proof -
  have "is_aead AES_128_GCM" "length (replicate 16 (1 :: byte)) = kind_key_size AES_128_GCM"
    by (simp_all add: is_aead_def)
  then obtain w where w: "EncryptedWriter_new null_prims AES_128_GCM (replicate 16 1) (replicate 16 2) = (Ok w :: (unit, _) res)"
    using null_prims_laws by (simp add: EncryptedWriter_new_def aead_laws_def Cipher_new_fresh(1))
  obtain r where r: "DecryptedReader_new AES_128_GCM (replicate 16 1) = (Ok r :: (unit, _) res)"
    by (simp add: DecryptedReader_new_def salt_len_def)
  have g: "good_grants \<lparr>grants = [WAccept 5, WPending, WAccept 1], sent = []\<rparr>" by (simp add: good_grants_def)
  from tcp_stream_roundtrip [OF null_prims_laws _ _ w r g, of "[[1, 2, 3], [], [4]]"] w r show ?thesis
    by (simp add: MAX_PACKET_SIZE_def)
qed

text \<open>
  C16: no sequence of network events, however malformed, makes the decrypting reader panic.  In
  particular the slice of the spare capacity into which each read goes is never too short, because of
  the capacity the buffer was made with and the room that each state reserves for the next one; nor
  is a buffer without a tag decrypted, or a length that was not read used.
\<close>

theorem tcp_reader_no_panic:
  assumes "aead_laws P" and "DecryptedReader_new k key = Ok r" and "length key = kind_key_size k"
  shows "read_to_end n P cap r es \<noteq> Some Panic"
  using read_to_end_safe [OF assms(1), of r] new_reader [OF assms(2)] assms(3) by (simp add: read_safe_def)

theorem tcp_reader_no_panic_witness:
  "\<exists>r. DecryptedReader_new AES_128_GCM (replicate 16 1) = (Ok r :: (unit, _) res)
    \<and> read_to_end 10 null_prims 4 r [RData (replicate 40 255), RPending, RData [7]] \<noteq> Some Panic"
proof -
  obtain r where r: "DecryptedReader_new AES_128_GCM (replicate 16 1) = (Ok r :: (unit, _) res)"
    by (simp add: DecryptedReader_new_def salt_len_def)
  from tcp_reader_no_panic [OF null_prims_laws r] r show ?thesis by auto
qed

end
