(* ===== verification/SsConfig.thy ===== *)
theory SsConfig
  imports Crypto Address
begin

text \<open>
  The server configuration of \<^verbatim>\<open>lib/shadowsocks/src/config.rs\<close>: modes and weights, the configuration
  record, the parser of \<^verbatim>\<open>ss://\<close> URLs and the derivation of the encryption key from the password.

  The crates \<^verbatim>\<open>url\<close>, \<^verbatim>\<open>base64\<close>, \<^verbatim>\<open>percent_encoding\<close> and \<^verbatim>\<open>md5\<close> are the fields of \<open>url_libs\<close>. Parsing a
  QR code URL calls the parser again on the decoded text; that this ends, and that the loop deriving
  the key ends, is proved, so both are partial functions whose value \<^term>\<open>None\<close> means that the call
  does not return.
\<close>

section \<open>Data\<close>

datatype Mode = TcpOnly | UdpOnly | TcpAndUdp

definition enable_udp :: "Mode \<Rightarrow> bool" where
  "enable_udp m = (m = UdpOnly \<or> m = TcpAndUdp)"

definition enable_tcp :: "Mode \<Rightarrow> bool" where
  "enable_tcp m = (m = TcpOnly \<or> m = TcpAndUdp)"

record ServerWeight =
  tcp_weight :: rat
  udp_weight :: rat

definition ServerWeight_new :: ServerWeight where
  "ServerWeight_new = \<lparr>tcp_weight = 1, udp_weight = 1\<rparr>"

record ServerConfig =
  sc_addr :: Address
  sc_password :: string
  sc_method :: CipherKind
  sc_enc_key :: bytes
  sc_timeout :: "nat option"
  sc_identity_keys :: "bytes list"
  sc_remarks :: "string option"
  sc_id :: "string option"
  sc_mode :: Mode
  sc_weight :: ServerWeight

datatype UrlParseError = ParseError string | InvalidScheme | InvalidUserInfo | MissingHost
  | InvalidAuthInfo | InvalidServerAddr | InvalidQueryString

record parsed_url =
  url_scheme :: string
  url_username :: string
  url_password :: "string option"
  url_host :: "string option"
  url_port :: "u16 option"
  url_fragment :: "string option"

record url_libs =
  url_parse :: "string \<Rightarrow> string + parsed_url"
  b64_url_decode :: "string \<Rightarrow> bytes option"
  b64_std_decode :: "string \<Rightarrow> bytes option"
  percent_decode_utf8 :: "string \<Rightarrow> string option"
  percent_decode_lossy :: "string \<Rightarrow> string"
  md5 :: "bytes \<Rightarrow> bytes"

section \<open>Key derivation\<close>

partial_function (option) bytes_to_key_loop ::
    "(bytes \<Rightarrow> bytes) \<Rightarrow> bytes \<Rightarrow> bytes option \<Rightarrow> nat \<Rightarrow> bytes \<Rightarrow> bytes option" where
  "bytes_to_key_loop h password last_digest offset key =
     (if offset < length key then
        (let digest = h ((case last_digest of None \<Rightarrow> [] | Some d \<Rightarrow> d) @ password);
             amt = min (length key - offset) (length digest) in
         bytes_to_key_loop h password (Some digest) (offset + amt)
           (take offset key @ take amt digest @ drop (offset + amt) key))
      else Some key)"

definition bytes_to_key :: "url_libs \<Rightarrow> bytes \<Rightarrow> bytes \<Rightarrow> bytes option" where
  "bytes_to_key L password key = bytes_to_key_loop (md5 L) password None 0 key"

definition make_derived_key :: "url_libs \<Rightarrow> CipherKind \<Rightarrow> string \<Rightarrow> bytes \<Rightarrow> ('e, bytes) res option" where
  "make_derived_key L kind password enc_key =
     (if is_aead2022 kind then
        (case b64_std_decode L password of
           Some v \<Rightarrow> Some (if length v \<noteq> length enc_key then Panic else Ok v)
         | None \<Rightarrow> Some Panic)
      else map_option Ok (bytes_to_key L (as_bytes password) enc_key))"

definition password_to_keys ::
    "url_libs \<Rightarrow> CipherKind \<Rightarrow> string \<Rightarrow> ('e, string \<times> bytes \<times> bytes list) res option" where
  "password_to_keys L kind password =
     (case key_len kind :: (unit, nat) res of
        Ok n \<Rightarrow> map_option (map_ok (\<lambda>enc_key. (password, enc_key, [])))
          (make_derived_key L kind password (replicate n 0))
      | _ \<Rightarrow> Some Panic)"

section \<open>The configuration\<close>

definition ServerConfig_new ::
    "url_libs \<Rightarrow> Address \<Rightarrow> string \<Rightarrow> CipherKind \<Rightarrow> ('e, ServerConfig) res option" where
  "ServerConfig_new L addr password method =
     map_option (map_ok (\<lambda>(password, enc_key, identity_keys).
       \<lparr>sc_addr = addr, sc_password = password, sc_method = method, sc_enc_key = enc_key,
        sc_timeout = None, sc_identity_keys = identity_keys, sc_remarks = None, sc_id = None,
        sc_mode = TcpAndUdp, sc_weight = ServerWeight_new\<rparr>))
     (password_to_keys L method password)"

definition tcp_enabled :: "ServerConfig \<Rightarrow> bool" where
  "tcp_enabled c = (enable_tcp (sc_mode c) \<and> tcp_weight (sc_weight c) > 0)"

definition udp_enabled :: "ServerConfig \<Rightarrow> bool" where
  "udp_enabled c = (enable_udp (sc_mode c) \<and> udp_weight (sc_weight c) > 0)"

definition method_support_eih :: "CipherKind \<Rightarrow> bool" where
  "method_support_eih m = (m = AEAD2022_BLAKE3_AES_128_GCM \<or> m = AEAD2022_BLAKE3_AES_256_GCM)"

definition url_auth :: "url_libs \<Rightarrow> parsed_url \<Rightarrow> (UrlParseError, string \<times> string) res" where
  "url_auth L parsed = (case url_password parsed of
     Some password \<Rightarrow>
       (case percent_decode_utf8 L (url_username parsed) of
          None \<Rightarrow> Err InvalidAuthInfo
        | Some m \<Rightarrow> (case percent_decode_utf8 L password of
            None \<Rightarrow> Err InvalidAuthInfo
          | Some p \<Rightarrow> Ok (m, p)))
   | None \<Rightarrow>
       (case b64_url_decode L (url_username parsed) of
          Some account \<Rightarrow> (case from_utf8 account of
            None \<Rightarrow> Err InvalidAuthInfo
          | Some ac \<Rightarrow> (case splitn2 (CHR '':'') ac of
              (m, Some p) \<Rightarrow> Ok (m, p)
            | (_, None) \<Rightarrow> Err InvalidUserInfo))
        | None \<Rightarrow> Err InvalidUserInfo))"

definition url_addr :: "parsed_url \<Rightarrow> (UrlParseError, Address) res" where
  "url_addr parsed = (case url_host parsed of
     None \<Rightarrow> Err MissingHost
   | Some host \<Rightarrow>
       map_err (\<lambda>_. InvalidServerAddr)
         (Address_from_str (host @ '':'' @ show_nat (unat (case url_port parsed of None \<Rightarrow> 8388 | Some p \<Rightarrow> p)))))"

text \<open>\<^verbatim>\<open>method.parse().expect("method")\<close> panics on an unknown method.\<close>

definition url_config ::
    "url_libs \<Rightarrow> parsed_url \<Rightarrow> string \<Rightarrow> string \<Rightarrow> Address \<Rightarrow> (UrlParseError, ServerConfig) res option" where
  "url_config L parsed m pwd addr = (case CipherKind_from_str m of
     Ok method \<Rightarrow>
       map_option (map_ok (\<lambda>svrconfig. case url_fragment parsed of
           None \<Rightarrow> svrconfig
         | Some frag \<Rightarrow> svrconfig\<lparr>sc_remarks := Some (percent_decode_lossy L frag)\<rparr>))
         (ServerConfig_new L addr pwd method)
   | _ \<Rightarrow> Some Panic)"

partial_function (option) from_url :: "url_libs \<Rightarrow> string \<Rightarrow> (UrlParseError, ServerConfig) res option" where
  "from_url L encoded = (case url_parse L encoded of
     Inl e \<Rightarrow> Some (Err (ParseError e))
   | Inr parsed \<Rightarrow>
       if url_scheme parsed \<noteq> ''ss'' then Some (Err InvalidScheme)
       else if url_username parsed = [] then
         (case url_host parsed of
            None \<Rightarrow> Some (Err MissingHost)
          | Some e \<Rightarrow> (case b64_url_decode L e of
              None \<Rightarrow> Some (Err InvalidServerAddr)
            | Some b \<Rightarrow> (case from_utf8 b of
                None \<Rightarrow> Some (Err InvalidServerAddr)
              | Some decoded_body \<Rightarrow> from_url L (''ss://'' @ decoded_body))))
       else (case url_auth L parsed of
          Ok (m, pwd) \<Rightarrow> (case url_addr parsed of
            Ok addr \<Rightarrow> url_config L parsed m pwd addr
          | Err e \<Rightarrow> Some (Err e)
          | Panic \<Rightarrow> Some Panic)
        | Err e \<Rightarrow> Some (Err e)
        | Panic \<Rightarrow> Some Panic))"

record ServerUser =
  su_name :: string
  su_key :: bytes
  su_identity_hash :: bytes

section \<open>The derived key\<close>

text \<open>The stream of digests \<open>D\<^sub>1 = h password\<close>, \<open>D\<^sub>i\<^sub>+\<^sub>1 = h (D\<^sub>i @ password)\<close> of OpenSSL's \<^verbatim>\<open>EVP_BytesToKey\<close>.\<close>

fun evp_stream :: "(bytes \<Rightarrow> bytes) \<Rightarrow> bytes \<Rightarrow> bytes \<Rightarrow> nat \<Rightarrow> bytes" where
  "evp_stream h password prev 0 = []"
| "evp_stream h password prev (Suc k) =
     (let d = h (prev @ password) in d @ evp_stream h password d k)"

definition evp_key :: "url_libs \<Rightarrow> string \<Rightarrow> nat \<Rightarrow> bytes" where
  "evp_key L password n = take n (evp_stream (md5 L) (as_bytes password) [] n)"

definition md5_law :: "url_libs \<Rightarrow> bool" where
  "md5_law L = (\<forall>m. length (md5 L m) = 16)"

lemma length_evp_stream: "\<forall>m. length (h m) = 16 \<Longrightarrow> length (evp_stream h pw prev k) = 16 * k"
  by (induction k arbitrary: prev) (auto simp: Let_def)

lemma length_evp_key: "md5_law L \<Longrightarrow> length (evp_key L pw n) = n"
  by (simp add: evp_key_def md5_law_def length_evp_stream)

lemma bytes_to_key_loop_evp:
  assumes "\<forall>m. length (h m) = 16" and "offset \<le> length key" and "length key \<le> offset + 16 * k"
  shows "bytes_to_key_loop h pw prev offset key =
    Some (take offset key @
      take (length key - offset) (evp_stream h pw (case prev of None \<Rightarrow> [] | Some d \<Rightarrow> d) k))"
  using assms(2,3)
proof (induction k arbitrary: prev offset key)
  case 0
  then show ?case by (subst bytes_to_key_loop.simps) simp
next
  case (Suc k)
  let ?d = "h ((case prev of None \<Rightarrow> [] | Some d \<Rightarrow> d) @ pw)"
  let ?amt = "min (length key - offset) 16"
  have d: "length ?d = 16" using assms(1) by simp
  show ?case
  proof (cases "offset < length key")
    case True
    let ?key = "take offset key @ take ?amt ?d @ drop (offset + ?amt) key"
    have len: "length ?key = length key" using True d by simp
    have "bytes_to_key_loop h pw prev offset key = bytes_to_key_loop h pw (Some ?d) (offset + ?amt) ?key"
      using True d by (subst bytes_to_key_loop.simps) (simp add: Let_def)
    also have "\<dots> = Some (take (offset + ?amt) ?key @
        take (length key - (offset + ?amt)) (evp_stream h pw ?d k))"
      using Suc.IH [of "offset + ?amt" ?key "Some ?d"] Suc.prems True unfolding len by simp
    finally show ?thesis using True d by (simp add: Let_def min_def)
  next
    case False
    with Suc.prems show ?thesis by (subst bytes_to_key_loop.simps) simp
  qed
qed

lemma bytes_to_key_evp:
  assumes "md5_law L"
  shows "bytes_to_key L (as_bytes pw) key = Some (evp_key L pw (length key))"
  using assms bytes_to_key_loop_evp [of "md5 L" 0 key "length key" "as_bytes pw" None]
  by (simp add: bytes_to_key_def evp_key_def md5_law_def)

section \<open>Parsing URLs\<close>

definition b64_char :: "char \<Rightarrow> bool" where
  "b64_char c = (c \<in> set ''ABCDEFGHIJKLMNOPQRSTUVWXYZabcdefghijklmnopqrstuvwxyz0123456789-_='')"

text \<open>
  What the parser relies on.  URL-safe base64 decodes four characters of its alphabet, or of the
  padding that may end them, to at most three bytes.  The scheme \<^verbatim>\<open>ss\<close> is not one of the special
  schemes of the URL standard, so that the host of such a URL only exists after \<^verbatim>\<open>://\<close>, is reported
  absent when it is empty, and is opaque: no domain name rule applies, and it is the text that
  stands in the URL unless it is an IPv6 address or some of its characters had to be escaped with
  \<^verbatim>\<open>%\<close>.  Nothing is said about the hosts of other schemes.
\<close>

definition url_law :: "url_libs \<Rightarrow> bool" where
  "url_law L =
     ((\<forall>e bs. b64_url_decode L e = Some bs \<longrightarrow> list_all b64_char e \<and> 4 * length bs \<le> 3 * length e)
    \<and> (\<forall>s u e. url_parse L s = Inr u \<and> url_scheme u = ''ss'' \<and> url_host u = Some e \<longrightarrow>
         e \<noteq> [] \<and> (list_all b64_char e \<longrightarrow> length ''ss://'' + length e \<le> length s)))"

text \<open>A usable configuration: an AEAD cipher with the key derived from its password, both transports on.\<close>

definition config_ok :: "url_libs \<Rightarrow> ServerConfig \<Rightarrow> bool" where
  "config_ok L c = (is_aead (sc_method c)
     \<and> sc_enc_key c = evp_key L (sc_password c) (kind_key_size (sc_method c))
     \<and> length (sc_enc_key c) = kind_key_size (sc_method c)
     \<and> tcp_enabled c \<and> udp_enabled c \<and> sc_identity_keys c = [] \<and> sc_timeout c = None)"

definition fresh_config :: "url_libs \<Rightarrow> Address \<Rightarrow> string \<Rightarrow> CipherKind \<Rightarrow> ServerConfig" where
  "fresh_config L addr pw k =
     \<lparr>sc_addr = addr, sc_password = pw, sc_method = k, sc_enc_key = evp_key L pw (kind_key_size k),
      sc_timeout = None, sc_identity_keys = [], sc_remarks = None, sc_id = None,
      sc_mode = TcpAndUdp, sc_weight = ServerWeight_new\<rparr>"

lemma is_aead_not_2022: "is_aead k \<longleftrightarrow> \<not> is_aead2022 k"
  by (cases k) (auto simp: is_aead_def is_aead2022_def)

lemma ServerConfig_new_cases:
  assumes "md5_law L"
  shows "ServerConfig_new L addr pw k = Some (if is_aead k then Ok (fresh_config L addr pw k) else Panic)"
proof (cases "is_aead k")
  case True
  then have "\<not> is_aead2022 k" by (simp add: is_aead_not_2022)
  with True assms show ?thesis
    by (simp add: ServerConfig_new_def password_to_keys_def make_derived_key_def bytes_to_key_evp aead_lens
        fresh_config_def)
next
  case False
  then have "key_len k = (Panic :: (unit, nat) res)" by (cases k) (auto simp: is_aead_def)
  with False show ?thesis by (simp add: ServerConfig_new_def password_to_keys_def)
qed

lemma fresh_config_ok: "md5_law L \<Longrightarrow> is_aead k \<Longrightarrow> config_ok L (fresh_config L addr pw k)"
  by (simp add: config_ok_def fresh_config_def tcp_enabled_def udp_enabled_def enable_tcp_def
      enable_udp_def ServerWeight_new_def length_evp_key)

lemma config_ok_remarks [simp]: "config_ok L (c\<lparr>sc_remarks := r\<rparr>) = config_ok L c"
  by (simp add: config_ok_def tcp_enabled_def udp_enabled_def)

lemma url_config_cases:
  assumes "md5_law L"
  shows "\<exists>r. url_config L u m pwd addr = Some r \<and> (\<forall>c. r = Ok c \<longrightarrow> config_ok L c)"
  using fresh_config_ok [OF assms]
  by (auto simp: url_config_def ServerConfig_new_cases [OF assms] split: res.split option.splits)

lemma from_url_cases:
  assumes "md5_law L" and "url_law L"
  shows "\<exists>r. from_url L s = Some r \<and> (\<forall>c. r = Ok c \<longrightarrow> config_ok L c)"
proof (induction "length s" arbitrary: s rule: less_induct)
  case less
  have rec: "length (''ss://'' @ body) < length s"
    if "url_parse L s = Inr u" "url_scheme u = ''ss''" "url_host u = Some e" "b64_url_decode L e = Some b"
      "from_utf8 b = Some body" for u e b body
  proof -
    have "list_all b64_char e" and "4 * length b \<le> 3 * length e" using that(4) assms(2) by (auto simp: url_law_def)
    moreover have "e \<noteq> []" using that(1,2,3) assms(2) unfolding url_law_def by blast
    moreover have "length ''ss://'' + length e \<le> length s"
      using that(1,2,3) assms(2) \<open>list_all b64_char e\<close> unfolding url_law_def by blast
    moreover have "length body = length b" using that(5) by (auto simp: from_utf8_eq_Some)
    moreover have "0 < length e" using \<open>e \<noteq> []\<close> by simp
    ultimately show ?thesis using that(2) by (simp del: length_greater_0_conv)
  qed
  show ?case
    using url_config_cases [OF assms(1)] less [OF rec]
    by (subst from_url.simps) (auto split: sum.split option.split res.split)
qed

lemma valid_utf8_ascii_append: "is_ascii s \<Longrightarrow> valid_utf8 (as_bytes s @ bs) = valid_utf8 bs"
  by (induction s) (auto simp: is_ascii_def as_bytes_def)

lemma CipherKind_fmt_text: "is_ascii (CipherKind_fmt k @ '':'')" "CHR '':'' \<notin> set (CipherKind_fmt k)"
  by (cases k; simp add: is_ascii_def)+

lemma CipherKind_from_str_fmt: "CipherKind_from_str (CipherKind_fmt k) = Ok k"
  by (cases k) (simp_all add: CipherKind_from_str_def)

lemma url_auth_sip002:
  assumes "url_password u = None" and "valid_utf8 (as_bytes pw)"
    and "b64_url_decode L (url_username u) = Some (as_bytes (CipherKind_fmt k @ '':'' @ pw))"
  shows "url_auth L u = Ok (CipherKind_fmt k, pw)"
proof -
  have "valid_utf8 (as_bytes (CipherKind_fmt k @ '':'' @ pw))"
    using valid_utf8_ascii_append [OF CipherKind_fmt_text(1), of k "as_bytes pw"] assms(2) by (simp add: as_bytes_def)
  then have "from_utf8 (as_bytes (CipherKind_fmt k @ '':'' @ pw)) = Some (CipherKind_fmt k @ '':'' @ pw)"
    by (rule from_utf8_as_bytes)
  then show ?thesis
    using assms(1,3) splitn2_Some [OF CipherKind_fmt_text(2), of k pw]
    by (simp add: url_auth_def del: as_bytes_append)
qed

section \<open>Properties\<close>

text \<open>
  C26: the key derived from a password is that of \<^verbatim>\<open>EVP_BytesToKey\<close>: the loop ends for every key length,
  and fills the whole key with a prefix of the stream of chained digests.
\<close>

theorem derived_key_is_evp:
  assumes "md5_law L"
  shows "bytes_to_key L (as_bytes pw) key =
    Some (take (length key) (evp_stream (md5 L) (as_bytes pw) [] (length key)))"
  using bytes_to_key_evp [OF assms] by (simp add: evp_key_def)

text \<open>
  Concrete libraries for the witnesses: two URLs of the same server, one with base64 user information,
  one fully encoded as in a QR code.
\<close>

definition demo_libs :: url_libs where
  "demo_libs =
    \<lparr>url_parse = (\<lambda>s. if s = ''ss://YWVzLTI1Ni1nY206cHc@h.io:443'' then
        Inr \<lparr>url_scheme = ''ss'', url_username = ''YWVzLTI1Ni1nY206cHc'', url_password = None,
             url_host = Some ''h.io'', url_port = Some 443, url_fragment = None\<rparr>
       else if s = ''ss://aes-256-gcm:pw@h.io:443'' then
        Inr \<lparr>url_scheme = ''ss'', url_username = ''aes-256-gcm'', url_password = Some ''pw'',
             url_host = Some ''h.io'', url_port = Some 443, url_fragment = None\<rparr>
       else if s = ''ss://YWVzLTI1Ni1nY206cHdAaC5pbzo0NDM'' then
        Inr \<lparr>url_scheme = ''ss'', url_username = [], url_password = None,
             url_host = Some ''YWVzLTI1Ni1nY206cHdAaC5pbzo0NDM'', url_port = None, url_fragment = None\<rparr>
       else Inl ''relative URL without a base''),
     b64_url_decode = (\<lambda>s. if s = ''YWVzLTI1Ni1nY206cHc'' then Some (as_bytes ''aes-256-gcm:pw'')
       else if s = ''YWVzLTI1Ni1nY206cHdAaC5pbzo0NDM'' then Some (as_bytes ''aes-256-gcm:pw@h.io:443'')
       else None),
     b64_std_decode = (\<lambda>s. None),
     percent_decode_utf8 = Some, percent_decode_lossy = (\<lambda>s. s),
     md5 = (\<lambda>m. replicate 16 (of_nat (length m)))\<rparr>"

lemma demo_libs_laws: "md5_law demo_libs" "url_law demo_libs"
  by (auto simp: md5_law_def url_law_def demo_libs_def b64_char_def split: if_splits)

theorem derived_key_is_evp_witness:
  "md5_law demo_libs \<and> bytes_to_key demo_libs (as_bytes ''ab'') (replicate 20 0) =
     Some (replicate 16 2 @ replicate 4 18)"
  using derived_key_is_evp [OF demo_libs_laws(1), of "''ab''" "replicate 20 0"] demo_libs_laws(1)
  by (simp add: demo_libs_def numeral_nat Let_def)

text \<open>
  C27: parsing a URL always returns, also when it is a QR code whose text has to be decoded and parsed
  again; and every configuration it returns is usable: its method is one of the implemented ciphers,
  its key has the length the cipher needs and is the one derived from its password, and both TCP and
  UDP are enabled.
\<close>

theorem from_url_returns_usable:
  assumes "md5_law L" and "url_law L"
  shows "\<exists>r. from_url L s = Some r \<and> (\<forall>c. r = Ok c \<longrightarrow> config_ok L c)"
  using assms by (rule from_url_cases)

theorem from_url_returns_usable_witness:
  "md5_law demo_libs \<and> url_law demo_libs
   \<and> (\<exists>r. from_url demo_libs ''ss://YWVzLTI1Ni1nY206cHdAaC5pbzo0NDM'' = Some r
       \<and> (\<forall>c. r = Ok c \<longrightarrow> config_ok demo_libs c))"
  using from_url_returns_usable [OF demo_libs_laws] demo_libs_laws by blast

text \<open>
  C30: a SIP002 URL \<^verbatim>\<open>ss://BASE64(method:password)@host:port#name\<close>, whatever its method and whether
  its host is a domain, an IPv4 address or a bracketed IPv6 address: with one of the two AEAD
  methods it yields the configuration of that method, password and address, on port 8388 when
  the URL names none, with the decoded fragment as its remark; with one of the four AEAD-2022
  methods the program panics.
\<close>

theorem from_url_sip002:
  assumes "md5_law L" and "valid_utf8 (as_bytes pw)"
    and "url_parse L s = Inr \<lparr>url_scheme = ''ss'', url_username = ui, url_password = None,
      url_host = Some host, url_port = p, url_fragment = f\<rparr>"
    and "ui \<noteq> []" and "b64_url_decode L ui = Some (as_bytes (CipherKind_fmt k @ '':'' @ pw))"
    and "host_names host (case p of None \<Rightarrow> 8388 | Some q \<Rightarrow> q) addr"
  shows "from_url L s = Some (if k \<in> {AES_128_GCM, AES_256_GCM} then Ok
    \<lparr>sc_addr = addr, sc_password = pw, sc_method = k,
     sc_enc_key = evp_key L pw (kind_key_size k), sc_timeout = None, sc_identity_keys = [],
     sc_remarks = map_option (percent_decode_lossy L) f, sc_id = None,
     sc_mode = TcpAndUdp, sc_weight = ServerWeight_new\<rparr> else Panic)"
proof -
  let ?u = "\<lparr>url_scheme = ''ss'', url_username = ui, url_password = None, url_host = Some host,
    url_port = p, url_fragment = f\<rparr>"
  have auth: "url_auth L ?u = Ok (CipherKind_fmt k, pw)" using assms(2,5) by (intro url_auth_sip002) simp_all
  have addr: "url_addr ?u = Ok addr"
    using Address_from_str_host [OF assms(6)] by (simp add: url_addr_def)
  have "from_url L s = url_config L ?u (CipherKind_fmt k) pw addr"
    using assms(3,4) auth addr by (subst from_url.simps) simp
  then show ?thesis
    using assms(1)
    by (simp add: url_config_def CipherKind_from_str_fmt ServerConfig_new_cases fresh_config_def is_aead_def
        split: option.split)
qed

theorem from_url_sip002_witness:
  "md5_law demo_libs
   \<and> map_option (map_ok sc_addr) (from_url demo_libs ''ss://YWVzLTI1Ni1nY206cHc@h.io:443'')
     = Some (Ok (DomainNameAddress ''h.io'' 443))"
proof -
  have "host_names ''h.io'' 443 (DomainNameAddress ''h.io'' 443)"
    by (rule names_domain) (simp_all add: read_ipv4_def read_octet_def read_number_def radix_digits_10 is_digit_def)
  then have "from_url demo_libs ''ss://YWVzLTI1Ni1nY206cHc@h.io:443'' = Some (Ok
    \<lparr>sc_addr = DomainNameAddress ''h.io'' 443, sc_password = ''pw'', sc_method = AES_256_GCM,
     sc_enc_key = evp_key demo_libs ''pw'' 32, sc_timeout = None, sc_identity_keys = [],
     sc_remarks = None, sc_id = None, sc_mode = TcpAndUdp, sc_weight = ServerWeight_new\<rparr>)"
    using from_url_sip002 [OF demo_libs_laws(1), of "''pw''" "''ss://YWVzLTI1Ni1nY206cHc@h.io:443''"
        "''YWVzLTI1Ni1nY206cHc''" "''h.io''" "Some 443" None AES_256_GCM "DomainNameAddress ''h.io'' 443"]
    by (simp add: demo_libs_def valid_utf8_ascii is_ascii_def)
  then show ?thesis using demo_libs_laws(1) by simp
qed

end
