(* ===== verification/TcpAead2022.thy ===== *)
theory TcpAead2022
  imports TcpStream SsConfig
begin

text \<open>
  \<^verbatim>\<open>lib/shadowsocks/src/tcp/aead2022.rs\<close> and \<^verbatim>\<open>sys/linux.rs\<close>: the reader and the writer of the AEAD-2022
  TCP protocol, whose streams start with a header of type and time stamp.  Sockets, ciphers and the
  loop that fills a buffer are those of \<^verbatim>\<open>tcp/aead.rs\<close>; the hash function BLAKE3 and the block cipher AES
  are parameters.  The clock is read once for each header.
\<close>

section \<open>Time stamps\<close>

record timespec =
  tv_sec :: u64
  tv_nsec :: u64

definition get_now_timestamp :: "timespec \<Rightarrow> u64" where
  "get_now_timestamp tp = push_bit 32 (tv_sec tp) OR drop_bit 31 (tv_nsec tp * 9223372037)"

definition abs_diff :: "u64 \<Rightarrow> u64 \<Rightarrow> u64" where
  "abs_diff a b = (if a < b then b - a else a - b)"

definition SERVER_STREAM_TIMESTAMP_MAX_DIFF :: u64 where "SERVER_STREAM_TIMESTAMP_MAX_DIFF = 30"

text \<open>\<^verbatim>\<open>lib.rs\<close>: packets without payload are padded by a random amount.\<close>

definition AEAD2022_MAX_PADDING_SIZE :: nat where "AEAD2022_MAX_PADDING_SIZE = 900"

definition get_aead_2022_padding_size :: "nat \<Rightarrow> bytes \<Rightarrow> nat" where
  "get_aead_2022_padding_size rnd payload = (if payload = [] then rnd mod AEAD2022_MAX_PADDING_SIZE else 0)"

section \<open>The reader\<close>

definition AEAD2022_MAX_PACKET_SIZE :: nat where "AEAD2022_MAX_PACKET_SIZE = 0xFFFF"

text \<open>A user identity is only ever printed; it is the text \<^verbatim>\<open>ByteStr\<close> prints for it.\<close>

datatype TcpAead2022Error = Tcp2022_IoError io_error | Tcp2022_HeaderTooShort nat nat
  | MissingExtendedIdentityHeader | Tcp2022_InvalidClientUser string | DecryptHeaderChunkError
  | Tcp2022_DecryptDataError | Tcp2022_DecryptLengthError | InvalidStreamType byte byte
  | Tcp2022_InvalidTimestamp u64 u64

fun TcpAead2022Error_fmt :: "TcpAead2022Error \<Rightarrow> string" where
  "TcpAead2022Error_fmt (Tcp2022_IoError e) = err_msg e"
| "TcpAead2022Error_fmt (Tcp2022_HeaderTooShort a b) =
     ''header too short, expecting '' @ show_nat a @ '' bytes, but found '' @ show_nat b @ '' bytes''"
| "TcpAead2022Error_fmt MissingExtendedIdentityHeader = ''missing extended identity header''"
| "TcpAead2022Error_fmt (Tcp2022_InvalidClientUser u) = ''invalid client user identity '' @ u"
| "TcpAead2022Error_fmt DecryptHeaderChunkError = ''decrypt header chunk failed''"
| "TcpAead2022Error_fmt Tcp2022_DecryptDataError = ''decrypt data failed''"
| "TcpAead2022Error_fmt Tcp2022_DecryptLengthError = ''decrypt length failed''"
| "TcpAead2022Error_fmt (InvalidStreamType a b) =
     ''invalid stream type, expecting 0x'' @ show_hex (unat a) @ '', but found 0x'' @ show_hex (unat b)"
| "TcpAead2022Error_fmt (Tcp2022_InvalidTimestamp t now) =
     ''invalid timestamp '' @ show_nat (unat t) @ '' - now '' @ show_nat (unat now) @ '' = '' @ show_i64 (t - now)"

fun TcpAead2022Error_into_io :: "TcpAead2022Error \<Rightarrow> io_error" where
  "TcpAead2022Error_into_io (Tcp2022_IoError e) = e"
| "TcpAead2022Error_into_io e = IoError Other (TcpAead2022Error_fmt e)"

datatype DecryptReadState_2022 = ReadHeader bytes | ReadLength_2022 | ReadData_2022 nat | BufferedData_2022 nat

text \<open>As in \<^verbatim>\<open>tcp/aead.rs\<close>, the buffer comes with the capacity that was asked for so far.\<close>

record DecryptedReader_2022 =
  d_state :: DecryptReadState_2022
  d_cipher :: "Cipher option"
  d_buffer :: bytes
  d_cap :: nat
  d_kind :: CipherKind
  d_salt :: "bytes option"
  d_request_salt :: "bytes option"
  d_chunk_count :: u64
  d_user_key :: "bytes option"
  d_handshaked :: bool

definition DecryptedReader_2022_new :: "CipherKind \<Rightarrow> bytes \<Rightarrow> DecryptedReader_2022" where
  "DecryptedReader_2022_new kind key =
     \<lparr>d_state = ReadHeader key, d_cipher = None, d_buffer = [], d_cap = 0, d_kind = kind, d_salt = None,
      d_request_salt = None, d_chunk_count = 0, d_user_key = None, d_handshaked = False\<rparr>"

definition request_salt_2022 :: "DecryptedReader_2022 \<Rightarrow> bytes option" where
  "request_salt_2022 r = (case d_request_salt r of
     Some n \<Rightarrow> if n = [] then None else Some n
   | None \<Rightarrow> None)"

definition current_data_chunk_remaining_2022 :: "DecryptedReader_2022 \<Rightarrow> u64 \<times> nat" where
  "current_data_chunk_remaining_2022 r = (case d_state r of
     BufferedData_2022 pos \<Rightarrow> (d_chunk_count r, length (d_buffer r) - pos)
   | _ \<Rightarrow> (d_chunk_count r, 0))"

text \<open>
  The header chunk: the salt in front of it gives the cipher.  The chunk is decrypted in place, so the
  buffer holds the plaintext also when the header is refused.
\<close>

definition open_header :: "crypto_prims \<Rightarrow> u64 \<Rightarrow> bytes \<Rightarrow> nat \<Rightarrow> nat \<Rightarrow> DecryptedReader_2022
    \<Rightarrow> (TcpAead2022Error, nat option) res \<times> DecryptedReader_2022" where
  "open_header P now key slen header_len r =
     (let salt = take slen (d_buffer r);
          header_chunk = drop slen (take header_len (d_buffer r)) in
      case Cipher_new P (d_kind r) key salt of
        Err e \<Rightarrow> (Err e, r)
      | Panic \<Rightarrow> (Panic, r)
      | Ok ci \<Rightarrow> (case Cipher_decrypt P ci header_chunk of
          Err e \<Rightarrow> (Err e, r)
        | Panic \<Rightarrow> (Panic, r)
        | Ok (ci, ok, m) \<Rightarrow>
            (let r = r\<lparr>d_buffer := salt @ m @ drop header_len (d_buffer r)\<rparr>;
                 stream_ty = m ! 0;
                 timestamp = of_be 0 (take 8 (drop 1 m)) in
             if \<not> ok then (Err DecryptHeaderChunkError, r)
             else if stream_ty \<noteq> 1 then (Err (InvalidStreamType 1 stream_ty), r)
             else if abs_diff now timestamp > SERVER_STREAM_TIMESTAMP_MAX_DIFF
             then (Err (Tcp2022_InvalidTimestamp timestamp now), r)
             else
               (let r = (if slen > 0 then r\<lparr>d_request_salt := Some (take slen (drop 9 m))\<rparr> else r);
                    data_length = of_be16 (m ! (9 + slen)) (m ! (10 + slen)) in
                (Ok (Some (unat data_length)), r\<lparr>d_salt := Some salt, d_cipher := Some ci\<rparr>)))))"

definition poll_read_header :: "crypto_prims \<Rightarrow> u64 \<Rightarrow> bytes \<Rightarrow> DecryptedReader_2022 \<Rightarrow> read_event list
    \<Rightarrow> (TcpAead2022Error, nat option) poll \<times> DecryptedReader_2022 \<times> read_event list" where
  "poll_read_header P now key r es =
     (case bind_res (salt_len (d_kind r)) (\<lambda>s. bind_res (tag_len (d_kind r)) (\<lambda>t. Ok (s, t))) of
        Err e \<Rightarrow> (Ready (Err e), r, es)
      | Panic \<Rightarrow> (Ready Panic, r, es)
      | Ok (slen, tlen) \<Rightarrow>
          (let request_salt_len = slen;
               eih_len = 0;
               header_len = slen + eih_len + 1 + 8 + request_salt_len + 2 + tlen;
               r = (if length (d_buffer r) < header_len
                    then r\<lparr>d_buffer := resize header_len (d_buffer r), d_cap := max (d_cap r) header_len\<rparr> else r) in
           case poll_read header_len es of
             (Pending, es) \<Rightarrow> (Pending, r, es)
           | (Ready (Err e), es) \<Rightarrow> (Ready (Err (Tcp2022_IoError e)), r, es)
           | (Ready Panic, es) \<Rightarrow> (Ready Panic, r, es)
           | (Ready (Ok header_buf), es) \<Rightarrow>
               (let r = r\<lparr>d_buffer := header_buf @ drop (length header_buf) (d_buffer r)\<rparr> in
                if header_buf = [] then (Ready (Ok None), r, es)
                else if length header_buf \<noteq> header_len
                then (Ready (Err (Tcp2022_HeaderTooShort header_len (length header_buf))), r, es)
                else (case open_header P now key slen header_len r of (x, r) \<Rightarrow> (Ready x, r, es)))))"

text \<open>A slice of the spare capacity that is too short for what remains panics, as in \<^const>\<open>pool_read_exact\<close>.\<close>

definition poll_read_exact_2022 :: "nat \<Rightarrow> DecryptedReader_2022 \<Rightarrow> read_event list
    \<Rightarrow> (io_error, nat) poll \<times> DecryptedReader_2022 \<times> read_event list" where
  "poll_read_exact_2022 sz r es =
     (if sz = 0 then (Ready Panic, r, es)
      else if length (d_buffer r) < sz \<and> d_cap r - length (d_buffer r) < sz - length (d_buffer r) then (Ready Panic, r, es)
      else case read_exact_loop sz (d_buffer r) es of (p, buf, es') \<Rightarrow> (p, r\<lparr>d_buffer := buf\<rparr>, es'))"

definition decrypt_length_2022 :: "crypto_prims \<Rightarrow> Cipher \<Rightarrow> bytes \<Rightarrow> Cipher \<times> bytes \<times> (TcpAead2022Error, nat) res" where
  "decrypt_length_2022 P ci m = (case Cipher_decrypt P ci m of
     Ok (ci', ok, m') \<Rightarrow>
       (ci', m', if \<not> ok then Err Tcp2022_DecryptLengthError else Ok (unat (of_be16 (m' ! 0) (m' ! 1))))
   | Err e \<Rightarrow> (ci, m, Err e)
   | Panic \<Rightarrow> (ci, m, Panic))"

text \<open>The error of \<^verbatim>\<open>decrypt_length\<close> becomes an I/O error here.\<close>

definition poll_read_length_2022 :: "crypto_prims \<Rightarrow> DecryptedReader_2022 \<Rightarrow> read_event list
    \<Rightarrow> (io_error, nat option) poll \<times> DecryptedReader_2022 \<times> read_event list" where
  "poll_read_length_2022 P r es = (case tag_len (d_kind r) of
     Err e \<Rightarrow> (Ready (Err e), r, es)
   | Panic \<Rightarrow> (Ready Panic, r, es)
   | Ok n \<Rightarrow>
       and_then (poll_read_exact_2022 (2 + n) r es) (\<lambda>e. e) (\<lambda>m r es.
       if m = 0 then (Ready (Ok None), r, es)
       else case d_cipher r of
         None \<Rightarrow> (Ready Panic, r, es)
       | Some ci \<Rightarrow>
           (case decrypt_length_2022 P ci (take (2 + n) (d_buffer r)) of (ci', m', x) \<Rightarrow>
             (Ready (map_err TcpAead2022Error_into_io (map_ok Some x)),
              r\<lparr>d_cipher := Some ci', d_buffer := m' @ drop (2 + n) (d_buffer r)\<rparr>, es))))"

definition poll_read_data_2022 :: "crypto_prims \<Rightarrow> nat \<Rightarrow> DecryptedReader_2022 \<Rightarrow> read_event list
    \<Rightarrow> (TcpAead2022Error, unit) poll \<times> DecryptedReader_2022 \<times> read_event list" where
  "poll_read_data_2022 P sz r es = (case tag_len (d_kind r) of
     Err e \<Rightarrow> (Ready (Err e), r, es)
   | Panic \<Rightarrow> (Ready Panic, r, es)
   | Ok n \<Rightarrow>
       and_then (poll_read_exact_2022 (sz + n) r es) Tcp2022_IoError (\<lambda>m r es.
       if m = 0 then (Ready (Err (Tcp2022_IoError unexpected_eof)), r, es)
       else case d_cipher r of
         None \<Rightarrow> (Ready Panic, r, es)
       | Some ci \<Rightarrow>
           (case Cipher_decrypt P ci (take (sz + n) (d_buffer r)) of
              Err e \<Rightarrow> (Ready (Err e), r, es)
            | Panic \<Rightarrow> (Ready Panic, r, es)
            | Ok (ci', ok, m') \<Rightarrow>
                (let r = r\<lparr>d_cipher := Some ci', d_buffer := m' @ drop (sz + n) (d_buffer r)\<rparr> in
                 if \<not> ok then (Ready (Err Tcp2022_DecryptDataError), r, es)
                 else (Ready (Ok ()), r\<lparr>d_buffer := take sz (d_buffer r)\<rparr>, es)))))"

text \<open>One turn of the loop of \<^verbatim>\<open>poll_read_decrypted\<close>, in the form of \<^const>\<open>read_step\<close>.\<close>

definition reserve_tag_2022 :: "nat \<Rightarrow> DecryptedReader_2022 \<Rightarrow> read_event list
    \<Rightarrow> ((TcpAead2022Error, bytes) poll \<times> DecryptedReader_2022 \<times> read_event list) + (DecryptedReader_2022 \<times> read_event list)" where
  "reserve_tag_2022 n r es = (case tag_len (d_kind r) of
     Ok t \<Rightarrow> Inr (r\<lparr>d_cap := max (d_cap r) (length (d_buffer r) + (n + t))\<rparr>, es)
   | Err e \<Rightarrow> Inl (Ready (Err e), r, es)
   | Panic \<Rightarrow> Inl (Ready Panic, r, es))"

definition read_step_2022 :: "crypto_prims \<Rightarrow> u64 \<Rightarrow> nat \<Rightarrow> DecryptedReader_2022 \<Rightarrow> read_event list
    \<Rightarrow> ((TcpAead2022Error, bytes) poll \<times> DecryptedReader_2022 \<times> read_event list) + (DecryptedReader_2022 \<times> read_event list)" where
  "read_step_2022 P now cap r es = (case d_state r of
     ReadHeader key \<Rightarrow>
       step_then (poll_read_header P now key r es) (\<lambda>len r es. case len of
         None \<Rightarrow> Inl (Ready (Ok []), r, es)
       | Some n \<Rightarrow> reserve_tag_2022 n (r\<lparr>d_buffer := [], d_state := ReadData_2022 n, d_handshaked := True\<rparr>) es)
   | ReadLength_2022 \<Rightarrow>
       step_then (and_then (poll_read_length_2022 P r es) Tcp2022_IoError (\<lambda>x r es. (Ready (Ok x), r, es))) (\<lambda>len r es.
       case len of
         None \<Rightarrow> Inl (Ready (Ok []), r, es)
       | Some n \<Rightarrow> reserve_tag_2022 n (r\<lparr>d_buffer := [], d_state := ReadData_2022 n\<rparr>) es)
   | ReadData_2022 n \<Rightarrow>
       step_then (poll_read_data_2022 P n r es) (\<lambda>_ r es.
         Inr (r\<lparr>d_state := BufferedData_2022 0, d_chunk_count := d_chunk_count r + 1\<rparr>, es))
   | BufferedData_2022 pos \<Rightarrow>
       if pos < length (d_buffer r) then
         let buffered = drop pos (d_buffer r); consumed = min (length buffered) cap in
         Inl (Ready (Ok (take consumed buffered)), r\<lparr>d_state := BufferedData_2022 (pos + consumed)\<rparr>, es)
       else reserve_tag_2022 2 (r\<lparr>d_buffer := [], d_state := ReadLength_2022\<rparr>) es)"

text \<open>The loop ends for the reason the loop of \<^verbatim>\<open>tcp/aead.rs\<close> does.\<close>

definition read_weight_2022 :: "DecryptedReader_2022 \<Rightarrow> read_event list \<Rightarrow> nat" where
  "read_weight_2022 r es = 8 * length (stream_data es) + (case d_state r of
     ReadHeader _ \<Rightarrow> 7
   | ReadLength_2022 \<Rightarrow> if d_buffer r = [] then 3 else 6
   | ReadData_2022 _ \<Rightarrow> 5
   | BufferedData_2022 _ \<Rightarrow> 4)"

lemma poll_read_exact_2022_room:
  assumes "0 < sz" and "sz \<le> d_cap r"
  shows "poll_read_exact_2022 sz r es =
    (case read_exact_loop sz (d_buffer r) es of (p, buf, es') \<Rightarrow> (p, r\<lparr>d_buffer := buf\<rparr>, es'))"
proof -
  have "\<not> (length (d_buffer r) < sz \<and> d_cap r - length (d_buffer r) < sz - length (d_buffer r))"
    using assms(2) by arith
  with assms(1) show ?thesis by (simp only: poll_read_exact_2022_def if_False) simp
qed

lemma poll_read_exact_2022_shrinks:
  assumes "poll_read_exact_2022 sz r es = (p, r', es')"
  shows "length (stream_data es') \<le> length (stream_data es)"
    and "length (d_buffer r') + length (stream_data es') = length (d_buffer r) + length (stream_data es)"
proof -
  have "p = Ready Panic \<and> r' = r \<and> es' = es
      \<or> (\<exists>b. read_exact_loop sz (d_buffer r) es = (p, b, es') \<and> r' = r\<lparr>d_buffer := b\<rparr>)"
    using assms by (auto simp: poll_read_exact_2022_def split: if_splits prod.splits)
  then show sum: "length (d_buffer r') + length (stream_data es') = length (d_buffer r) + length (stream_data es)"
    by (auto dest!: read_exact_loop_data arg_cong [where f = length])
  have "length (d_buffer r) \<le> length (d_buffer r')"
    using assms read_exact_loop_grows by (auto simp: poll_read_exact_2022_def split: if_splits prod.splits)
  with sum show "length (stream_data es') \<le> length (stream_data es)" by simp
qed

lemma poll_read_shrinks: "poll_read cap es = (p, es') \<Longrightarrow> length (stream_data es') \<le> length (stream_data es)"
  using poll_read_data_le [of cap es p es'] by auto

lemma reserve_tag_2022_Inr: "reserve_tag_2022 n r es = Inr z \<Longrightarrow> \<exists>c. z = (r\<lparr>d_cap := c\<rparr>, es)"
  by (auto simp: reserve_tag_2022_def split: res.splits)

lemma poll_read_header_shrinks:
  "poll_read_header P now key r es = (p, r', es') \<Longrightarrow> length (stream_data es') \<le> length (stream_data es)"
  by (auto simp: poll_read_header_def Let_def split: res.splits poll.splits prod.splits if_splits dest!: poll_read_shrinks)

lemma poll_read_data_2022_Ok:
  "poll_read_data_2022 P n r es = (Ready (Ok u), r', es') \<Longrightarrow> length (stream_data es') \<le> length (stream_data es)"
  by (auto simp: poll_read_data_2022_def and_then_Ok Let_def split: res.splits if_splits option.splits prod.splits
      dest!: poll_read_exact_2022_shrinks(1))

lemma poll_read_length_2022_Some:
  assumes "poll_read_length_2022 P r es = (Ready (Ok (Some n)), r', es')"
  shows "length (stream_data es') \<le> length (stream_data es)"
    and "d_buffer r = [] \<Longrightarrow> length (stream_data es') < length (stream_data es)"
proof -
  obtain m tn r1 where 1: "poll_read_exact_2022 (2 + tn) r es = (Ready (Ok m), r1, es')" "m \<noteq> 0"
    using assms by (auto simp: poll_read_length_2022_def and_then_Ok split: res.splits if_splits option.splits prod.splits)
  show "length (stream_data es') \<le> length (stream_data es)"
    using poll_read_exact_2022_shrinks(1) [OF 1(1)] .
  assume "d_buffer r = []"
  moreover from this 1 have "length (d_buffer r1) = 2 + tn"
    by (auto simp: poll_read_exact_2022_def split: prod.splits if_splits dest!: read_exact_loop_Ok)
  ultimately show "length (stream_data es') < length (stream_data es)"
    using poll_read_exact_2022_shrinks(2) [OF 1(1)] by simp
qed

lemma read_step_2022_weight:
  assumes "read_step_2022 P now cap r es = Inr (r', es')"
  shows "read_weight_2022 r' es' < read_weight_2022 r es"
proof (cases "d_state r")
  case (ReadHeader key)
  with assms obtain n r1 es1 where h: "poll_read_header P now key r es = (Ready (Ok (Some n)), r1, es1)"
    and z: "reserve_tag_2022 n (r1\<lparr>d_buffer := [], d_state := ReadData_2022 n, d_handshaked := True\<rparr>) es1 = Inr (r', es')"
    by (auto simp: read_step_2022_def step_then_Inr split: option.splits)
  from reserve_tag_2022_Inr [OF z] poll_read_header_shrinks [OF h] ReadHeader show ?thesis
    by (auto simp: read_weight_2022_def)
next
  case ReadLength_2022
  with assms obtain n r1 es1 where l: "poll_read_length_2022 P r es = (Ready (Ok (Some n)), r1, es1)"
    and z: "reserve_tag_2022 n (r1\<lparr>d_buffer := [], d_state := ReadData_2022 n\<rparr>) es1 = Inr (r', es')"
    by (auto simp: read_step_2022_def step_then_Inr and_then_Ok split: option.splits)
  from reserve_tag_2022_Inr [OF z] poll_read_length_2022_Some [OF l] ReadLength_2022 show ?thesis
    by (auto simp: read_weight_2022_def)
next
  case (ReadData_2022 n)
  with assms show ?thesis
    by (auto simp: read_step_2022_def step_then_Inr read_weight_2022_def dest!: poll_read_data_2022_Ok)
next
  case (BufferedData_2022 pos)
  with assms show ?thesis
    by (auto simp: read_step_2022_def Let_def read_weight_2022_def split: if_splits dest!: reserve_tag_2022_Inr)
qed

function poll_read_decrypted_2022 :: "crypto_prims \<Rightarrow> u64 \<Rightarrow> nat \<Rightarrow> DecryptedReader_2022 \<Rightarrow> read_event list
    \<Rightarrow> (TcpAead2022Error, bytes) poll \<times> DecryptedReader_2022 \<times> read_event list" where
  "poll_read_decrypted_2022 P now cap r es = (case read_step_2022 P now cap r es of
     Inl out \<Rightarrow> out
   | Inr (r', es') \<Rightarrow> poll_read_decrypted_2022 P now cap r' es')"
  by pat_completeness auto
termination
  by (relation "measure (\<lambda>(P, now, cap, r, es). read_weight_2022 r es)") (auto dest: read_step_2022_weight)

declare poll_read_decrypted_2022.simps [simp del]

section \<open>The writer\<close>

datatype EncryptWriteState_2022 = AssembleHeader | AssemblePacket_2022 | Writing_2022 nat

record EncryptedWriter_2022 =
  e_cipher :: Cipher
  e_method :: CipherKind
  e_buffer :: bytes
  e_state :: EncryptWriteState_2022
  e_salt :: bytes
  e_request_salt :: "bytes option"

definition AEAD2022_EIH_SUBKEY_CONTEXT :: string where
  "AEAD2022_EIH_SUBKEY_CONTEXT = ''shadowsocks 2022 identity subkey''"

text \<open>The crates \<^verbatim>\<open>blake3\<close> and \<^verbatim>\<open>aes\<close>: hash, key derivation and one block of the cipher.\<close>

record block_prims =
  blake3_hash :: "bytes \<Rightarrow> bytes"
  blake3_derive_key :: "string \<Rightarrow> bytes \<Rightarrow> nat \<Rightarrow> bytes"
  aes_encrypt_block :: "bytes \<Rightarrow> bytes \<Rightarrow> bytes"
  aes_decrypt_block :: "bytes \<Rightarrow> bytes \<Rightarrow> bytes"

text \<open>A concrete instance.\<close>

definition null_block :: block_prims where
  "null_block = \<lparr>blake3_hash = (\<lambda>m. replicate 32 0), blake3_derive_key = (\<lambda>c m n. replicate n 0),
     aes_encrypt_block = (\<lambda>k b. b), aes_decrypt_block = (\<lambda>k b. b)\<rparr>"

definition blake3_OUT_LEN :: nat where "blake3_OUT_LEN = 32"

fun eih_key_len :: "CipherKind \<Rightarrow> ('e, nat) res" where
  "eih_key_len AEAD2022_BLAKE3_AES_128_GCM = Ok 16"
| "eih_key_len AEAD2022_BLAKE3_AES_256_GCM = Ok 32"
| "eih_key_len _ = Panic"

definition make_eih :: "block_prims \<Rightarrow> CipherKind \<Rightarrow> bytes \<Rightarrow> bytes \<Rightarrow> bytes \<Rightarrow> ('e, bytes) res" where
  "make_eih B method sub_key ipsk buffer =
     (let ipsk_plain_text = take 16 (blake3_hash B ipsk) in
      bind_res (eih_key_len method) (\<lambda>n.
      Ok (buffer @ aes_encrypt_block B (take n sub_key) ipsk_plain_text)))"

fun eih_loop :: "block_prims \<Rightarrow> CipherKind \<Rightarrow> bytes \<Rightarrow> bytes option \<Rightarrow> bytes \<Rightarrow> bytes list
    \<Rightarrow> ('e, bytes option \<times> bytes) res" where
  "eih_loop B method iv sub_key buffer [] = Ok (sub_key, buffer)"
| "eih_loop B method iv sub_key buffer (ipsk # ipsks) =
     bind_res (case sub_key of Some k \<Rightarrow> make_eih B method k ipsk buffer | None \<Rightarrow> Ok buffer) (\<lambda>buffer.
     eih_loop B method iv
       (Some (blake3_derive_key B AEAD2022_EIH_SUBKEY_CONTEXT (ipsk @ iv) blake3_OUT_LEN)) buffer ipsks)"

definition identity_headers :: "block_prims \<Rightarrow> CipherKind \<Rightarrow> bytes \<Rightarrow> bytes \<Rightarrow> bytes list \<Rightarrow> ('e, bytes) res" where
  "identity_headers B method key iv identity_keys =
     (if method_support_eih method then
        bind_res (eih_loop B method iv None iv identity_keys) (\<lambda>(sub_key, buffer).
        case sub_key of Some k \<Rightarrow> make_eih B method k key buffer | None \<Rightarrow> Ok buffer)
      else Ok iv)"

definition with_identity :: "crypto_prims \<Rightarrow> block_prims \<Rightarrow> CipherKind \<Rightarrow> bytes \<Rightarrow> bytes \<Rightarrow> bytes list
    \<Rightarrow> ('e, EncryptedWriter_2022) res" where
  "with_identity P B method key iv identity_keys =
     bind_res (identity_headers B method key iv identity_keys) (\<lambda>buffer.
     bind_res (Cipher_new P method key iv) (\<lambda>ci.
     Ok \<lparr>e_cipher = ci, e_method = method, e_buffer = buffer, e_state = AssembleHeader, e_salt = iv,
         e_request_salt = None\<rparr>))"

definition EncryptedWriter_2022_new :: "crypto_prims \<Rightarrow> block_prims \<Rightarrow> CipherKind \<Rightarrow> bytes \<Rightarrow> bytes
    \<Rightarrow> ('e, EncryptedWriter_2022) res" where
  "EncryptedWriter_2022_new P B kind key iv = with_identity P B kind key iv []"

definition reset_cipher_with_key_2022 :: "crypto_prims \<Rightarrow> bytes \<Rightarrow> EncryptedWriter_2022 \<Rightarrow> ('e, EncryptedWriter_2022) res" where
  "reset_cipher_with_key_2022 P key w =
     bind_res (Cipher_new P (e_method w) key (e_salt w)) (\<lambda>ci. Ok (w\<lparr>e_cipher := ci\<rparr>))"

text \<open>Two chunks are sealed one after the other at the end of the buffer: the header or length, and the data.\<close>

definition seal_chunks :: "crypto_prims \<Rightarrow> bytes \<Rightarrow> bytes \<Rightarrow> EncryptedWriter_2022 \<Rightarrow> (io_error, EncryptedWriter_2022) res" where
  "seal_chunks P a b w =
     bind_res (Cipher_tag_len (e_cipher w)) (\<lambda>n.
     bind_res (Cipher_encrypt P (e_cipher w) (a @ replicate n 0)) (\<lambda>(ci, m).
     let w = w\<lparr>e_cipher := ci, e_buffer := e_buffer w @ m\<rparr> in
     bind_res (Cipher_encrypt P (e_cipher w) (b @ replicate n 0)) (\<lambda>(ci, m).
     Ok (w\<lparr>e_cipher := ci, e_buffer := e_buffer w @ m, e_state := Writing_2022 0\<rparr>))))"

definition assemble_header :: "crypto_prims \<Rightarrow> u64 \<Rightarrow> bytes \<Rightarrow> EncryptedWriter_2022 \<Rightarrow> (io_error, EncryptedWriter_2022) res" where
  "assemble_header P now buf w =
     (let stream_ty = 0;
          request_salt = (case e_request_salt w of None \<Rightarrow> [] | Some salt \<Rightarrow> salt) in
      seal_chunks P (stream_ty # be64 now @ request_salt @ be16 (of_nat (length buf))) buf w)"

definition assemble_packet_2022 :: "crypto_prims \<Rightarrow> bytes \<Rightarrow> EncryptedWriter_2022 \<Rightarrow> (io_error, EncryptedWriter_2022) res" where
  "assemble_packet_2022 P buf w = seal_chunks P (be16 (of_nat (length buf))) buf w"

definition finish_write_2022 :: "EncryptedWriter_2022 \<Rightarrow> wsocket \<Rightarrow> bytes \<Rightarrow> nat
    \<Rightarrow> (io_error, nat) poll \<times> EncryptedWriter_2022 \<times> wsocket" where
  "finish_write_2022 w s buf pos = (case write_loop (e_buffer w) pos s of
     (Pending, pos', s') \<Rightarrow> (Pending, w\<lparr>e_state := Writing_2022 pos'\<rparr>, s')
   | (Ready (Err e), pos', s') \<Rightarrow> (Ready (Err e), w\<lparr>e_state := Writing_2022 pos'\<rparr>, s')
   | (Ready Panic, pos', s') \<Rightarrow> (Ready Panic, w\<lparr>e_state := Writing_2022 pos'\<rparr>, s')
   | (Ready (Ok _), pos', s') \<Rightarrow>
       (Ready (Ok (length buf)), w\<lparr>e_state := AssemblePacket_2022, e_buffer := []\<rparr>, s'))"

definition poll_write_encrypted_2022 :: "crypto_prims \<Rightarrow> u64 \<Rightarrow> EncryptedWriter_2022 \<Rightarrow> wsocket \<Rightarrow> bytes
    \<Rightarrow> (io_error, nat) poll \<times> EncryptedWriter_2022 \<times> wsocket" where
  "poll_write_encrypted_2022 P now w s buf =
     (let buf = (if length buf > AEAD2022_MAX_PACKET_SIZE then take AEAD2022_MAX_PACKET_SIZE buf else buf);
          assembled = (case e_state w of
            AssembleHeader \<Rightarrow> assemble_header P now buf w
          | AssemblePacket_2022 \<Rightarrow> assemble_packet_2022 P buf w
          | Writing_2022 _ \<Rightarrow> Ok w) in
      case assembled of
        Ok w' \<Rightarrow> finish_write_2022 w' s buf (case e_state w' of Writing_2022 pos \<Rightarrow> pos | _ \<Rightarrow> 0)
      | Err e \<Rightarrow> (Ready (Err e), w, s)
      | Panic \<Rightarrow> (Ready Panic, w, s))"

end
