(* ===== verification/Lru.thy ===== *)
theory Lru
  imports Main
begin

text \<open>
  The crate \<^verbatim>\<open>lru_cache\<close>, which the cache of DNS answers and the cache of session ciphers use: its operations are
  the record \<open>lru_lib\<close>, a parameter of both, and its documented behaviour is \<open>lru_law\<close>.
\<close>

record ('k, 'v, 'l) lru_lib =
  lru_new :: "nat \<Rightarrow> 'l"
  lru_get_mut :: "'k \<Rightarrow> 'l \<Rightarrow> 'v option \<times> 'l"
  lru_remove :: "'k \<Rightarrow> 'l \<Rightarrow> 'l"
  lru_contains_key :: "'k \<Rightarrow> 'l \<Rightarrow> bool"
  lru_insert :: "'k \<Rightarrow> 'v \<Rightarrow> 'l \<Rightarrow> 'l"

text \<open>
  The documented behaviour of the LRU map, in terms of its contents: reading changes no entry,
  inserting may evict other entries, or the new one if the capacity is zero.
\<close>

definition lru_law :: "('k, 'v, 'l) lru_lib \<Rightarrow> ('l \<Rightarrow> 'k \<Rightarrow> 'v option) \<Rightarrow> bool" where
  "lru_law LR contents =
     ((\<forall>n. contents (lru_new LR n) = Map.empty)
    \<and> (\<forall>k l. fst (lru_get_mut LR k l) = contents l k \<and> contents (snd (lru_get_mut LR k l)) = contents l)
    \<and> (\<forall>k l. contents (lru_remove LR k l) = (contents l)(k := None))
    \<and> (\<forall>k l. lru_contains_key LR k l = (contents l k \<noteq> None))
    \<and> (\<forall>k v l. contents (lru_insert LR k v l) \<subseteq>\<^sub>m (contents l)(k \<mapsto> v)))"

text \<open>An LRU map of a given capacity, the most recently used entry first.\<close>

definition without_key :: "'k \<Rightarrow> ('k \<times> 'v) list \<Rightarrow> ('k \<times> 'v) list" where
  "without_key k xs = filter (\<lambda>p. fst p \<noteq> k) xs"

definition list_lru :: "('k, 'v, nat \<times> ('k \<times> 'v) list) lru_lib" where
  "list_lru = \<lparr>lru_new = (\<lambda>n. (n, [])),
     lru_get_mut = (\<lambda>k (n, xs). case map_of xs k of None \<Rightarrow> (None, (n, xs)) | Some v \<Rightarrow> (Some v, (n, (k, v) # without_key k xs))),
     lru_remove = (\<lambda>k (n, xs). (n, without_key k xs)),
     lru_contains_key = (\<lambda>k (n, xs). map_of xs k \<noteq> None),
     lru_insert = (\<lambda>k v (n, xs). (n, take n ((k, v) # without_key k xs)))\<rparr>"

lemma map_of_without_key: "map_of (without_key k xs) = (map_of xs)(k := None)"
  by (induction xs) (auto simp: without_key_def)

lemma map_of_take_le: "map_of (take n xs) \<subseteq>\<^sub>m map_of xs"
proof -
  have "map_of xs = map_of (drop n xs) ++ map_of (take n xs)"
    by (metis append_take_drop_id map_of_append)
  then show ?thesis by (simp add: map_le_map_add)
qed

lemma list_lru_law: "lru_law list_lru (\<lambda>(n, xs). map_of xs)"
proof -
  have "map_of (take n ((k, v) # without_key k xs)) \<subseteq>\<^sub>m (map_of xs)(k \<mapsto> v)" for n k v and xs :: "('a \<times> 'b) list"
    using map_of_take_le [of n "(k, v) # without_key k xs"] by (simp add: map_of_without_key)
  moreover have "(map_of xs)(k \<mapsto> v) = map_of xs" if "map_of xs k = Some v" for k v and xs :: "('a \<times> 'b) list"
    using that by auto
  ultimately show ?thesis
    by (auto simp: lru_law_def list_lru_def map_of_without_key split: option.splits)
qed

end
