(* ===== verification/UdpAead2022.thy ===== *)
theory UdpAead2022
  imports UdpAead TcpAead2022 Lru
begin

text \<open>
  \<^verbatim>\<open>lib/shadowsocks/src/udp/aead2022.rs\<close> and \<^verbatim>\<open>crypto/v2\<close>: packets of the AEAD-2022 UDP protocol and their
  session ciphers, which are kept in a cache.  The cache is the crate \<^verbatim>\<open>lru_cache\<close>, a parameter; a slice is its
  address and its bytes, since the cache is keyed by the address.
\<close>

section \<open>Session ciphers\<close>

definition BLAKE3_KEY_DERIVE_CONTEXT :: string where
  "BLAKE3_KEY_DERIVE_CONTEXT = ''shadowsocks 2022 session subkey''"

datatype AesGcmCipher = Session_Aes128Gcm bytes | Session_Aes256Gcm bytes

definition AesGcmCipher_new :: "block_prims \<Rightarrow> CipherKind \<Rightarrow> bytes \<Rightarrow> u64 \<Rightarrow> ('e, AesGcmCipher) res" where
  "AesGcmCipher_new B kind key session_id =
     (let key_material = key @ be64 session_id in
      bind_res (key_len kind) (\<lambda>n.
      let derived_key = blake3_derive_key B BLAKE3_KEY_DERIVE_CONTEXT key_material n in
      case kind of
        AEAD2022_BLAKE3_AES_128_GCM \<Rightarrow> map_ok Session_Aes128Gcm (Aes128Gcm_new derived_key)
      | AEAD2022_BLAKE3_AES_256_GCM \<Rightarrow> map_ok Session_Aes256Gcm (Aes256Gcm_new derived_key)
      | _ \<Rightarrow> Panic))"

fun AesGcmCipher_encrypt_packet :: "crypto_prims \<Rightarrow> AesGcmCipher \<Rightarrow> bytes \<Rightarrow> bytes \<Rightarrow> ('e, bytes) res" where
  "AesGcmCipher_encrypt_packet P (Session_Aes128Gcm key) salt buf = Aes128Gcm_encrypt P key salt buf"
| "AesGcmCipher_encrypt_packet P (Session_Aes256Gcm key) salt buf = Aes256Gcm_encrypt P key salt buf"

fun AesGcmCipher_decrypt_packet :: "crypto_prims \<Rightarrow> AesGcmCipher \<Rightarrow> bytes \<Rightarrow> bytes \<Rightarrow> ('e, bool \<times> bytes) res" where
  "AesGcmCipher_decrypt_packet P (Session_Aes128Gcm key) salt buf = Aes128Gcm_decrypt P key salt buf"
| "AesGcmCipher_decrypt_packet P (Session_Aes256Gcm key) salt buf = Aes256Gcm_decrypt P key salt buf"

datatype UdpCipherVariant = AesGcm AesGcmCipher | ChaCha20Poly1305 bytes

fun UdpCipherVariant_new :: "block_prims \<Rightarrow> CipherKind \<Rightarrow> bytes \<Rightarrow> u64 \<Rightarrow> ('e, UdpCipherVariant) res" where
  "UdpCipherVariant_new B AEAD2022_BLAKE3_AES_128_GCM key session_id =
     map_ok AesGcm (AesGcmCipher_new B AEAD2022_BLAKE3_AES_128_GCM key session_id)"
| "UdpCipherVariant_new B AEAD2022_BLAKE3_AES_256_GCM key session_id =
     map_ok AesGcm (AesGcmCipher_new B AEAD2022_BLAKE3_AES_256_GCM key session_id)"
| "UdpCipherVariant_new B AEAD2022_BLAKE3_CHACHA20_POLY1305 key session_id =
     map_ok ChaCha20Poly1305 (XChaCha20Poly1305_new key)"
| "UdpCipherVariant_new B _ key session_id = Panic"

fun UdpCipherVariant_encrypt_packet :: "crypto_prims \<Rightarrow> UdpCipherVariant \<Rightarrow> bytes \<Rightarrow> bytes \<Rightarrow> ('e, bytes) res" where
  "UdpCipherVariant_encrypt_packet P (AesGcm c) salt buf = AesGcmCipher_encrypt_packet P c salt buf"
| "UdpCipherVariant_encrypt_packet P (ChaCha20Poly1305 key) salt buf = XChaCha20Poly1305_encrypt P key salt buf"

fun UdpCipherVariant_decrypt_packet :: "crypto_prims \<Rightarrow> UdpCipherVariant \<Rightarrow> bytes \<Rightarrow> bytes \<Rightarrow> ('e, bool \<times> bytes) res" where
  "UdpCipherVariant_decrypt_packet P (AesGcm c) salt buf = AesGcmCipher_decrypt_packet P c salt buf"
| "UdpCipherVariant_decrypt_packet P (ChaCha20Poly1305 key) salt buf = XChaCha20Poly1305_decrypt P key salt buf"

record UdpCipher =
  uc_cipher :: UdpCipherVariant
  uc_kind :: CipherKind

definition UdpCipher_new :: "block_prims \<Rightarrow> CipherKind \<Rightarrow> bytes \<Rightarrow> u64 \<Rightarrow> ('e, UdpCipher) res" where
  "UdpCipher_new B kind key session_id =
     map_ok (\<lambda>c. \<lparr>uc_cipher = c, uc_kind = kind\<rparr>) (UdpCipherVariant_new B kind key session_id)"

definition UdpCipher_encrypt_packet :: "crypto_prims \<Rightarrow> UdpCipher \<Rightarrow> bytes \<Rightarrow> bytes \<Rightarrow> ('e, bytes) res" where
  "UdpCipher_encrypt_packet P c salt buf = UdpCipherVariant_encrypt_packet P (uc_cipher c) salt buf"

definition UdpCipher_decrypt_packet :: "crypto_prims \<Rightarrow> UdpCipher \<Rightarrow> bytes \<Rightarrow> bytes \<Rightarrow> ('e, bool \<times> bytes) res" where
  "UdpCipher_decrypt_packet P c salt buf = UdpCipherVariant_decrypt_packet P (uc_cipher c) salt buf"

section \<open>The cache of session ciphers\<close>

record slice =
  ptr :: u64
  contents_of :: bytes

record CipherKey =
  ck_method :: CipherKind
  ck_key :: u64
  ck_session_id :: u64

text \<open>The order of cache keys is that of their hashes, computed by the standard hasher.\<close>

datatype ordering = Less | Equal | Greater

definition CipherKey_cmp :: "(CipherKey \<Rightarrow> u64) \<Rightarrow> CipherKey \<Rightarrow> CipherKey \<Rightarrow> ordering" where
  "CipherKey_cmp hash a b =
     (let hash1 = hash a; hash2 = hash b in
      if hash1 < hash2 then Less else if hash1 = hash2 then Equal else Greater)"

definition CipherKey_partial_cmp :: "(CipherKey \<Rightarrow> u64) \<Rightarrow> CipherKey \<Rightarrow> CipherKey \<Rightarrow> ordering option" where
  "CipherKey_partial_cmp hash a b = Some (CipherKey_cmp hash a b)"

definition CIPHER_CACHE_LIMIT :: nat where "CIPHER_CACHE_LIMIT = 4 * 1024"

text \<open>The cache is thread-local state and changes also when the caller fails afterwards.\<close>

definition get_cipher :: "block_prims \<Rightarrow> (CipherKey, UdpCipher, 'c) lru_lib \<Rightarrow> CipherKind \<Rightarrow> slice \<Rightarrow> u64 \<Rightarrow> 'c \<Rightarrow> ('e, UdpCipher) res \<times> 'c" where
  "get_cipher B L method key session_id cache =
     (let cache_key = \<lparr>ck_method = method, ck_key = ptr key, ck_session_id = session_id\<rparr> in
      case lru_get_mut L cache_key cache of
        (Some uc, cache) \<Rightarrow> (Ok uc, cache)
      | (None, cache) \<Rightarrow> (case UdpCipher_new B method (contents_of key) session_id of
          Ok uc \<Rightarrow> (Ok uc, lru_insert L cache_key uc cache)
        | Err e \<Rightarrow> (Err e, cache)
        | Panic \<Rightarrow> (Panic, cache)))"

section \<open>Packets\<close>

record UdpSocketControlData =
  client_session_id :: u64
  server_session_id :: u64
  packet_id :: u64
  ctl_user :: "ServerUser option"

definition UdpSocketControlData_default :: UdpSocketControlData where
  "UdpSocketControlData_default = \<lparr>client_session_id = 0, server_session_id = 0, packet_id = 0, ctl_user = None\<rparr>"

definition CLIENT_SOCKET_TYPE :: byte where "CLIENT_SOCKET_TYPE = 0"
definition SERVER_SOCKET_TYPE :: byte where "SERVER_SOCKET_TYPE = 1"
definition SERVER_PACKET_TIMESTAMP_MAX_DIFF :: u64 where "SERVER_PACKET_TIMESTAMP_MAX_DIFF = 30"

datatype UdpAead2022Error = PacketTooShort nat nat | Udp2022_InvalidAddress Socks5Error | Udp2022_DecryptPayloadError
  | Udp2022_InvalidClientUser string | InvalidSocketType byte byte | Udp2022_InvalidTimestamp u64 u64
  | Udp2022_IoError io_error

fun UdpAead2022Error_fmt :: "UdpAead2022Error \<Rightarrow> string" where
  "UdpAead2022Error_fmt (PacketTooShort a b) =
     ''packet too short, at least '' @ show_nat a @ '' bytes, but found '' @ show_nat b @ '' bytes''"
| "UdpAead2022Error_fmt (Udp2022_InvalidAddress e) = ''invalid address in packet, '' @ Socks5Error_fmt e"
| "UdpAead2022Error_fmt Udp2022_DecryptPayloadError = ''decrypt payload error''"
| "UdpAead2022Error_fmt (Udp2022_InvalidClientUser u) = ''invalid client user identity '' @ u"
| "UdpAead2022Error_fmt (InvalidSocketType a b) =
     ''invalid socket type, expecting 0x'' @ show_hex (unat a) @ '', but found 0x'' @ show_hex (unat b)"
| "UdpAead2022Error_fmt (Udp2022_InvalidTimestamp t now) =
     ''invalid timestamp '' @ show_nat (unat t) @ '' - now '' @ show_nat (unat now) @ '' = '' @ show_i64 (t - now)"
| "UdpAead2022Error_fmt (Udp2022_IoError e) = err_msg e"

fun get_nonce_len :: "CipherKind \<Rightarrow> ('e, nat) res" where
  "get_nonce_len AEAD2022_BLAKE3_AES_128_GCM = Ok 0"
| "get_nonce_len AEAD2022_BLAKE3_AES_256_GCM = Ok 0"
| "get_nonce_len AEAD2022_BLAKE3_CHACHA20_POLY1305 = nonce_len AEAD2022_BLAKE3_CHACHA20_POLY1305"
| "get_nonce_len _ = Panic"

text \<open>\<^verbatim>\<open>split_at(n)\<close> and a slice from \<open>n\<close> on panic when \<open>n\<close> is out of range.\<close>

definition split_at :: "nat \<Rightarrow> bytes \<Rightarrow> ('e, bytes \<times> bytes) res" where
  "split_at n b = (if length b < n then Panic else Ok (take n b, drop n b))"

text \<open>\<^verbatim>\<open>Aes128::new_from_slice(key).expect(..)\<close> for AES of a method's key size, and one block.\<close>

definition aes_block :: "CipherKind \<Rightarrow> (bytes \<Rightarrow> bytes \<Rightarrow> bytes) \<Rightarrow> bytes \<Rightarrow> bytes \<Rightarrow> ('e, bytes) res" where
  "aes_block kind f key block =
     bind_res (eih_key_len kind) (\<lambda>n. if length key = n then Ok (f key block) else Panic)"

definition encrypt_message :: "crypto_prims \<Rightarrow> block_prims \<Rightarrow> (CipherKey, UdpCipher, 'c) lru_lib \<Rightarrow> CipherKind \<Rightarrow> bytes \<Rightarrow> slice \<Rightarrow> bytes \<Rightarrow> u64 \<Rightarrow> nat \<Rightarrow> 'c
    \<Rightarrow> ('e, bytes) res \<times> 'c" where
  "encrypt_message P B L kind ipsk key packet session_id eih_len cache =
     (case tag_len kind of
        Err e \<Rightarrow> (Err e, cache)
      | Panic \<Rightarrow> (Panic, cache)
      | Ok tlen \<Rightarrow>
          (let packet = packet @ replicate tlen 0 in
           if kind = AEAD2022_BLAKE3_CHACHA20_POLY1305 then
             (case get_cipher B L kind key session_id cache of (x, cache) \<Rightarrow>
               (bind_res x (\<lambda>uc.
                bind_res (split_at (alg_nonce_size Alg_XChaCha20Poly1305) packet) (\<lambda>(iv, message).
                bind_res (UdpCipher_encrypt_packet P uc iv message) (\<lambda>message.
                Ok (iv @ message)))), cache))
           else if kind = AEAD2022_BLAKE3_AES_128_GCM \<or> kind = AEAD2022_BLAKE3_AES_256_GCM then
             (case get_cipher B L kind key session_id cache of (x, cache) \<Rightarrow>
               (bind_res x (\<lambda>uc.
                bind_res (split_at 16 packet) (\<lambda>(packet_header, message).
                bind_res (split_at eih_len message) (\<lambda>(eih, message).
                bind_res (UdpCipher_encrypt_packet P uc (drop 4 packet_header) message) (\<lambda>message.
                bind_res (aes_block kind (aes_encrypt_block B) ipsk packet_header) (\<lambda>packet_header.
                Ok (packet_header @ eih @ message)))))), cache))
           else (Panic, cache)))"

text \<open>
  The part of \<^verbatim>\<open>decrypt_message\<close> before the cipher is known: the nonce, the bytes in front of the message (for
  AES the header is decrypted in place), the message, and the id of the session.
\<close>

definition open_packet_header :: "block_prims \<Rightarrow> CipherKind \<Rightarrow> bytes \<Rightarrow> bytes \<Rightarrow> ('e, bytes \<times> bytes \<times> bytes \<times> u64) res" where
  "open_packet_header B method key packet =
     (if method = AEAD2022_BLAKE3_CHACHA20_POLY1305 then
        bind_res (split_at (alg_nonce_size Alg_XChaCha20Poly1305) packet) (\<lambda>(iv, message).
        bind_res (split_at 8 message) (\<lambda>(session_id_buf, _).
        Ok (iv, iv, message, of_be 0 session_id_buf)))
      else if method = AEAD2022_BLAKE3_AES_128_GCM \<or> method = AEAD2022_BLAKE3_AES_256_GCM then
        bind_res (split_at 16 packet) (\<lambda>(packet_header, message).
        bind_res (aes_block method (aes_decrypt_block B) key packet_header) (\<lambda>packet_header.
        Ok (drop 4 packet_header, packet_header, message, of_be 0 (take 8 packet_header))))
      else Panic)"

definition decrypt_message :: "crypto_prims \<Rightarrow> block_prims \<Rightarrow> (CipherKey, UdpCipher, 'c) lru_lib \<Rightarrow> CipherKind \<Rightarrow> slice \<Rightarrow> bytes \<Rightarrow> 'c
    \<Rightarrow> (UdpAead2022Error, ServerUser option \<times> bytes) res \<times> 'c" where
  "decrypt_message P B L method key packet cache =
     (let client_user = None in
      case open_packet_header B method (contents_of key) packet of
        Err e \<Rightarrow> (Err e, cache)
      | Panic \<Rightarrow> (Panic, cache)
      | Ok (iv, front, message, session_id) \<Rightarrow>
          (case get_cipher B L method key session_id cache of (x, cache) \<Rightarrow>
            (bind_res x (\<lambda>uc.
             bind_res (UdpCipher_decrypt_packet P uc iv message) (\<lambda>(ok, message).
             if \<not> ok then Err Udp2022_DecryptPayloadError else Ok (client_user, front @ message))), cache)))"

section \<open>Client packets\<close>

fun xor_bytes :: "bytes \<Rightarrow> bytes \<Rightarrow> bytes" where
  "xor_bytes (a # as) (b # bs) = (a XOR b) # xor_bytes as bs"
| "xor_bytes as bs = as"

definition make_eih_udp :: "block_prims \<Rightarrow> CipherKind \<Rightarrow> bytes \<Rightarrow> bytes \<Rightarrow> bytes \<Rightarrow> ('e, bytes) res" where
  "make_eih_udp B method ipsk ipskn session_id_packet_id =
     (let plain_text = take 16 (blake3_hash B ipskn) in
      aes_block method (aes_encrypt_block B) ipsk (xor_bytes plain_text session_id_packet_id))"

fun put_eihs :: "block_prims \<Rightarrow> CipherKind \<Rightarrow> nat \<Rightarrow> (bytes \<times> bytes) list \<Rightarrow> bytes \<Rightarrow> ('e, bytes) res" where
  "put_eihs B kind ns [] dst = Ok dst"
| "put_eihs B kind ns ((ipsk, ipskn) # ks) dst =
     bind_res (make_eih_udp B kind ipsk ipskn (take 16 (drop ns dst))) (\<lambda>identity_header.
     put_eihs B kind ns ks (dst @ identity_header))"

text \<open>
  \<open>junk\<close> is what \<^verbatim>\<open>advance_mut\<close> exposes; \<open>rnd\<close> is the random number that decides the padding; \<^const>\<open>None\<close> means that the
  nonce generator does not return.
\<close>

definition encrypt_client_payload_aead_2022 :: "crypto_prims \<Rightarrow> block_prims \<Rightarrow> (CipherKey, UdpCipher, 'c) lru_lib \<Rightarrow> (nat \<Rightarrow> nat \<Rightarrow> bytes) \<Rightarrow> nat \<Rightarrow> u64
    \<Rightarrow> nat \<Rightarrow> (nat \<Rightarrow> bytes) \<Rightarrow> CipherKind \<Rightarrow> slice \<Rightarrow> Address \<Rightarrow> UdpSocketControlData \<Rightarrow> bytes list \<Rightarrow> bytes \<Rightarrow> bytes \<Rightarrow> 'c
    \<Rightarrow> (('e, bytes) res \<times> 'c) option" where
  "encrypt_client_payload_aead_2022 P B L rng j now rnd junk kind key addr control identity_keys payload dst cache =
     (let padding_size = get_aead_2022_padding_size rnd payload in
      case bind_res (get_nonce_len kind) (\<lambda>n. bind_res (tag_len kind) (\<lambda>_. Ok n)) of
        Err e \<Rightarrow> Some (Err e, cache)
      | Panic \<Rightarrow> Some (Panic, cache)
      | Ok ns \<Rightarrow>
          (let require_eih = (method_support_eih kind \<and> identity_keys \<noteq> []);
               eih_size = (if require_eih then length identity_keys * 16 else 0);
               dst = dst @ junk ns in
           case generate_nonce rng j kind (take ns dst) of
             None \<Rightarrow> None
           | Some iv \<Rightarrow>
               (let dst = iv @ drop ns dst @ be64 (client_session_id control) @ be64 (packet_id control);
                    ipsk = (if identity_keys = [] then contents_of key else hd identity_keys) in
                case bind_res (if require_eih
                       then put_eihs B kind ns (zip identity_keys (tl identity_keys @ [contents_of key])) dst
                       else Ok dst) (\<lambda>dst.
                     write_to_buf addr (dst @ CLIENT_SOCKET_TYPE # be64 now @ be16 (of_nat padding_size)
                       @ (if padding_size > 0 then junk padding_size else []))) of
                  Err e \<Rightarrow> Some (Err e, cache)
                | Panic \<Rightarrow> Some (Panic, cache)
                | Ok dst \<Rightarrow> Some (encrypt_message P B L kind ipsk key (dst @ payload) (client_session_id control) eih_size cache))))"

section \<open>Server packets\<close>

text \<open>\<^verbatim>\<open>Cursor::get_u64\<close> and its relatives take a field off what is left and panic when too little is left.\<close>

definition get_u64 :: "bytes \<Rightarrow> ('e, u64 \<times> bytes) res" where
  "get_u64 b = map_ok (\<lambda>(f, rest). (of_be 0 f, rest)) (split_at 8 b)"

definition get_u16 :: "bytes \<Rightarrow> ('e, u16 \<times> bytes) res" where
  "get_u16 b = map_ok (\<lambda>(f, rest). (of_be 0 f, rest)) (split_at 2 b)"

definition get_u8 :: "bytes \<Rightarrow> ('e, byte \<times> bytes) res" where
  "get_u8 b = map_ok (\<lambda>(f, rest). (f ! 0, rest)) (split_at 1 b)"

text \<open>
  The decrypted packet: the control data, the address, and the position of the payload.  A padding that
  leaves the packet is only noticed when the address is read.
\<close>

definition parse_server_packet :: "u64 \<Rightarrow> bytes \<Rightarrow> (UdpAead2022Error, UdpSocketControlData \<times> Address \<times> nat) res" where
  "parse_server_packet now data =
     bind_res (get_u64 data) (\<lambda>(sid, cur).
     bind_res (get_u64 cur) (\<lambda>(pid, cur).
     bind_res (get_u8 cur) (\<lambda>(socket_type, cur).
     if socket_type \<noteq> SERVER_SOCKET_TYPE then Err (InvalidSocketType SERVER_SOCKET_TYPE socket_type)
     else bind_res (get_u64 cur) (\<lambda>(timestamp, cur).
     if abs_diff now timestamp > SERVER_PACKET_TIMESTAMP_MAX_DIFF then Err (Udp2022_InvalidTimestamp timestamp now)
     else bind_res (get_u64 cur) (\<lambda>(cid, cur).
     bind_res (get_u16 cur) (\<lambda>(padding_size, cur).
     let cur = drop (unat padding_size) cur;
         control = \<lparr>client_session_id = cid, server_session_id = sid, packet_id = pid, ctl_user = None\<rparr> in
     bind_res (map_err Udp2022_InvalidAddress (read_from cursor_read_exact cur)) (\<lambda>(addr, cur).
     Ok (control, addr, length data - length cur))))))))"

definition decrypt_server_payload_aead_2022 :: "crypto_prims \<Rightarrow> block_prims \<Rightarrow> (CipherKey, UdpCipher, 'c) lru_lib \<Rightarrow> u64 \<Rightarrow> CipherKind \<Rightarrow> slice \<Rightarrow> bytes \<Rightarrow> 'c
    \<Rightarrow> (UdpAead2022Error, (nat \<times> Address \<times> UdpSocketControlData) \<times> bytes) res \<times> 'c" where
  "decrypt_server_payload_aead_2022 P B L now kind key payload cache =
     (case bind_res (get_nonce_len kind) (\<lambda>n. bind_res (tag_len kind) (\<lambda>t. Ok (n, t))) of
        Err e \<Rightarrow> (Err e, cache)
      | Panic \<Rightarrow> (Panic, cache)
      | Ok (ns, tlen) \<Rightarrow>
          (let header_len = ns + tlen + 8 + 8 + 1 + 8 + 2 in
           if length payload < header_len then (Err (PacketTooShort header_len (length payload)), cache)
           else (case decrypt_message P B L kind key payload cache of (x, cache) \<Rightarrow>
             (bind_res x (\<lambda>(user, payload).
              let data = drop ns (take (length payload - tlen) payload) in
              bind_res (parse_server_packet now data) (\<lambda>(control, addr, payload_start).
              let payload_len = length data - payload_start in
              bind_res (copy_within (ns + payload_start) (ns + payload_start + payload_len) payload) (\<lambda>payload.
              Ok ((payload_len, addr, control), payload)))), cache))))"

section \<open>What the cache changes\<close>

fun get_ciphers :: "block_prims \<Rightarrow> (CipherKey, UdpCipher, 'c) lru_lib \<Rightarrow> (CipherKind \<times> slice \<times> u64) list \<Rightarrow> 'c \<Rightarrow> ('e, UdpCipher) res list" where
  "get_ciphers B L [] cache = []"
| "get_ciphers B L ((method, key, session_id) # rs) cache =
     (case get_cipher B L method key session_id cache of (x, cache) \<Rightarrow> x # get_ciphers B L rs cache)"

definition ciphers_ok :: "block_prims \<Rightarrow> (u64 \<Rightarrow> bytes) \<Rightarrow> (CipherKey \<Rightarrow> UdpCipher option) \<Rightarrow> bool" where
  "ciphers_ok B mem m \<longleftrightarrow> (\<forall>k uc. m k = Some uc \<longrightarrow>
     UdpCipherVariant_new B (ck_method k) (mem (ck_key k)) (ck_session_id k) = (Ok (uc_cipher uc) :: (unit, _) res)
     \<and> uc_kind uc = ck_method k)"

text \<open>No constructor of a cipher returns an error, so the type of errors does not matter.\<close>

lemma UdpCipherVariant_new_cases:
  "UdpCipherVariant_new B k key sid = (Ok v :: ('e, _) res) \<longleftrightarrow> UdpCipherVariant_new B k key sid = (Ok v :: ('f, _) res)"
  "UdpCipherVariant_new B k key sid \<noteq> Err e"
  by (cases "(B, k, key, sid)" rule: UdpCipherVariant_new.cases;
      simp add: AesGcmCipher_new_def XChaCha20Poly1305_new_def aead_new_def from_slice_def)+

lemma ciphers_ok_mono: "ciphers_ok B mem m \<Longrightarrow> m' \<subseteq>\<^sub>m m \<Longrightarrow> ciphers_ok B mem m'"
  unfolding ciphers_ok_def map_le_def by (metis domI)

lemma get_cipher_ok:
  assumes "lru_law L cts" and "ciphers_ok B mem (cts cache)" and "contents_of key = mem (ptr key)"
    and "get_cipher B L method key session_id cache = (x :: ('e, UdpCipher) res, cache')"
  shows "x = UdpCipher_new B method (contents_of key) session_id \<and> ciphers_ok B mem (cts cache')"
proof -
  let ?k = "\<lparr>ck_method = method, ck_key = ptr key, ck_session_id = session_id\<rparr>"
  obtain y c where g: "lru_get_mut L ?k cache = (y, c)" by fastforce
  then have y: "y = cts cache ?k" "cts c = cts cache"
    using assms(1) unfolding lru_law_def by (metis fst_conv snd_conv)+
  show ?thesis
  proof (cases y)
    case (Some uc)
    then have "UdpCipherVariant_new B method (mem (ptr key)) session_id = (Ok (uc_cipher uc) :: (unit, _) res)" "uc_kind uc = method"
      using assms(2) y unfolding ciphers_ok_def by (metis CipherKey.select_convs)+
    then have "UdpCipher_new B method (contents_of key) session_id = (Ok uc :: ('e, _) res)"
      using assms(3) UdpCipherVariant_new_cases(1) [where 'e = unit and 'f = 'e, of B "method" "mem (ptr key)"] by (simp add: UdpCipher_new_def)
    with Some g assms(2,4) y show ?thesis by (simp add: get_cipher_def)
  next
    case None
    show ?thesis
    proof (cases "UdpCipher_new B method (contents_of key) session_id :: ('e, _) res")
      case (Ok uc)
      then have "UdpCipherVariant_new B method (mem (ptr key)) session_id = (Ok (uc_cipher uc) :: (unit, _) res)" "uc_kind uc = method"
        using assms(3) UdpCipherVariant_new_cases(1) [where 'e = unit and 'f = 'e] by (auto simp: UdpCipher_new_def map_ok_eq_Ok)
      then have "ciphers_ok B mem ((cts cache)(?k \<mapsto> uc))"
        using assms(2) by (auto simp: ciphers_ok_def)
      moreover have "cts (lru_insert L ?k uc c) \<subseteq>\<^sub>m (cts cache)(?k \<mapsto> uc)"
        using assms(1) y unfolding lru_law_def by metis
      ultimately have "ciphers_ok B mem (cts (lru_insert L ?k uc c))" by (rule ciphers_ok_mono)
      with Ok None g assms(4) show ?thesis by (auto simp: get_cipher_def)
    qed (use None g assms(2,4) y in \<open>auto simp: get_cipher_def\<close>)
  qed
qed

lemma get_ciphers_ok:
  assumes "lru_law L cts" and "ciphers_ok B mem (cts cache)" and "\<forall>(m, key, sid) \<in> set rs. contents_of key = mem (ptr key)"
  shows "get_ciphers B L rs cache = (map (\<lambda>(m, key, sid). UdpCipher_new B m (contents_of key) sid) rs :: ('e, UdpCipher) res list)"
  using assms(2,3)
proof (induction rs arbitrary: cache)
  case (Cons r rs)
  obtain m key sid where r: "r = (m, key, sid)" by (cases r)
  obtain x c where g: "get_cipher B L m key sid cache = (x :: ('e, UdpCipher) res, c)" by fastforce
  from get_cipher_ok [OF assms(1) Cons.prems(1) _ g] Cons.prems(2) r
  have "x = UdpCipher_new B m (contents_of key) sid" "ciphers_ok B mem (cts c)" by auto
  with Cons r g show ?case by simp
qed simp

section \<open>Reading the fields of a packet\<close>

lemma split_at_append [simp]: "length a = n \<Longrightarrow> split_at n (a @ b) = Ok (a, b)"
  by (simp add: split_at_def)

lemma get_u64_be64 [simp]: "get_u64 (be64 w @ b) = Ok (w, b)"
  by (simp add: get_u64_def)

lemma get_u16_be16 [simp]: "get_u16 (be16 w @ b) = Ok (w, b)"
  by (simp add: get_u16_def)

lemma get_u8_Cons [simp]: "get_u8 (x # b) = Ok (x, b)"
  by (simp add: get_u8_def split_at_def)

lemma short_fields:
  assumes "length b < 10"
  shows "bind_res (get_u64 b) (\<lambda>x. bind_res (get_u16 (snd x)) (f x)) = Panic"
proof -
  have "length b - 8 < 2" using assms by simp
  then show ?thesis by (simp add: get_u64_def get_u16_def split_at_def)
qed

section \<open>Properties\<close>

text \<open>
  C31: a decrypted packet of a server is parsed to its session, packet and client ids, its address and the
  position of its payload, whatever the padding; a packet that ends within the ten bytes of the client's
  id and the padding size makes the parser panic, although the check of the length lets it through when at least
  two of these bytes are there.  This is the parser by itself: the function it is part of cannot reach it yet, as it
  asks for the tag length of the method first, which is \<^verbatim>\<open>todo!()\<close>.
\<close>

theorem server_packet_parsed:
  assumes "abs_diff now ts \<le> SERVER_PACKET_TIMESTAMP_MAX_DIFF" and "addr_wf a" and "length padding < 2 ^ 16"
  shows "parse_server_packet now (be64 sid @ be64 pid @ 1 # be64 ts @ be64 cid @ be16 (of_nat (length padding)) @ padding
        @ addr_bytes a @ payload)
      = Ok (\<lparr>client_session_id = cid, server_session_id = sid, packet_id = pid, ctl_user = None\<rparr>, addr_norm a,
          35 + length padding + serialized_len a)
    \<and> (length short < 10 \<longrightarrow> parse_server_packet now (be64 sid @ be64 pid @ 1 # be64 ts @ short) = Panic)"
proof -
  have t: "\<not> abs_diff now ts > SERVER_PACKET_TIMESTAMP_MAX_DIFF" using assms(1) by (simp add: not_less)
  have "unat (of_nat (length padding) :: u16) = length padding" using assms(3) by (simp add: unat_of_nat)
  moreover have "read_from cursor_read_exact (addr_bytes a @ payload) = Ok (addr_norm a, payload)"
    using cursor.read_from_encoded [OF assms(2)] by blast
  ultimately show ?thesis
    using t by (simp add: parse_server_packet_def SERVER_SOCKET_TYPE_def length_addr_bytes case_prod_unfold short_fields)
qed

theorem server_packet_parsed_witness:
  "parse_server_packet 100 (be64 7 @ be64 8 @ 1 # be64 90 @ be64 9 @ be16 2 @ [0, 0]
      @ addr_bytes (SocketAddress (V4 (Ipv4Addr 1 2 3 4) 53)) @ [5])
    = Ok (\<lparr>client_session_id = 9, server_session_id = 7, packet_id = 8, ctl_user = None\<rparr>,
        SocketAddress (V4 (Ipv4Addr 1 2 3 4) 53), 44)
  \<and> parse_server_packet 100 (be64 7 @ be64 8 @ 1 # be64 90 @ [1, 2]) = Panic"
  using server_packet_parsed [of 100 90 "SocketAddress (V4 (Ipv4Addr 1 2 3 4) 53)" "[0, 0]" 7 8 9 "[5]" "[1, 2]"]
  by (simp add: abs_diff_def SERVER_PACKET_TIMESTAMP_MAX_DIFF_def serialized_len_def)

text \<open>
  C32: the cache of session ciphers is transparent: as long as the address of a key determines its bytes, every
  call gets the cipher it would have constructed itself, whatever the cache keeps or evicts.
\<close>

theorem cipher_cache_transparent:
  assumes "lru_law L cts" and "\<forall>(m, key, sid) \<in> set rs. contents_of key = mem (ptr key)"
  shows "get_ciphers B L rs (lru_new L CIPHER_CACHE_LIMIT) = map (\<lambda>(m, key, sid). UdpCipher_new B m (contents_of key) sid) rs"
  by (rule get_ciphers_ok [OF assms(1) _ assms(2)]) (use assms(1) in \<open>simp add: ciphers_ok_def lru_law_def\<close>)

theorem cipher_cache_transparent_witness:
  "get_ciphers null_block
      list_lru [(AEAD2022_BLAKE3_CHACHA20_POLY1305, \<lparr>ptr = 64, contents_of = replicate 32 5\<rparr>, 1),
        (AEAD2022_BLAKE3_CHACHA20_POLY1305, \<lparr>ptr = 64, contents_of = replicate 32 5\<rparr>, 1)] (lru_new list_lru CIPHER_CACHE_LIMIT)
    = replicate 2 (Ok \<lparr>uc_cipher = ChaCha20Poly1305 (replicate 32 5), uc_kind = AEAD2022_BLAKE3_CHACHA20_POLY1305\<rparr> :: (unit, _) res)"
  using cipher_cache_transparent [OF list_lru_law, of "replicate 2 (AEAD2022_BLAKE3_CHACHA20_POLY1305, \<lparr>ptr = 64, contents_of = replicate 32 5\<rparr>, 1)"
    "\<lambda>_. replicate 32 5" "null_block"]
  by (simp add: numeral_2_eq_2 UdpCipher_new_def XChaCha20Poly1305_new_def aead_new_def from_slice_def)

end
