(* ===== verification/SysNet.thy ===== *)
theory SysNet
  imports Rust_Net "HOL-Library.Sublist"
begin

text \<open>
  \<^verbatim>\<open>lib/shadowsocks/src/option.rs\<close>, \<^verbatim>\<open>sys/net/\<close> and the socket set-up of
  \<^verbatim>\<open>tcp/proxy.rs\<close>: which calls are made on a new socket, in which order, and what their failures
  do.  The kernel is a parameter: it answers each call, given the calls made before on the same
  socket.  Log lines are not modelled.
\<close>

section \<open>Socket calls\<close>

datatype AddrFamily = AF_Ipv4 | AF_Ipv6

fun AddrFamily_from :: "SocketAddr \<Rightarrow> AddrFamily" where
  "AddrFamily_from (V4 _ _) = AF_Ipv4"
| "AddrFamily_from (V6 _ _ _ _) = AF_Ipv6"

datatype sock_op = NewTcp AddrFamily | NewUdp AddrFamily | SetMark u32 | BindToDevice string
  | BindAddr SocketAddr | SetOnlyV6 bool | SetSendBuffer u32 | SetRecvBuffer u32 | ConnectTo SocketAddr
  | SetNodelay bool | SetKeepalive nat nat | SetMtuDiscover AddrFamily | SetNonblocking bool | FromStd

type_synonym kernel = "sock_op list \<Rightarrow> sock_op \<Rightarrow> (io_error, unit) res"
type_synonym 'a sock = "sock_op list \<Rightarrow> (io_error, 'a) res \<times> sock_op list"

definition sock_call :: "kernel \<Rightarrow> sock_op \<Rightarrow> unit sock" where
  "sock_call sys op h = (sys h op, h @ [op])"

definition sock_ok :: "'a \<Rightarrow> 'a sock" where
  "sock_ok x h = (Ok x, h)"

text \<open>\<open>then_sock m f\<close> is \<^verbatim>\<open>m?; f\<close>, \<open>or_else m g\<close> handles an error of \<open>m\<close>.\<close>

definition then_sock :: "'a sock \<Rightarrow> ('a \<Rightarrow> 'b sock) \<Rightarrow> 'b sock" where
  "then_sock m f h = (case m h of
     (Ok x, h') \<Rightarrow> f x h'
   | (Err e, h') \<Rightarrow> (Err e, h')
   | (Panic, h') \<Rightarrow> (Panic, h'))"

definition or_else :: "'a sock \<Rightarrow> (io_error \<Rightarrow> 'a sock) \<Rightarrow> 'a sock" where
  "or_else m g h = (case m h of (Err e, h') \<Rightarrow> g e h' | out \<Rightarrow> out)"

fun if_some :: "'a option \<Rightarrow> ('a \<Rightarrow> unit sock) \<Rightarrow> unit sock" where
  "if_some None f = sock_ok ()"
| "if_some (Some x) f = f x"

section \<open>Options\<close>

record TcpSocketOpts =
  send_buffer_size :: "u32 option"
  recv_buffer_size :: "u32 option"
  nodelay :: bool
  fastopen :: bool
  keepalive :: "nat option"

record ConnectOpts =
  fwmark :: "u32 option"
  bind_local_addr :: "IpAddr option"
  bind_interface :: "string option"
  tcp_opts :: TcpSocketOpts

definition TcpSocketOpts_default :: TcpSocketOpts where
  "TcpSocketOpts_default = \<lparr>send_buffer_size = None, recv_buffer_size = None, nodelay = False,
     fastopen = False, keepalive = None\<rparr>"

definition ConnectOpts_default :: ConnectOpts where
  "ConnectOpts_default = \<lparr>fwmark = None, bind_local_addr = None, bind_interface = None,
     tcp_opts = TcpSocketOpts_default\<rparr>"

section \<open>UDP sockets\<close>

definition socket_bind_dual_stack_inner :: "kernel \<Rightarrow> SocketAddr \<Rightarrow> bool \<Rightarrow> unit sock" where
  "socket_bind_dual_stack_inner sys addr ipv6_only =
     (if ipv6_only then
        then_sock (sock_call sys (SetOnlyV6 True)) (\<lambda>_.
        then_sock (sock_call sys (BindAddr addr)) (\<lambda>_.
        sock_ok ()))
      else
        then_sock (or_else (sock_call sys (SetOnlyV6 False)) (\<lambda>_. sock_ok ())) (\<lambda>_.
        then_sock (or_else (sock_call sys (BindAddr addr)) (\<lambda>e.
          if err_kind e = AddrInUse then
            then_sock (or_else (sock_call sys (SetOnlyV6 True)) (\<lambda>_. sock_ok ())) (\<lambda>_.
            sock_call sys (BindAddr addr))
          else (\<lambda>h. (Err e, h)))) (\<lambda>_.
        sock_ok ())))"

definition socket_bind_dual_stack :: "kernel \<Rightarrow> SocketAddr \<Rightarrow> bool \<Rightarrow> unit sock" where
  "socket_bind_dual_stack sys addr ipv6_only = socket_bind_dual_stack_inner sys addr ipv6_only"

definition set_disable_ip_fragmentation :: "kernel \<Rightarrow> AddrFamily \<Rightarrow> unit sock" where
  "set_disable_ip_fragmentation sys af =
     then_sock (sock_call sys (SetMtuDiscover AF_Ipv4)) (\<lambda>_.
     if af = AF_Ipv6 then sock_call sys (SetMtuDiscover AF_Ipv6) else sock_ok ())"

definition set_bindtodevice :: "kernel \<Rightarrow> string \<Rightarrow> unit sock" where
  "set_bindtodevice sys iface = sock_call sys (BindToDevice iface)"

definition udp_bind_addr :: "AddrFamily \<Rightarrow> ConnectOpts \<Rightarrow> SocketAddr" where
  "udp_bind_addr af opts = (case (af, bind_local_addr opts) of
     (AF_Ipv4, Some (IpV4 ip)) \<Rightarrow> SocketAddr_new (IpV4 ip) 0
   | (AF_Ipv6, Some (IpV6 ip)) \<Rightarrow> SocketAddr_new (IpV6 ip) 0
   | (AF_Ipv4, _) \<Rightarrow> SocketAddr_new (IpV4 (Ipv4Addr 0 0 0 0)) 0
   | (AF_Ipv6, _) \<Rightarrow> SocketAddr_new (IpV6 (Ipv6Addr 0 0 0 0 0 0 0 0)) 0)"

definition create_udp_socket :: "kernel \<Rightarrow> AddrFamily \<Rightarrow> ConnectOpts \<Rightarrow> unit sock" where
  "create_udp_socket sys af opts =
     (let bind_addr = udp_bind_addr af opts in
      then_sock
        (if af \<noteq> AF_Ipv6 then
           then_sock (sock_call sys (NewUdp (AddrFamily_from bind_addr))) (\<lambda>_. sock_call sys (BindAddr bind_addr))
         else
           then_sock (sock_call sys (NewUdp (AddrFamily_from bind_addr))) (\<lambda>_.
           then_sock (socket_bind_dual_stack sys bind_addr False) (\<lambda>_.
           then_sock (sock_call sys (SetNonblocking True)) (\<lambda>_.
           sock_call sys FromStd)))) (\<lambda>_.
      then_sock (or_else (set_disable_ip_fragmentation sys af) (\<lambda>_. sock_ok ())) (\<lambda>_.
      then_sock (if_some (fwmark opts) (\<lambda>mark. sock_call sys (SetMark mark))) (\<lambda>_.
      then_sock (if_some (bind_interface opts) (set_bindtodevice sys)) (\<lambda>_.
      sock_ok ())))))"

section \<open>TCP connections\<close>

definition set_common_sockopt_for_connect :: "kernel \<Rightarrow> SocketAddr \<Rightarrow> ConnectOpts \<Rightarrow> unit sock" where
  "set_common_sockopt_for_connect sys addr opts =
     then_sock (if_some (bind_local_addr opts) (\<lambda>ip. case (ip, sa_ip addr) of
         (IpV4 _, IpV6 _) \<Rightarrow> sock_call sys (BindAddr (SocketAddr_new ip 0))
       | (IpV6 _, IpV6 _) \<Rightarrow> sock_call sys (BindAddr (SocketAddr_new ip 0))
       | _ \<Rightarrow> sock_ok ())) (\<lambda>_.
     then_sock (if_some (send_buffer_size (tcp_opts opts)) (\<lambda>n. sock_call sys (SetSendBuffer n))) (\<lambda>_.
     if_some (recv_buffer_size (tcp_opts opts)) (\<lambda>n. sock_call sys (SetRecvBuffer n))))"

definition set_common_sockopt_after_connect :: "kernel \<Rightarrow> ConnectOpts \<Rightarrow> unit sock" where
  "set_common_sockopt_after_connect sys opts =
     then_sock (if nodelay (tcp_opts opts) then sock_call sys (SetNodelay True) else sock_ok ()) (\<lambda>_.
     if_some (keepalive (tcp_opts opts)) (\<lambda>d. sock_call sys (SetKeepalive d d)))"

definition connect_server_with_opts :: "kernel \<Rightarrow> SocketAddr \<Rightarrow> ConnectOpts \<Rightarrow> unit sock" where
  "connect_server_with_opts sys addr opts =
     then_sock (sock_call sys (NewTcp (AddrFamily_from addr))) (\<lambda>_.
     then_sock (if_some (fwmark opts) (\<lambda>mark. sock_call sys (SetMark mark))) (\<lambda>_.
     then_sock (if_some (bind_interface opts) (set_bindtodevice sys)) (\<lambda>_.
     then_sock (set_common_sockopt_for_connect sys addr opts) (\<lambda>_.
     then_sock (sock_call sys (ConnectTo addr)) (\<lambda>_.
     set_common_sockopt_after_connect sys opts)))))"

section \<open>What the calls achieve\<close>

text \<open>Calls made one after the other until one fails.\<close>

fun run_calls :: "kernel \<Rightarrow> sock_op list \<Rightarrow> unit sock" where
  "run_calls sys [] h = (Ok (), h)"
| "run_calls sys (op # ops) h = then_sock (sock_call sys op) (\<lambda>_. run_calls sys ops) h"

lemma then_sock_assoc: "then_sock (then_sock m f) g = then_sock m (\<lambda>x. then_sock (f x) g)"
  by (rule ext) (auto simp: then_sock_def split: prod.splits res.splits)

lemma then_sock_ok [simp]: "then_sock (sock_ok x) f = f x"
  by (rule ext) (simp add: then_sock_def sock_ok_def)

lemma run_calls_Nil: "run_calls sys [] = sock_ok ()"
  by (rule ext) (simp add: sock_ok_def)

lemma run_calls_Cons: "run_calls sys (op # ops) = then_sock (sock_call sys op) (\<lambda>_. run_calls sys ops)"
  by (rule ext) simp

lemma then_sock_unit: "then_sock m (\<lambda>_. sock_ok ()) = (m :: unit sock)"
  by (rule ext) (auto simp: then_sock_def sock_ok_def split: prod.splits res.splits)

lemma run_calls_append: "run_calls sys (a @ b) = then_sock (run_calls sys a) (\<lambda>_. run_calls sys b)"
  by (induction a) (simp_all only: append.simps run_calls_Nil run_calls_Cons then_sock_ok then_sock_assoc)

lemma run_calls_single: "run_calls sys [op] = sock_call sys op"
  by (simp only: run_calls_Cons run_calls_Nil then_sock_unit)

text \<open>All calls but the last one were answered with success, and the last one with \<open>x\<close>.\<close>

fun answered :: "kernel \<Rightarrow> sock_op list \<Rightarrow> sock_op list \<Rightarrow> (io_error, unit) res \<Rightarrow> bool" where
  "answered sys h [] x = (x = Ok ())"
| "answered sys h (op # ops) x = (if ops = [] then sys h op = x else sys h op = Ok () \<and> answered sys (h @ [op]) ops x)"

lemma answered_prefix:
  "answered sys h calls x \<Longrightarrow> prefix (p @ [q]) calls \<Longrightarrow> sys (h @ p) q = (if p @ [q] = calls then x else Ok ())"
proof (induction sys h calls x arbitrary: p rule: answered.induct)
  case (2 sys h op ops x)
  show ?case
  proof (cases p)
    case Nil
    with 2(2,3) show ?thesis by (auto split: if_splits)
  next
    case (Cons c cs)
    with 2(3) have c: "c = op" "prefix (cs @ [q]) ops" by simp_all
    then have "ops \<noteq> []" by auto
    with 2(1) [OF this _ c(2)] 2(2) Cons c(1) show ?thesis by simp
  qed
qed simp

lemma run_calls_outcome:
  "run_calls sys ops h = (x, h') \<Longrightarrow>
    \<exists>pre. prefix pre ops \<and> h' = h @ pre \<and> (x = Ok () \<longrightarrow> pre = ops) \<and> answered sys h pre x"
proof (induction ops arbitrary: h)
  case (Cons op ops)
  show ?case
  proof (cases "sys h op = Ok ()")
    case True
    with Cons.prems have "run_calls sys ops (h @ [op]) = (x, h')" by (simp add: then_sock_def sock_call_def)
    from Cons.IH [OF this] obtain pre where "prefix pre ops" "h' = (h @ [op]) @ pre" "x = Ok () \<longrightarrow> pre = ops"
      "answered sys (h @ [op]) pre x" by blast
    with True show ?thesis by (intro exI [of _ "op # pre"]) (cases pre; simp)
  next
    case False
    then have "(x, h') = (sys h op, h @ [op])"
      using Cons.prems by (cases "sys h op") (simp_all add: then_sock_def sock_call_def)
    with False show ?thesis by (intro exI [of _ "[op]"]) simp
  qed
qed simp

fun opt_call :: "('a \<Rightarrow> sock_op) \<Rightarrow> 'a option \<Rightarrow> sock_op list" where
  "opt_call f None = []"
| "opt_call f (Some x) = [f x]"

lemma if_some_calls: "if_some v (\<lambda>x. sock_call sys (g x)) = run_calls sys (opt_call g v)"
  by (cases v) (simp_all add: run_calls_Nil run_calls_single del: run_calls.simps)

text \<open>
  The calls of \<^verbatim>\<open>connect_server_with_opts\<close> as a list.  The local address is bound for IPv6 servers only,
  whatever its own family; nothing is done for \<^verbatim>\<open>fastopen\<close>.
\<close>

definition local_bind :: "SocketAddr \<Rightarrow> ConnectOpts \<Rightarrow> sock_op list" where
  "local_bind addr opts = (if is_ipv4 addr then []
     else opt_call (\<lambda>ip. BindAddr (SocketAddr_new ip 0)) (bind_local_addr opts))"

definition connect_plan :: "SocketAddr \<Rightarrow> ConnectOpts \<Rightarrow> sock_op list" where
  "connect_plan addr opts =
     [NewTcp (AddrFamily_from addr)]
     @ opt_call SetMark (fwmark opts)
     @ opt_call BindToDevice (bind_interface opts)
     @ local_bind addr opts
     @ opt_call SetSendBuffer (send_buffer_size (tcp_opts opts))
     @ opt_call SetRecvBuffer (recv_buffer_size (tcp_opts opts))
     @ [ConnectTo addr]
     @ (if nodelay (tcp_opts opts) then [SetNodelay True] else [])
     @ opt_call (\<lambda>d. SetKeepalive d d) (keepalive (tcp_opts opts))"

lemma local_bind_calls:
  "if_some (bind_local_addr opts) (\<lambda>ip. case (ip, sa_ip addr) of
       (IpV4 _, IpV6 _) \<Rightarrow> sock_call sys (BindAddr (SocketAddr_new ip 0))
     | (IpV6 _, IpV6 _) \<Rightarrow> sock_call sys (BindAddr (SocketAddr_new ip 0))
     | _ \<Rightarrow> sock_ok ()) = run_calls sys (local_bind addr opts)"
  by (cases "bind_local_addr opts"; cases addr)
    (simp_all add: local_bind_def run_calls_Nil run_calls_single del: run_calls.simps split: IpAddr.splits)

lemma connect_runs_plan: "connect_server_with_opts sys addr opts = run_calls sys (connect_plan addr opts)"
  unfolding connect_server_with_opts_def set_common_sockopt_for_connect_def set_common_sockopt_after_connect_def
    set_bindtodevice_def connect_plan_def run_calls_append local_bind_calls if_some_calls run_calls_single then_sock_assoc
  by (simp add: run_calls_Nil run_calls_single del: run_calls.simps)

text \<open>A UDP socket that was created is bound, to an address of the family asked for.\<close>

lemma udp_bind_addr_family: "AddrFamily_from (udp_bind_addr af opts) = af"
  by (auto simp: udp_bind_addr_def split: AddrFamily.splits option.splits IpAddr.splits)

text \<open>
  What the calls on a TCP socket have set, whatever made them.
\<close>

record sock_conf =
  k_family :: "AddrFamily option"
  k_mark :: "u32 option"
  k_device :: "string option"
  k_local :: "SocketAddr option"
  k_send_buffer :: "u32 option"
  k_recv_buffer :: "u32 option"
  k_peer :: "SocketAddr option"
  k_nodelay :: bool
  k_keepalive :: "(nat \<times> nat) option"

fun sock_effect :: "sock_op \<Rightarrow> sock_conf \<Rightarrow> sock_conf" where
  "sock_effect (NewTcp af) c = c\<lparr>k_family := Some af\<rparr>"
| "sock_effect (SetMark m) c = c\<lparr>k_mark := Some m\<rparr>"
| "sock_effect (BindToDevice d) c = c\<lparr>k_device := Some d\<rparr>"
| "sock_effect (BindAddr a) c = c\<lparr>k_local := Some a\<rparr>"
| "sock_effect (SetSendBuffer n) c = c\<lparr>k_send_buffer := Some n\<rparr>"
| "sock_effect (SetRecvBuffer n) c = c\<lparr>k_recv_buffer := Some n\<rparr>"
| "sock_effect (ConnectTo a) c = c\<lparr>k_peer := Some a\<rparr>"
| "sock_effect (SetNodelay b) c = c\<lparr>k_nodelay := b\<rparr>"
| "sock_effect (SetKeepalive idle interval) c = c\<lparr>k_keepalive := Some (idle, interval)\<rparr>"
| "sock_effect _ c = c"

definition configured :: "sock_op list \<Rightarrow> sock_conf" where
  "configured calls = fold sock_effect calls
     \<lparr>k_family = None, k_mark = None, k_device = None, k_local = None, k_send_buffer = None, k_recv_buffer = None,
      k_peer = None, k_nodelay = False, k_keepalive = None\<rparr>"

lemma opt_call_effects:
  "k_mark c = None \<Longrightarrow> fold sock_effect (opt_call SetMark m) c = c\<lparr>k_mark := m\<rparr>"
  "k_device c = None \<Longrightarrow> fold sock_effect (opt_call BindToDevice d) c = c\<lparr>k_device := d\<rparr>"
  "k_local c = None \<Longrightarrow> fold sock_effect (opt_call (\<lambda>ip. BindAddr (f ip)) v) c = c\<lparr>k_local := map_option f v\<rparr>"
  "k_send_buffer c = None \<Longrightarrow> fold sock_effect (opt_call SetSendBuffer n) c = c\<lparr>k_send_buffer := n\<rparr>"
  "k_recv_buffer c = None \<Longrightarrow> fold sock_effect (opt_call SetRecvBuffer n) c = c\<lparr>k_recv_buffer := n\<rparr>"
  "k_keepalive c = None \<Longrightarrow>
    fold sock_effect (opt_call (\<lambda>d. SetKeepalive d d) t) c = c\<lparr>k_keepalive := map_option (\<lambda>d. (d, d)) t\<rparr>"
  apply (cases m; cases c; simp)
  apply (cases d; cases c; simp)
  apply (cases v; cases c; simp)
  apply (cases n; cases c; simp)
  apply (cases n; cases c; simp)
  apply (cases t; cases c; simp)
  done

lemma local_bind_effect:
  "k_local c = None \<Longrightarrow> fold sock_effect (local_bind addr opts) c
    = c\<lparr>k_local := if is_ipv4 addr then None else map_option (\<lambda>ip. SocketAddr_new ip 0) (bind_local_addr opts)\<rparr>"
  by (cases c) (simp add: local_bind_def opt_call_effects)

definition plan_before :: "SocketAddr \<Rightarrow> ConnectOpts \<Rightarrow> sock_op list" where
  "plan_before addr opts =
     NewTcp (AddrFamily_from addr) # opt_call SetMark (fwmark opts) @ opt_call BindToDevice (bind_interface opts)
     @ local_bind addr opts @ opt_call SetSendBuffer (send_buffer_size (tcp_opts opts))
     @ opt_call SetRecvBuffer (recv_buffer_size (tcp_opts opts))"

definition plan_after :: "ConnectOpts \<Rightarrow> sock_op list" where
  "plan_after opts = (if nodelay (tcp_opts opts) then [SetNodelay True] else [])
     @ opt_call (\<lambda>d. SetKeepalive d d) (keepalive (tcp_opts opts))"

lemma connect_plan_split: "connect_plan addr opts = plan_before addr opts @ ConnectTo addr # plan_after opts"
  by (simp add: connect_plan_def plan_before_def plan_after_def)

lemma plan_connects_once: "ConnectTo addr \<notin> set (plan_before addr opts)" "ConnectTo addr \<notin> set (plan_after opts)"
proof -
  have "ConnectTo addr \<notin> set (opt_call f v)" if "\<And>x. f x \<noteq> ConnectTo addr" for f :: "u32 \<Rightarrow> sock_op" and v
    using that [symmetric] by (cases v) simp_all
  moreover have "ConnectTo addr \<notin> set (opt_call f v)" if "\<And>x. f x \<noteq> ConnectTo addr" for f :: "string \<Rightarrow> sock_op" and v
    using that [symmetric] by (cases v) simp_all
  moreover have "ConnectTo addr \<notin> set (local_bind addr opts)"
    by (cases "bind_local_addr opts") (simp_all add: local_bind_def)
  ultimately show "ConnectTo addr \<notin> set (plan_before addr opts)" by (simp add: plan_before_def)
  show "ConnectTo addr \<notin> set (plan_after opts)"
    by (cases "keepalive (tcp_opts opts)") (simp_all add: plan_after_def)
qed

lemma configured_plan:
  "configured (plan_before addr opts) =
     \<lparr>k_family = Some (AddrFamily_from addr), k_mark = fwmark opts, k_device = bind_interface opts,
      k_local = (if is_ipv4 addr then None else map_option (\<lambda>ip. SocketAddr_new ip 0) (bind_local_addr opts)),
      k_send_buffer = send_buffer_size (tcp_opts opts), k_recv_buffer = recv_buffer_size (tcp_opts opts),
      k_peer = None, k_nodelay = False, k_keepalive = None\<rparr>"
  "configured (connect_plan addr opts) = (configured (plan_before addr opts))
     \<lparr>k_peer := Some addr, k_nodelay := nodelay (tcp_opts opts), k_keepalive := map_option (\<lambda>d. (d, d)) (keepalive (tcp_opts opts))\<rparr>"
proof -
  show before: "configured (plan_before addr opts) =
     \<lparr>k_family = Some (AddrFamily_from addr), k_mark = fwmark opts, k_device = bind_interface opts,
      k_local = (if is_ipv4 addr then None else map_option (\<lambda>ip. SocketAddr_new ip 0) (bind_local_addr opts)),
      k_send_buffer = send_buffer_size (tcp_opts opts), k_recv_buffer = recv_buffer_size (tcp_opts opts),
      k_peer = None, k_nodelay = False, k_keepalive = None\<rparr>"
    by (simp add: configured_def plan_before_def opt_call_effects local_bind_effect)
  have "configured (connect_plan addr opts)
      = fold sock_effect (ConnectTo addr # plan_after opts) (configured (plan_before addr opts))"
    by (simp add: configured_def connect_plan_split)
  then show "configured (connect_plan addr opts) = (configured (plan_before addr opts))
     \<lparr>k_peer := Some addr, k_nodelay := nodelay (tcp_opts opts), k_keepalive := map_option (\<lambda>d. (d, d)) (keepalive (tcp_opts opts))\<rparr>"
    by (simp add: before plan_after_def opt_call_effects)
qed

section \<open>Properties\<close>

text \<open>
  C38: connecting to a server, for every kernel.  Each call is made only after all the ones before it have
  succeeded, and the result is that of the last call made.  When the socket is told to connect, it has the
  family of the server's address, and exactly the mark, the interface and the buffer sizes of the options have been
  set, no more; the local address has been bound if the server's address is IPv6, and is ignored if it is
  IPv4.  When connecting succeeds, the socket is connected to that address, and has no delay and the keep-alive idle time and
  interval as the options say.  The option \<^verbatim>\<open>fastopen\<close> and the number of keep-alive probes do not occur.
\<close>

theorem connect_configures:
  "\<exists>x calls. connect_server_with_opts sys addr opts [] = (x, calls)
    \<and> (\<forall>p op. prefix (p @ [op]) calls \<longrightarrow> sys p op = (if p @ [op] = calls then x else Ok ()))
    \<and> (\<forall>before after. calls = before @ ConnectTo addr # after \<longrightarrow> configured before =
        \<lparr>k_family = Some (AddrFamily_from addr), k_mark = fwmark opts, k_device = bind_interface opts,
         k_local = (if is_ipv4 addr then None else map_option (\<lambda>ip. SocketAddr_new ip 0) (bind_local_addr opts)),
         k_send_buffer = send_buffer_size (tcp_opts opts), k_recv_buffer = recv_buffer_size (tcp_opts opts),
         k_peer = None, k_nodelay = False, k_keepalive = None\<rparr>)
    \<and> (x = Ok () \<longrightarrow> configured calls =
        \<lparr>k_family = Some (AddrFamily_from addr), k_mark = fwmark opts, k_device = bind_interface opts,
         k_local = (if is_ipv4 addr then None else map_option (\<lambda>ip. SocketAddr_new ip 0) (bind_local_addr opts)),
         k_send_buffer = send_buffer_size (tcp_opts opts), k_recv_buffer = recv_buffer_size (tcp_opts opts),
         k_peer = Some addr, k_nodelay = nodelay (tcp_opts opts),
         k_keepalive = map_option (\<lambda>d. (d, d)) (keepalive (tcp_opts opts))\<rparr>)"
proof -
  obtain x calls where r: "run_calls sys (connect_plan addr opts) [] = (x, calls)" by fastforce
  from run_calls_outcome [OF r] have calls: "prefix calls (connect_plan addr opts)" "x = Ok () \<longrightarrow> calls = connect_plan addr opts"
    and "answered sys [] calls x" by auto
  then have ans: "\<forall>p op. prefix (p @ [op]) calls \<longrightarrow> sys p op = (if p @ [op] = calls then x else Ok ())"
    using answered_prefix [of sys "[]" calls x] by auto
  have "before = plan_before addr opts" if c: "calls = before @ ConnectTo addr # after" for before after
  proof -
    from calls(1) c obtain rest where "connect_plan addr opts = before @ ConnectTo addr # (after @ rest)"
      by (auto elim!: prefixE)
    then show ?thesis
      by (simp only: connect_plan_split append_Cons_eq_iff [OF plan_connects_once])
  qed
  then have conn: "\<forall>before after. calls = before @ ConnectTo addr # after \<longrightarrow> configured before = configured (plan_before addr opts)"
    by blast
  have fin: "x = Ok () \<longrightarrow> configured calls = configured (connect_plan addr opts)" using calls(2) by blast
  show ?thesis
    using ans conn [unfolded configured_plan(1)] fin [unfolded configured_plan sock_conf.update_convs]
    by (intro exI [of _ x] exI [of _ calls] conjI) (simp_all only: connect_runs_plan r)
qed

definition demo_connect :: ConnectOpts where
  "demo_connect = \<lparr>fwmark = Some 7, bind_local_addr = None, bind_interface = None,
     tcp_opts = TcpSocketOpts_default\<lparr>nodelay := True, keepalive := Some 30\<rparr>\<rparr>"

theorem connect_configures_witness:
  "fst (connect_server_with_opts (\<lambda>h op. Ok ()) (V4 (Ipv4Addr 10 0 0 1) 443) demo_connect []) = Ok ()
   \<and> configured (snd (connect_server_with_opts (\<lambda>h op. Ok ()) (V4 (Ipv4Addr 10 0 0 1) 443) demo_connect [])) =
     \<lparr>k_family = Some AF_Ipv4, k_mark = Some 7, k_device = None, k_local = None, k_send_buffer = None, k_recv_buffer = None,
      k_peer = Some (V4 (Ipv4Addr 10 0 0 1) 443), k_nodelay = True, k_keepalive = Some (30, 30)\<rparr>"
proof -
  let ?c = "connect_server_with_opts (\<lambda>h op. Ok ()) (V4 (Ipv4Addr 10 0 0 1) 443) demo_connect []"
  have ok: "fst ?c = Ok ()"
    by (simp add: connect_runs_plan connect_plan_def local_bind_def demo_connect_def TcpSocketOpts_default_def then_sock_def sock_call_def)
  obtain x calls where c: "?c = (x, calls)" by fastforce
  with connect_configures [of "\<lambda>h op. Ok ()" "V4 (Ipv4Addr 10 0 0 1) 443" demo_connect] ok show ?thesis
    by (auto simp: demo_connect_def TcpSocketOpts_default_def)
qed

end
