(* ===== verification/UdpSocket.thy ===== *)
theory UdpSocket
  imports UdpAead2022 SysNet
begin

text \<open>
  \<^verbatim>\<open>lib/shadowsocks/src/udp/crypto.rs\<close> and \<^verbatim>\<open>udp/proxy_socket.rs\<close>: the UDP client of a shadowsocks
  server.  For the AEAD-2022 methods both directions ask for the lengths of the packet's parts
  first, and these panic, so that the cache of session ciphers is never changed by a socket.
\<close>

section \<open>Packets\<close>

datatype UdpProtocolError = Udp_InvalidAddress Socks5Error | UdpAead UdpAeadError | UdpAead2022 UdpAead2022Error

fun UdpProtocolError_fmt :: "UdpProtocolError \<Rightarrow> string" where
  "UdpProtocolError_fmt (Udp_InvalidAddress e) = ''invalid address in packet, '' @ Socks5Error_fmt e"
| "UdpProtocolError_fmt (UdpAead e) = UdpAeadError_fmt e"
| "UdpProtocolError_fmt (UdpAead2022 e) = UdpAead2022Error_fmt e"

text \<open>
  What the AEAD-2022 functions use beyond the arguments of the calls: the crates, the cache of the thread, the clock, the
  padding's random number, the contents of uninitialised memory and the address of the socket's key.
\<close>

record 'c udp_env =
  ue_block :: block_prims
  ue_lru :: "(CipherKey, UdpCipher, 'c) lru_lib"
  ue_cache :: 'c
  ue_now :: u64
  ue_rnd :: nat
  ue_junk :: "nat \<Rightarrow> bytes"
  ue_key_ptr :: u64

definition encrypt_client_payload :: "crypto_prims \<Rightarrow> 'c udp_env \<Rightarrow> (nat \<Rightarrow> nat \<Rightarrow> bytes) \<Rightarrow> nat \<Rightarrow> CipherKind \<Rightarrow> bytes \<Rightarrow> Address
    \<Rightarrow> UdpSocketControlData \<Rightarrow> bytes list \<Rightarrow> bytes \<Rightarrow> bytes \<Rightarrow> (unit, bytes) res option" where
  "encrypt_client_payload P E rng j kind key addr control identity_keys payload dst = (case category kind of
     Aead \<Rightarrow> encrypt_payload_aead P rng j kind key addr payload dst
   | Aead2022 \<Rightarrow> map_option fst (encrypt_client_payload_aead_2022 P (ue_block E) (ue_lru E) rng j (ue_now E) (ue_rnd E) (ue_junk E)
       kind \<lparr>ptr = ue_key_ptr E, contents_of = key\<rparr> addr control identity_keys payload dst (ue_cache E)))"

text \<open>
  The length of the payload, the address and the control data of AEAD-2022, with the buffer
  afterwards.
\<close>

definition decrypt_server_payload :: "crypto_prims \<Rightarrow> 'c udp_env \<Rightarrow> CipherKind \<Rightarrow> bytes \<Rightarrow> bytes
    \<Rightarrow> (UdpProtocolError, (nat \<times> Address \<times> UdpSocketControlData option) \<times> bytes) res" where
  "decrypt_server_payload P E kind key payload = (case category kind of
     Aead \<Rightarrow> map_err UdpAead (map_ok (\<lambda>((n, a), p). ((n, a, None), p)) (decrypt_payload_aead P kind key payload))
   | Aead2022 \<Rightarrow> map_err UdpAead2022 (map_ok (\<lambda>((n, a, c), p). ((n, a, Some c), p))
       (fst (decrypt_server_payload_aead_2022 P (ue_block E) (ue_lru E) (ue_now E) kind
         \<lparr>ptr = ue_key_ptr E, contents_of = key\<rparr> payload (ue_cache E)))))"

text \<open>The AEAD-2022 functions panic for every method, before they look at the cache.\<close>

lemma lengths_2022_panic: "bind_res (get_nonce_len kind) (\<lambda>n. bind_res (tag_len kind) (f n)) = Panic"
  by (cases kind) simp_all

lemma encrypt_2022_panics:
  "encrypt_client_payload_aead_2022 P B L rng j now rnd junk kind key addr control ids payload dst cache = Some (Panic, cache)"
  by (simp add: encrypt_client_payload_aead_2022_def lengths_2022_panic)

lemma decrypt_2022_panics: "decrypt_server_payload_aead_2022 P B L now kind key payload cache = (Panic, cache)"
  by (simp add: decrypt_server_payload_aead_2022_def lengths_2022_panic)

section \<open>The socket\<close>

text \<open>An identity is the text \<^verbatim>\<open>ByteStr\<close> prints for it, as in \<^verbatim>\<open>tcp/aead2022.rs\<close>.\<close>

datatype ProxySocketError = PS_IoError io_error | PS_ProtocolError UdpProtocolError
  | PS_ProtocolErrorWithPeer SocketAddr UdpProtocolError | PS_InvalidServerUser string | PS_Resolve string

fun ProxySocketError_fmt :: "ProxySocketError \<Rightarrow> string" where
  "ProxySocketError_fmt (PS_IoError e) = err_msg e"
| "ProxySocketError_fmt (PS_ProtocolError e) = UdpProtocolError_fmt e"
| "ProxySocketError_fmt (PS_ProtocolErrorWithPeer a e) = ''peer: '' @ show_socket_addr a @ '', '' @ UdpProtocolError_fmt e"
| "ProxySocketError_fmt (PS_InvalidServerUser u) = ''invalid server user identity '' @ u"
| "ProxySocketError_fmt (PS_Resolve e) = ''resolve failed, '' @ e"

fun ProxySocketError_into_io :: "ProxySocketError \<Rightarrow> io_error" where
  "ProxySocketError_into_io (PS_IoError e) = e"
| "ProxySocketError_into_io e = IoError Other (ProxySocketError_fmt e)"

record ProxySocket =
  us_kind :: CipherKind
  us_key :: bytes
  us_send_timeout :: "nat option"
  us_recv_timeout :: "nat option"
  us_identity_keys :: "bytes list"

definition set_timeouts :: "nat option \<Rightarrow> nat option \<Rightarrow> ProxySocket \<Rightarrow> ProxySocket" where
  "set_timeouts send recv ps = ps\<lparr>us_send_timeout := send, us_recv_timeout := recv\<rparr>"

text \<open>\<^verbatim>\<open>connect_with_opts\<close>, with the calls made on the new socket.\<close>

definition udp_connect_with_opts :: "kernel \<Rightarrow> (string \<Rightarrow> u16 \<Rightarrow> (string, SocketAddr) res) \<Rightarrow> ServerConfig \<Rightarrow> ConnectOpts
    \<Rightarrow> (ProxySocketError, ProxySocket \<times> sock_op list) res" where
  "udp_connect_with_opts sys resolve sc opts =
     bind_res (case sc_addr sc of
         SocketAddress remote \<Rightarrow> Ok remote
       | DomainNameAddress domain port \<Rightarrow> map_err PS_Resolve (resolve domain port)) (\<lambda>addr.
     case then_sock (create_udp_socket sys (AddrFamily_from addr) opts) (\<lambda>_. sock_call sys (ConnectTo addr)) [] of
       (Ok _, calls) \<Rightarrow> Ok (\<lparr>us_kind = sc_method sc, us_key = sc_enc_key sc, us_send_timeout = None,
           us_recv_timeout = None, us_identity_keys = sc_identity_keys sc\<rparr>, calls)
     | (Err e, calls) \<Rightarrow> Err (PS_IoError e)
     | (Panic, calls) \<Rightarrow> Panic)"

definition udp_connect :: "kernel \<Rightarrow> (string \<Rightarrow> u16 \<Rightarrow> (string, SocketAddr) res) \<Rightarrow> ServerConfig
    \<Rightarrow> (ProxySocketError, ProxySocket \<times> sock_op list) res" where
  "udp_connect sys resolve sc = udp_connect_with_opts sys resolve sc ConnectOpts_default"

text \<open>
  A socket operation completes after some time or never.  \<^verbatim>\<open>time::timeout\<close> polls the operation
  before the timer, so an operation that completes at the deadline wins.  \<^const>\<open>None\<close> is a call
  that never returns.
\<close>

datatype 'a awaited = Completes nat "(io_error, 'a) res" | Never

definition timed_out :: ProxySocketError where
  "timed_out = PS_IoError (IoError TimedOut ''timed out'')"

fun await_within :: "nat option \<Rightarrow> 'a awaited \<Rightarrow> (ProxySocketError, 'a) res option" where
  "await_within None Never = None"
| "await_within None (Completes t x) = Some (map_err PS_IoError x)"
| "await_within (Some d) Never = Some (Err timed_out)"
| "await_within (Some d) (Completes t x) = Some (if t \<le> d then map_err PS_IoError x else Err timed_out)"

definition encrypt_send_buffer :: "crypto_prims \<Rightarrow> 'c udp_env \<Rightarrow> (nat \<Rightarrow> nat \<Rightarrow> bytes) \<Rightarrow> nat \<Rightarrow> ProxySocket \<Rightarrow> Address
    \<Rightarrow> UdpSocketControlData \<Rightarrow> bytes list \<Rightarrow> bytes \<Rightarrow> bytes \<Rightarrow> (unit, bytes) res option" where
  "encrypt_send_buffer P E rng j ps addr control identity_keys payload send_buf =
     encrypt_client_payload P E rng j (us_kind ps) (us_key ps) addr control identity_keys payload send_buf"

text \<open>\<open>os\<close> is the network: what becomes of a datagram handed to the socket.\<close>

definition send :: "crypto_prims \<Rightarrow> 'c udp_env \<Rightarrow> (nat \<Rightarrow> nat \<Rightarrow> bytes) \<Rightarrow> nat \<Rightarrow> (bytes \<Rightarrow> nat awaited) \<Rightarrow> ProxySocket \<Rightarrow> Address \<Rightarrow> bytes
    \<Rightarrow> UdpSocketControlData \<Rightarrow> (ProxySocketError, nat) res option" where
  "send P E rng j os ps addr payload control =
     (case encrypt_send_buffer P E rng j ps addr control (us_identity_keys ps) payload [] of
        None \<Rightarrow> None
      | Some (Ok send_buf) \<Rightarrow> await_within (us_send_timeout ps) (os send_buf)
      | Some _ \<Rightarrow> Some Panic)"

definition decrypt_recv_buffer :: "crypto_prims \<Rightarrow> 'c udp_env \<Rightarrow> ProxySocket \<Rightarrow> bytes
    \<Rightarrow> (UdpProtocolError, (nat \<times> Address \<times> UdpSocketControlData option) \<times> bytes) res" where
  "decrypt_recv_buffer P E ps recv_buf = decrypt_server_payload P E (us_kind ps) (us_key ps) recv_buf"

text \<open>
  A datagram longer than the buffer is cut.  The result comes with the buffer afterwards.
\<close>

definition recv_with_ctrl :: "crypto_prims \<Rightarrow> 'c udp_env \<Rightarrow> bytes awaited \<Rightarrow> ProxySocket \<Rightarrow> bytes
    \<Rightarrow> (ProxySocketError, (nat \<times> Address \<times> nat \<times> UdpSocketControlData option) \<times> bytes) res option" where
  "recv_with_ctrl P E datagram ps recv_buf =
     map_option (\<lambda>x. bind_res x (\<lambda>d.
       let recv_n = min (length d) (length recv_buf) in
       bind_res (map_err PS_ProtocolError (decrypt_recv_buffer P E ps (take recv_n d))) (\<lambda>((n, addr, control), p).
       Ok ((n, addr, recv_n, control), p @ drop recv_n recv_buf))))
     (await_within (us_recv_timeout ps) datagram)"

definition recv :: "crypto_prims \<Rightarrow> 'c udp_env \<Rightarrow> bytes awaited \<Rightarrow> ProxySocket \<Rightarrow> bytes
    \<Rightarrow> (ProxySocketError, (nat \<times> Address \<times> nat) \<times> bytes) res option" where
  "recv P E datagram ps recv_buf =
     map_option (map_ok (\<lambda>((n, a, rn, _), b). ((n, a, rn), b))) (recv_with_ctrl P E datagram ps recv_buf)"

section \<open>Properties\<close>

text \<open>
  C11: what one client sends to a target through its socket, a client of the same server whose socket
  has a receive timeout receives with that target and payload: the packet handed to the network is received and decrypted within
  the timeout, and the payload is at the start of the buffer.  Without an answer the call ends
  with a timeout.
\<close>

theorem udp_exchange:
  assumes "aead_laws P" and "is_aead (us_kind a)" and "us_kind b = us_kind a" and "us_key b = us_key a"
    and "length (us_key a) = kind_key_size (us_kind a)" and "addr_wf target" and "length payload \<le> 65536"
    and "\<And>j n. length (rng j n) = n" and "\<not> list_all (\<lambda>x. x = 0) (rng j (kind_key_size (us_kind a)))"
    and "us_recv_timeout b = Some d"
  shows "\<exists>pkt. (\<forall>os. send P E rng j os a target payload control = await_within (us_send_timeout a) (os pkt))
    \<and> length pkt = kind_key_size (us_kind a) + serialized_len target + length payload + tag_size
    \<and> (\<forall>t \<le> d. \<forall>buf. length pkt \<le> length buf \<longrightarrow>
        (\<exists>buf'. recv P E (Completes t (Ok pkt)) b buf = Some (Ok ((length payload, addr_norm target, length pkt), buf'))
           \<and> take (length payload) buf' = payload \<and> length buf' = length buf))
    \<and> recv P E Never b buf = Some (Err timed_out)"
proof -
  let ?k = "us_kind a" and ?key = "us_key a" and ?salt = "rng j (kind_key_size (us_kind a))"
  let ?pkt = "?salt @ sealed P (fresh_cipher P ?k ?key ?salt) (addr_bytes target @ payload)"
  have cat: "category ?k = Aead" using assms(2) by (auto simp: is_aead_def)
  have "0 < kind_key_size ?k" by (cases ?k) auto
  then have "generate_nonce rng j ?k (resize (kind_key_size ?k) []) = Some ?salt"
    using random_loop_first [of rng j "kind_key_size ?k"] assms(9) by (simp add: generate_nonce_def random_iv_or_salt_def resize_def)
  from encrypt_payload_aead_eq [OF assms(1,2,5,6,7) this assms(8)]
  have "send P E rng j os a target payload control = await_within (us_send_timeout a) (os ?pkt)" for os
    by (simp add: send_def encrypt_send_buffer_def encrypt_client_payload_def cat)
  moreover have len: "length ?pkt = kind_key_size ?k + serialized_len target + length payload + tag_size"
    using length_sealed_packet [OF assms(1,2,5,6,7) assms(8)] by simp
  moreover have "\<exists>buf'. recv P E (Completes t (Ok ?pkt)) b buf = Some (Ok ((length payload, addr_norm target, length ?pkt), buf'))
      \<and> take (length payload) buf' = payload \<and> length buf' = length buf" if "t \<le> d" "length ?pkt \<le> length buf" for t buf
  proof -
    obtain p where p: "decrypt_payload_aead P ?k ?key ?pkt = Ok ((length payload, addr_norm target), p)"
      "take (length payload) p = payload"
      using decrypt_sealed_packet [OF assms(1,2,5,6,7) assms(8)] by blast
    moreover have lp: "length p = length ?pkt"
      using decrypt_long_enough(2) [OF assms(1,2,5) _ p(1)] len by simp
    moreover have "recv_with_ctrl P E (Completes t (Ok ?pkt)) b buf
        = Some (Ok ((length payload, addr_norm target, length ?pkt, None), p @ drop (length ?pkt) buf))"
      using that p(1) assms(3,4,10)
      by (simp add: recv_with_ctrl_def decrypt_recv_buffer_def decrypt_server_payload_def cat Let_def)
    moreover have "length (p @ drop (length ?pkt) buf) = length buf" using lp that(2) by simp
    ultimately show ?thesis using that len by (simp add: recv_def del: length_append)
  qed
  moreover have "recv P E Never b buf = Some (Err timed_out)" using assms(10) by (simp add: recv_def recv_with_ctrl_def)
  ultimately show ?thesis by blast
qed

definition demo_env :: "(nat \<times> (CipherKey \<times> UdpCipher) list) udp_env" where
  "demo_env = \<lparr>ue_block = null_block, ue_lru = list_lru, ue_cache = lru_new list_lru CIPHER_CACHE_LIMIT, ue_now = 0, ue_rnd = 0,
     ue_junk = (\<lambda>n. replicate n 0), ue_key_ptr = 0\<rparr>"

theorem udp_exchange_witness:
  "\<exists>pkt. send null_prims demo_env (\<lambda>j n. replicate n 7) 0 (\<lambda>b. Completes 1 (Ok (length b)))
      \<lparr>us_kind = AES_128_GCM, us_key = replicate 16 1, us_send_timeout = None, us_recv_timeout = Some 5, us_identity_keys = []\<rparr>
      (DomainNameAddress ''a.b'' 53) [1, 2, 3] UdpSocketControlData_default = Some (Ok (length pkt))
    \<and> length pkt = 42
    \<and> (\<exists>buf'. recv null_prims demo_env (Completes 5 (Ok pkt))
        \<lparr>us_kind = AES_128_GCM, us_key = replicate 16 1, us_send_timeout = None, us_recv_timeout = Some 5, us_identity_keys = []\<rparr>
        (replicate 64 0) = Some (Ok ((3, DomainNameAddress ''a.b'' 53, 42), buf')) \<and> take 3 buf' = [1, 2, 3])"
proof -
  let ?s = "\<lparr>us_kind = AES_128_GCM, us_key = replicate 16 1, us_send_timeout = None, us_recv_timeout = Some 5, us_identity_keys = []\<rparr>"
  have a: "addr_wf (DomainNameAddress ''a.b'' 53)" by (simp add: valid_utf8_ascii is_ascii_def)
  have "\<exists>pkt. (\<forall>os. send null_prims demo_env (\<lambda>j n. replicate n 7) 0 os ?s (DomainNameAddress ''a.b'' 53) [1, 2, 3]
      UdpSocketControlData_default = await_within (us_send_timeout ?s) (os pkt)) \<and> length pkt = 42
    \<and> (\<forall>t \<le> 5. \<forall>buf. length pkt \<le> length buf \<longrightarrow>
        (\<exists>buf'. recv null_prims demo_env (Completes t (Ok pkt)) ?s buf = Some (Ok ((3, DomainNameAddress ''a.b'' 53, length pkt), buf'))
           \<and> take 3 buf' = [1, 2, 3] \<and> length buf' = length buf))
    \<and> recv null_prims demo_env Never ?s [] = Some (Err timed_out)"
    using udp_exchange [where E = demo_env, OF null_prims_laws, of ?s ?s "DomainNameAddress ''a.b'' 53" "[1, 2, 3]" "\<lambda>j n. replicate n 7" 0 5
      UdpSocketControlData_default "[]"] a
    by (simp add: is_aead_def list_all_iff serialized_len_def tag_size_def numeral_3_eq_3)
  then obtain pkt where "\<forall>os. send null_prims demo_env (\<lambda>j n. replicate n 7) 0 os ?s (DomainNameAddress ''a.b'' 53) [1, 2, 3]
      UdpSocketControlData_default = await_within (us_send_timeout ?s) (os pkt)" and len: "length pkt = 42"
    and r: "\<forall>t \<le> 5. \<forall>buf. length pkt \<le> length buf \<longrightarrow>
        (\<exists>buf'. recv null_prims demo_env (Completes t (Ok pkt)) ?s buf = Some (Ok ((3, DomainNameAddress ''a.b'' 53, length pkt), buf'))
           \<and> take 3 buf' = [1, 2, 3] \<and> length buf' = length buf)" by blast
  moreover have "\<exists>buf'. recv null_prims demo_env (Completes 5 (Ok pkt)) ?s (replicate 64 0)
      = Some (Ok ((3, DomainNameAddress ''a.b'' 53, length pkt), buf')) \<and> take 3 buf' = [1, 2, 3]"
    using r [rule_format, of 5 "replicate 64 0"] len by auto
  ultimately show ?thesis by auto
qed

end
