(* ===== verification/TcpStream2022.thy ===== *)
theory TcpStream2022
  imports TcpAead2022
begin

text \<open>
  What \<^verbatim>\<open>tcp/aead2022.rs\<close> sends and accepts.  The program builds its reader and writer for the AEAD-2022
  methods only, whose lengths are \<^verbatim>\<open>todo!()\<close>: there both halves panic at once (the property is in the root
  theory).  The lemmas here read the code with the lengths and ciphers of the AEAD methods in their
  place, which no caller does today: then the reader delivers what a server sealed behind a valid
  response header, and the writer sends a request header and packets.  The clock behind the time
  stamps does not depend on the method.
\<close>

section \<open>Time stamps\<close>

lemma unat_fraction:
  assumes "unat n < 10 ^ 9"
  shows "unat (n * 9223372037 :: u64) = unat n * 9223372037"
proof -
  have "unat n * 9223372037 < 10 ^ 9 * 9223372037" using assms by (simp only: mult_less_mono1)
  then have "unat n * unat (9223372037 :: u64) < 2 ^ LENGTH(64)" by simp
  then show ?thesis by (simp add: unat_mult_lem [THEN iffD1])
qed

lemma get_now_timestamp_value:
  assumes "unat (tv_sec tp) < 2 ^ 32" and "unat (tv_nsec tp) < 10 ^ 9"
  shows "unat (get_now_timestamp tp) = unat (tv_sec tp) * 2 ^ 32 + unat (tv_nsec tp) * 9223372037 div 2 ^ 31"
    and "unat (tv_nsec tp) * 9223372037 div 2 ^ 31 < 2 ^ 32"
proof -
  let ?f = "unat (tv_nsec tp) * 9223372037 div 2 ^ 31"
  have "unat (tv_nsec tp) * 9223372037 \<le> (10 ^ 9 - 1) * 9223372037" using assms(2) by (intro mult_le_mono1) simp
  then show f: "?f < 2 ^ 32" by simp
  have d: "unat (drop_bit 31 (tv_nsec tp * 9223372037)) = ?f"
    unfolding unat_drop_bit_eq unat_fraction [OF assms(2)] by (rule drop_bit_eq_div)
  have p: "unat (push_bit 32 (tv_sec tp)) = unat (tv_sec tp) * 2 ^ 32"
  proof -
    have "unat (tv_sec tp) * unat (2 ^ 32 :: u64) < 2 ^ LENGTH(64)" using assms(1) by simp
    then have "unat (tv_sec tp * 2 ^ 32) = unat (tv_sec tp) * unat (2 ^ 32 :: u64)" by (rule unat_mult_lem [THEN iffD1])
    then show ?thesis by (simp add: push_bit_eq_mult)
  qed
  have disj: "push_bit 32 (tv_sec tp) AND drop_bit 31 (tv_nsec tp * 9223372037) = 0"
  proof (rule bit_word_eqI)
    fix n
    have "take_bit 32 ?f = ?f" using f by (rule take_bit_nat_eq_self)
    then have "bit (drop_bit 31 (tv_nsec tp * 9223372037)) n \<Longrightarrow> n < 32"
      by (metis d bit_take_bit_iff bit_unsigned_iff possible_bit_nat)
    then show "bit (push_bit 32 (tv_sec tp) AND drop_bit 31 (tv_nsec tp * 9223372037)) n = bit (0 :: u64) n"
      by (auto simp: bit_simps)
  qed
  then have "get_now_timestamp tp = push_bit 32 (tv_sec tp) + drop_bit 31 (tv_nsec tp * 9223372037)"
    unfolding get_now_timestamp_def by (rule disjunctive_add_eq_or [symmetric])
  moreover have "unat (push_bit 32 (tv_sec tp)) + unat (drop_bit 31 (tv_nsec tp * 9223372037)) < 2 ^ 64"
    using assms(1) f p d by simp
  ultimately show "unat (get_now_timestamp tp) = unat (tv_sec tp) * 2 ^ 32 + ?f"
    using p d by (simp add: unat_add_lem [THEN iffD1])
qed


section \<open>The writer\<close>

lemma packet_2022_le: "length d \<le> AEAD2022_MAX_PACKET_SIZE \<Longrightarrow> length d \<le> 2 ^ 36"
  by (simp add: AEAD2022_MAX_PACKET_SIZE_def)

lemma seal_chunks_sealed:
  assumes "aead_law P" and "cipher_wf (e_cipher w)" and "length a \<le> 2 ^ 36" and "length b \<le> 2 ^ 36"
  shows "seal_chunks P a b w = Ok (w\<lparr>e_cipher := increase_nonce (increase_nonce (e_cipher w)),
    e_buffer := e_buffer w @ sealed P (e_cipher w) a @ sealed P (increase_nonce (e_cipher w)) b, e_state := Writing_2022 0\<rparr>)"
  using assms increase_nonce_wf(1) [OF assms(2)]
  by (simp add: seal_chunks_def Cipher_tag_len_16 Let_def Cipher_encrypt_sealed [OF assms(1)])

text \<open>A caller that polls until the write is done; the clock \<open>now\<close> gives the time of each poll.\<close>

lemma poll_write_encrypted_2022_grants:
  "poll_write_encrypted_2022 P now w s buf = (Pending, w', s') \<Longrightarrow> length (grants s') < length (grants s)"
  by (auto simp: poll_write_encrypted_2022_def finish_write_2022_def Let_def
      split: res.splits poll.splits prod.splits dest!: write_loop_grants)

function drive_write_2022 :: "crypto_prims \<Rightarrow> (nat \<Rightarrow> u64) \<Rightarrow> nat \<Rightarrow> EncryptedWriter_2022 \<Rightarrow> wsocket \<Rightarrow> bytes
    \<Rightarrow> (io_error, nat) res \<times> nat \<times> EncryptedWriter_2022 \<times> wsocket" where
  "drive_write_2022 P now i w s buf = (case poll_write_encrypted_2022 P (now i) w s buf of
     (Pending, w', s') \<Rightarrow> drive_write_2022 P now (Suc i) w' s' buf
   | (Ready r, w', s') \<Rightarrow> (r, Suc i, w', s'))"
  by pat_completeness auto
termination
  by (relation "measure (\<lambda>(P, now, i, w, s, buf). length (grants s))")
    (auto dest: poll_write_encrypted_2022_grants [OF sym])

declare drive_write_2022.simps [simp del]

fun write_all_2022 :: "crypto_prims \<Rightarrow> (nat \<Rightarrow> u64) \<Rightarrow> nat \<Rightarrow> EncryptedWriter_2022 \<Rightarrow> wsocket \<Rightarrow> bytes list
    \<Rightarrow> (io_error, EncryptedWriter_2022 \<times> wsocket) res" where
  "write_all_2022 P now i w s [] = Ok (w, s)"
| "write_all_2022 P now i w s (b # bs) = (case drive_write_2022 P now i w s b of
     (Ok _, i', w', s') \<Rightarrow> write_all_2022 P now i' w' s' bs
   | (Err e, i', w', s') \<Rightarrow> Err e
   | (Panic, i', w', s') \<Rightarrow> Panic)"

lemma drive_writing_2022:
  assumes "good_grants s" and "e_state w = Writing_2022 pos" and "pos \<le> length (e_buffer w)"
    and "length buf \<le> AEAD2022_MAX_PACKET_SIZE"
  shows "\<exists>i' s'. drive_write_2022 P now i w s buf
      = (Ok (length buf), i', w\<lparr>e_state := AssemblePacket_2022, e_buffer := []\<rparr>, s')
    \<and> good_grants s' \<and> sent s' = sent s @ drop pos (e_buffer w)"
  using assms
proof (induction "length (grants s)" arbitrary: i s w pos rule: less_induct)
  case less
  obtain p pos' s' where l: "write_loop (e_buffer w) pos s = (p, pos', s')" by (metis prod_cases3)
  note g = write_loop_good [OF less.prems(1,3) l]
  have pw: "poll_write_encrypted_2022 P (now i) w s buf = (case p of Pending \<Rightarrow> (Pending, w\<lparr>e_state := Writing_2022 pos'\<rparr>, s')
    | Ready _ \<Rightarrow> (Ready (Ok (length buf)), w\<lparr>e_state := AssemblePacket_2022, e_buffer := []\<rparr>, s'))"
    using less.prems(2,4) l g by (auto simp: poll_write_encrypted_2022_def finish_write_2022_def Let_def)
  show ?case
  proof (cases "p = Pending")
    case True
    with l have "length (grants s') < length (grants s)" using write_loop_grants by blast
    from less.hyps [OF this, of "w\<lparr>e_state := Writing_2022 pos'\<rparr>" pos' "Suc i"] g True pw less.prems(4) show ?thesis
      by (subst drive_write_2022.simps) auto
  next
    case False
    with g pw show ?thesis by (subst drive_write_2022.simps) auto
  qed
qed

text \<open>What one write puts behind the buffer: the header for the first, the length for the others.\<close>

definition chunk_prefix :: "u64 \<Rightarrow> bytes \<Rightarrow> EncryptedWriter_2022 \<Rightarrow> bytes" where
  "chunk_prefix now buf w = (case e_state w of
     AssembleHeader \<Rightarrow> 0 # be64 now @ be16 (of_nat (length buf))
   | _ \<Rightarrow> be16 (of_nat (length buf)))"

lemma drive_write_2022_chunks:
  assumes "aead_law P" and "cipher_wf (e_cipher w)" and "good_grants s"
    and "e_state w = AssembleHeader \<or> e_state w = AssemblePacket_2022" and "e_request_salt w = None"
    and "length buf \<le> AEAD2022_MAX_PACKET_SIZE"
  shows "\<exists>i' s'. drive_write_2022 P now i w s buf
      = (Ok (length buf), i', w\<lparr>e_cipher := increase_nonce (increase_nonce (e_cipher w)), e_buffer := [],
          e_state := AssemblePacket_2022\<rparr>, s')
    \<and> good_grants s' \<and> sent s' = sent s @ e_buffer w @ sealed P (e_cipher w) (chunk_prefix (now i) buf w)
        @ sealed P (increase_nonce (e_cipher w)) buf"
proof -
  let ?w = "w\<lparr>e_cipher := increase_nonce (increase_nonce (e_cipher w)), e_buffer := e_buffer w
      @ sealed P (e_cipher w) (chunk_prefix (now i) buf w) @ sealed P (increase_nonce (e_cipher w)) buf, e_state := Writing_2022 0\<rparr>"
  have "length (chunk_prefix (now i) buf w) \<le> 2 ^ 36" using assms(4) by (auto simp: chunk_prefix_def)
  note asm = seal_chunks_sealed [OF assms(1,2) this packet_2022_le [OF assms(6)]]
  have "poll_write_encrypted_2022 P (now i) w s buf = poll_write_encrypted_2022 P (now i) ?w s buf"
    using asm assms(4,5,6)
    by (auto simp: poll_write_encrypted_2022_def assemble_header_def assemble_packet_2022_def chunk_prefix_def Let_def)
  then have "drive_write_2022 P now i w s buf = drive_write_2022 P now i ?w s buf"
    by (subst (1 2) drive_write_2022.simps) simp
  then show ?thesis using drive_writing_2022 [OF assms(3), of ?w 0 buf P now i] assms(6) by auto
qed

lemma write_all_2022_frames:
  assumes "aead_law P" and "cipher_wf (e_cipher w)" and "good_grants s" and "e_state w = AssemblePacket_2022"
    and "e_request_salt w = None" and "e_buffer w = []" and "\<forall>b \<in> set bufs. length b \<le> AEAD2022_MAX_PACKET_SIZE"
  shows "\<exists>w' s'. write_all_2022 P now i w s bufs = Ok (w', s') \<and> sent s' = sent s @ frames P (e_cipher w) bufs"
  using assms(2-)
proof (induction bufs arbitrary: i w s)
  case (Cons b bs)
  let ?w = "w\<lparr>e_cipher := increase_nonce (increase_nonce (e_cipher w)), e_buffer := [], e_state := AssemblePacket_2022\<rparr>"
  obtain i1 s1 where s1: "drive_write_2022 P now i w s b = (Ok (length b), i1, ?w, s1)"
    "good_grants s1" "sent s1 = sent s @ frame P (e_cipher w) b"
    using drive_write_2022_chunks [OF assms(1) Cons.prems(1,2) disjI2 [OF Cons.prems(3)] Cons.prems(4), of b now i] Cons.prems
    by (auto simp: chunk_prefix_def frame_def)
  have "cipher_wf (e_cipher ?w)" using increase_nonce_wf(1) Cons.prems(1) by simp
  from Cons.IH [OF this s1(2), of i1] Cons.prems obtain w' s' where
    "write_all_2022 P now i1 ?w s1 bs = Ok (w', s')" "sent s' = sent s1 @ frames P (e_cipher ?w) bs" by auto
  with s1 show ?case by simp
qed simp


section \<open>The reader\<close>

text \<open>The response of a server: salt, header with the salt of the request, and the data in packets.\<close>

definition response_header :: "u64 \<Rightarrow> bytes \<Rightarrow> bytes \<Rightarrow> bytes" where
  "response_header ts rs d = 1 # be64 ts @ rs @ be16 (of_nat (length d))"

definition response :: "crypto_prims \<Rightarrow> CipherKind \<Rightarrow> bytes \<Rightarrow> bytes \<Rightarrow> u64 \<Rightarrow> bytes \<Rightarrow> bytes list \<Rightarrow> bytes" where
  "response P k key salt ts rs ds =
     (let ci = fresh_cipher P k key salt in
      salt @ sealed P ci (response_header ts rs (hd ds)) @ sealed P (increase_nonce ci) (hd ds)
        @ frames P (increase_nonce (increase_nonce ci)) (tl ds))"

definition header_size :: "CipherKind \<Rightarrow> nat" where
  "header_size k = kind_key_size k + (11 + kind_key_size k) + tag_size"

text \<open>The number of bytes the first successful read can get.\<close>

fun first_chunk :: "read_event list \<Rightarrow> nat" where
  "first_chunk (RPending # es) = first_chunk es"
| "first_chunk (RData bs # es) = length bs"
| "first_chunk _ = 0"

definition packets_2022 :: "bytes list \<Rightarrow> bool" where
  "packets_2022 ds \<longleftrightarrow> (\<forall>d \<in> set ds. length d \<le> AEAD2022_MAX_PACKET_SIZE)"

definition timely :: "u64 \<Rightarrow> u64 \<Rightarrow> bool" where
  "timely now ts \<longleftrightarrow> abs_diff now ts \<le> SERVER_STREAM_TIMESTAMP_MAX_DIFF"

text \<open>The invariant of the reader, as for \<^verbatim>\<open>tcp/aead.rs\<close>: \<open>T\<close> is the plaintext still to be delivered.\<close>

inductive rd_inv_2022 :: "crypto_prims \<Rightarrow> CipherKind \<Rightarrow> u64 \<Rightarrow> bytes \<Rightarrow> DecryptedReader_2022 \<Rightarrow> read_event list \<Rightarrow> bytes \<Rightarrow> bool"
  for P k ts rs where
  header: "d_state r = ReadHeader key \<Longrightarrow> d_kind r = k \<Longrightarrow> length key = kind_key_size k \<Longrightarrow>
    length salt = kind_key_size k \<Longrightarrow> length rs = kind_key_size k \<Longrightarrow> length (d_buffer r) \<le> header_size k \<Longrightarrow>
    length (d_buffer r) \<le> d_cap r \<Longrightarrow>
    stream_data es = response P k key salt ts rs ds \<Longrightarrow> header_size k \<le> first_chunk es \<Longrightarrow>
    ds \<noteq> [] \<Longrightarrow> packets_2022 ds \<Longrightarrow> rd_inv_2022 P k ts rs r es (concat ds)"
| length: "d_state r = ReadLength_2022 \<Longrightarrow> d_kind r = k \<Longrightarrow> d_request_salt r = Some rs \<Longrightarrow> d_cipher r = Some ci \<Longrightarrow>
    cipher_wf ci \<Longrightarrow> length (d_buffer r) \<le> 2 + tag_size \<Longrightarrow> 2 + tag_size \<le> d_cap r \<Longrightarrow>
    d_buffer r @ stream_data es = frames P ci ds \<Longrightarrow>
    packets_2022 ds \<Longrightarrow> rd_inv_2022 P k ts rs r es (concat ds)"
| data: "d_state r = ReadData_2022 (length d) \<Longrightarrow> d_kind r = k \<Longrightarrow> d_request_salt r = Some rs \<Longrightarrow> d_cipher r = Some ci \<Longrightarrow>
    cipher_wf ci \<Longrightarrow> length (d_buffer r) \<le> length d + tag_size \<Longrightarrow> length d + tag_size \<le> d_cap r \<Longrightarrow>
    d_buffer r @ stream_data es = sealed P ci d @ frames P (increase_nonce ci) ds \<Longrightarrow> packets_2022 (d # ds) \<Longrightarrow>
    rd_inv_2022 P k ts rs r es (d @ concat ds)"
| buffered: "d_state r = BufferedData_2022 pos \<Longrightarrow> d_kind r = k \<Longrightarrow> d_request_salt r = Some rs \<Longrightarrow> d_cipher r = Some ci \<Longrightarrow>
    cipher_wf ci \<Longrightarrow> stream_data es = frames P ci ds \<Longrightarrow> packets_2022 ds \<Longrightarrow>
    rd_inv_2022 P k ts rs r es (drop pos (d_buffer r) @ concat ds)"

definition step_ok_2022 :: "crypto_prims \<Rightarrow> CipherKind \<Rightarrow> u64 \<Rightarrow> bytes \<Rightarrow> read_event list \<Rightarrow> bytes
    \<Rightarrow> ((TcpAead2022Error, bytes) poll \<times> DecryptedReader_2022 \<times> read_event list) + (DecryptedReader_2022 \<times> read_event list)
    \<Rightarrow> bool" where
  "step_ok_2022 P k ts rs es T out = (case out of
     Inr (r', es') \<Rightarrow> good_events es' \<and> length es' \<le> length es \<and> rd_inv_2022 P k ts rs r' es' T
   | Inl (Pending, r', es') \<Rightarrow> good_events es' \<and> length es' < length es \<and> rd_inv_2022 P k ts rs r' es' T
   | Inl (Ready (Ok b), r', es') \<Rightarrow> good_events es' \<and> length es' \<le> length es \<and> d_request_salt r' = Some rs
       \<and> (\<exists>T'. T = b @ T' \<and> rd_inv_2022 P k ts rs r' es' T' \<and> (b = [] \<longrightarrow> T = []))
   | _ \<Rightarrow> False)"

lemma poll_read_first:
  assumes "good_events es" and "stream_data es = x @ rest" and "length x \<le> first_chunk es" and "x \<noteq> []"
  obtains (pending) es' where "poll_read (length x) es = (Pending, es')" "good_events es'" "length es' < length es"
      "stream_data es' = stream_data es" "first_chunk es' = first_chunk es"
  | (ready) es' where "poll_read (length x) es = (Ready (Ok x), es')" "good_events es'" "length es' \<le> length es"
      "stream_data es' = rest"
proof (cases es rule: first_chunk.cases)
  case (2 bs es')
  then have l: "length x \<le> length bs" "bs @ stream_data es' = x @ rest" using assms by simp_all
  then have t: "take (length x) bs = x" by (metis append_eq_append_conv_if append_eq_conv_conj)
  moreover have "drop (length x) bs @ stream_data es' = rest"
    using l t by (metis append.assoc append_take_drop_id same_append_eq)
  ultimately show ?thesis using 2 assms(1) l(1) by (intro ready) (auto simp: good_events_def)
qed (use assms in \<open>auto simp: good_events_def intro: pending\<close>)

lemma length_response_header: "length rs = kind_key_size k \<Longrightarrow> length (response_header ts rs d) = 11 + kind_key_size k"
  by (simp add: response_header_def)

lemma kind_key_size_le: "kind_key_size k \<le> 32"
  by (cases k) simp_all

lemma open_header_sealed:
  assumes "aead_laws P" and "is_aead k" and "d_kind r = k" and "length key = kind_key_size k"
    and "length salt = kind_key_size k" and "length rs = kind_key_size k" and "length d \<le> AEAD2022_MAX_PACKET_SIZE"
    and "d_buffer r = salt @ sealed P (fresh_cipher P k key salt) (response_header ts rs d)"
  shows "\<exists>b. open_header P now key (kind_key_size k) (header_size k) r
    = (if timely now ts then (Ok (Some (length d)), r\<lparr>d_buffer := b, d_request_salt := Some rs, d_salt := Some salt,
        d_cipher := Some (increase_nonce (fresh_cipher P k key salt))\<rparr>)
       else (Err (Tcp2022_InvalidTimestamp ts now), r\<lparr>d_buffer := b\<rparr>))"
proof -
  let ?ci = "fresh_cipher P k key salt" and ?h = "response_header ts rs d"
  have laws: "hkdf_law P" "aead_law P" using assms(1) by (simp_all add: aead_laws_def)
  note fresh = Cipher_new_fresh [OF laws(1) assms(2,4), of salt]
  have h: "length ?h \<le> 2 ^ 36" using length_response_header [OF assms(6)] kind_key_size_le [of k] by simp
  have len: "length (sealed P ?ci ?h) = (11 + kind_key_size k) + tag_size"
    using length_sealed [OF laws(2) fresh(2) h] length_response_header [OF assms(6)] by simp
  obtain m where m: "Cipher_decrypt P ?ci (sealed P ?ci ?h) = (Ok (increase_nonce ?ci, True, ?h @ m) :: (TcpAead2022Error, _) res)"
    using Cipher_decrypt_sealed [OF laws(2) fresh(2) h] by blast
  have field: "(?h @ m) ! 0 = 1" "of_be 0 (take 8 (drop 1 (?h @ m))) = ts" "take (kind_key_size k) (drop 9 (?h @ m)) = rs"
    "unat (of_be16 ((?h @ m) ! (9 + kind_key_size k)) ((?h @ m) ! (10 + kind_key_size k))) = length d"
  proof -
    have split: "?h @ m = [1] @ be64 ts @ rs @ be16 (of_nat (length d)) @ m" by (simp add: response_header_def)
    show "(?h @ m) ! 0 = 1" "of_be 0 (take 8 (drop 1 (?h @ m))) = ts" by (simp_all add: split)
    show "take (kind_key_size k) (drop 9 (?h @ m)) = rs" unfolding split using assms(6) by simp
    have "unat (of_nat (length d) :: u16) = length d"
      using assms(7) by (simp add: AEAD2022_MAX_PACKET_SIZE_def unat_of_nat)
    moreover have "(?h @ m) ! (9 + kind_key_size k) = be16 (of_nat (length d)) ! 0"
      "(?h @ m) ! (10 + kind_key_size k) = be16 (of_nat (length d)) ! 1"
      unfolding split using assms(6) by (simp_all add: nth_append be16_def)
    ultimately show "unat (of_be16 ((?h @ m) ! (9 + kind_key_size k)) ((?h @ m) ! (10 + kind_key_size k))) = length d"
      by (simp add: be16_def)
  qed
  have slices: "take (kind_key_size k) (d_buffer r) = salt" "drop (kind_key_size k) (take (header_size k) (d_buffer r)) = sealed P ?ci ?h"
    "drop (header_size k) (d_buffer r) = []" using assms(5,8) len by (simp_all add: header_size_def)
  show ?thesis
    unfolding open_header_def slices assms(3) fresh(1) Let_def res.case m prod.case field
    using kind_size_pos [of k] by (auto simp: timely_def not_less)
qed

lemma poll_read_header_eq:
  assumes "is_aead k" and "d_kind r = k" and "length (d_buffer r) \<le> header_size k"
    and "length (d_buffer r) \<le> d_cap r"
  shows "poll_read_header P now key r es =
    (case poll_read (header_size k) es of
       (Pending, es) \<Rightarrow> (Pending, r\<lparr>d_buffer := resize (header_size k) (d_buffer r), d_cap := max (d_cap r) (header_size k)\<rparr>, es)
     | (Ready (Err e), es) \<Rightarrow> (Ready (Err (Tcp2022_IoError e)), r\<lparr>d_buffer := resize (header_size k) (d_buffer r), d_cap := max (d_cap r) (header_size k)\<rparr>, es)
     | (Ready Panic, es) \<Rightarrow> (Ready Panic, r\<lparr>d_buffer := resize (header_size k) (d_buffer r), d_cap := max (d_cap r) (header_size k)\<rparr>, es)
     | (Ready (Ok h), es) \<Rightarrow>
         (let r = r\<lparr>d_buffer := h @ drop (length h) (resize (header_size k) (d_buffer r)), d_cap := max (d_cap r) (header_size k)\<rparr> in
          if h = [] then (Ready (Ok None), r, es)
          else if length h \<noteq> header_size k then (Ready (Err (Tcp2022_HeaderTooShort (header_size k) (length h))), r, es)
          else (case open_header P now key (kind_key_size k) (header_size k) r of (x, r) \<Rightarrow> (Ready x, r, es))))"
proof -
  have rsz: "(if length (d_buffer r) < header_size k then r\<lparr>d_buffer := resize (header_size k) (d_buffer r), d_cap := max (d_cap r) (header_size k)\<rparr> else r)
      = r\<lparr>d_buffer := resize (header_size k) (d_buffer r), d_cap := max (d_cap r) (header_size k)\<rparr>"
    using assms(3,4) by (cases r) (simp add: resize_def max_def)
  have hdr: "kind_key_size k + 0 + 1 + 8 + kind_key_size k + 2 + tag_size = header_size k"
    by (simp add: header_size_def)
  show ?thesis
    unfolding poll_read_header_def assms(2) aead_lens [OF assms(1)] Let_def bind_res.simps res.case prod.case hdr rsz
    by (cases r) (simp split: prod.split poll.split res.split)
qed

lemma step_header_2022:
  assumes "aead_laws P" and "is_aead k" and "good_events es" and "timely now ts"
    and "d_state r = ReadHeader key" "d_kind r = k" "length key = kind_key_size k" "length salt = kind_key_size k"
      "length rs = kind_key_size k" "length (d_buffer r) \<le> header_size k"
      "stream_data es = response P k key salt ts rs ds" "header_size k \<le> first_chunk es" "ds \<noteq> []" "packets_2022 ds"
      "length (d_buffer r) \<le> d_cap r"
  shows "step_ok_2022 P k ts rs es (concat ds) (read_step_2022 P now cap r es)"
proof -
  let ?ci = "fresh_cipher P k key salt"
  obtain d ds' where ds: "ds = d # ds'" using assms(13) by (cases ds) auto
  let ?x = "salt @ sealed P ?ci (response_header ts rs d)"
  let ?rest = "sealed P (increase_nonce ?ci) d @ frames P (increase_nonce (increase_nonce ?ci)) ds'"
  have laws: "hkdf_law P" "aead_law P" using assms(1) by (simp_all add: aead_laws_def)
  have wf: "cipher_wf ?ci" using Cipher_new_fresh(2) [OF laws(1) assms(2,7)] .
  have "length (response_header ts rs d) \<le> 2 ^ 36"
    using length_response_header [OF assms(9)] kind_key_size_le [of k] by simp
  from length_sealed [OF laws(2) wf this] have len: "length ?x = header_size k"
    using length_response_header [OF assms(9)] assms(8) by (simp add: header_size_def)
  have wire: "stream_data es = ?x @ ?rest" using assms(11) ds by (simp add: response_def Let_def)
  have d: "length d \<le> AEAD2022_MAX_PACKET_SIZE" using assms(14) ds by (simp add: packets_2022_def)
  let ?r = "r\<lparr>d_buffer := resize (header_size k) (d_buffer r), d_cap := max (d_cap r) (header_size k)\<rparr>"
  note eq = poll_read_header_eq [OF assms(2,6,10,15), of P now key es]
  have ne: "?x \<noteq> []" "length ?x \<le> first_chunk es"
    using assms(8,12) len kind_size_pos [of k] by auto
  show ?thesis
  proof (cases rule: poll_read_first [OF assms(3) wire ne(2,1), case_names pending ready])
    case (pending es')
    have "rd_inv_2022 P k ts rs ?r es' (concat ds)"
      using pending assms by (intro header [where key = key and salt = salt]) (simp_all add: resize_def)
    with pending assms(5) show ?thesis
      by (simp add: read_step_2022_def eq len [simplified] step_ok_2022_def)
  next
    case (ready es')
    let ?r1 = "r\<lparr>d_buffer := ?x, d_cap := max (d_cap r) (header_size k)\<rparr>"
    obtain b where oh: "open_header P now key (kind_key_size k) (header_size k) ?r1
      = (Ok (Some (length d)), ?r1\<lparr>d_buffer := b, d_request_salt := Some rs, d_salt := Some salt,
          d_cipher := Some (increase_nonce ?ci)\<rparr>)"
      using open_header_sealed [OF assms(1,2) _ assms(7,8,9) d, of ?r1 ts now] assms(4,6) by auto
    let ?r2 = "r\<lparr>d_request_salt := Some rs, d_salt := Some salt, d_cipher := Some (increase_nonce ?ci), d_buffer := [],
      d_state := ReadData_2022 (length d), d_handshaked := True,
      d_cap := max (max (d_cap r) (header_size k)) (length d + tag_size)\<rparr>"
    have "rd_inv_2022 P k ts rs ?r2 es' (d @ concat ds')"
      using ready assms(6,14) ds increase_nonce_wf(1) [OF wf]
      by (intro data [where ci = "increase_nonce ?ci"]) simp_all
    moreover have "poll_read_header P now key r es = (Ready (Ok (Some (length d))), ?r1\<lparr>d_buffer := b, d_request_salt := Some rs,
        d_salt := Some salt, d_cipher := Some (increase_nonce ?ci)\<rparr>, es')"
      using ready(1) ne(1) oh len by (simp add: eq Let_def resize_def)
    ultimately show ?thesis using ready assms(5,6) ds
      by (simp add: read_step_2022_def step_ok_2022_def reserve_tag_2022_def aead_lens [OF assms(2)])
  qed
qed

lemma poll_read_exact_2022_good:
  assumes "good_events es" and "d_buffer r @ stream_data es = x @ rest" and "length x = sz" and "0 < sz"
    and "length (d_buffer r) \<le> sz" and "sz \<le> d_cap r"
  obtains (pending) buf es' where "poll_read_exact_2022 sz r es = (Pending, r\<lparr>d_buffer := buf\<rparr>, es')"
      "good_events es'" "length es' < length es" "buf @ stream_data es' = x @ rest" "length buf \<le> sz"
  | (ready) es' where "poll_read_exact_2022 sz r es = (Ready (Ok sz), r\<lparr>d_buffer := x\<rparr>, es')"
      "good_events es'" "length es' \<le> length es" "stream_data es' = rest"
  using read_exact_good [OF assms(1-3,5)] poll_read_exact_2022_room [OF assms(4,6)] by auto

lemma decrypt_length_2022_sealed:
  assumes "aead_law P" and "cipher_wf ci" and "length d \<le> AEAD2022_MAX_PACKET_SIZE"
  shows "\<exists>m. decrypt_length_2022 P ci (sealed P ci (be16 (of_nat (length d)))) = (increase_nonce ci, m, Ok (length d))"
proof -
  have "unat (of_nat (length d) :: u16) = length d"
    using assms(3) by (simp add: AEAD2022_MAX_PACKET_SIZE_def unat_of_nat)
  then show ?thesis
    by (simp add: decrypt_length_2022_def Cipher_decrypt_sealed [OF assms(1,2)]) (simp add: be16_def)
qed

lemma step_length_2022:
  assumes "aead_law P" and "is_aead k" and "good_events es"
    and "d_state r = ReadLength_2022" "d_kind r = k" "d_request_salt r = Some rs" "d_cipher r = Some ci" "cipher_wf ci"
      "length (d_buffer r) \<le> 2 + tag_size" "d_buffer r @ stream_data es = frames P ci (d # ds)" "packets_2022 (d # ds)"
      "2 + tag_size \<le> d_cap r"
  shows "step_ok_2022 P k ts rs es (concat (d # ds)) (read_step_2022 P now cap r es)"
proof -
  let ?x = "sealed P ci (be16 (of_nat (length d)))"
  have d: "length d \<le> AEAD2022_MAX_PACKET_SIZE" using assms(11) by (simp add: packets_2022_def)
  have len: "length ?x = 2 + tag_size" using length_sealed [OF assms(1,8)] by simp
  show ?thesis
  proof (cases rule: poll_read_exact_2022_good [OF assms(3) assms(10) [unfolded frames_Cons_sealed] len _ assms(9,12),
        case_names pos pending ready])
    case (pending buf es')
    have "rd_inv_2022 P k ts rs (r\<lparr>d_buffer := buf\<rparr>) es' (concat (d # ds))"
      using pending assms by (intro length [where ci = ci]) (simp_all add: frame_def)
    with pending assms(4,5) show ?thesis
      by (simp add: read_step_2022_def poll_read_length_2022_def aead_lens [OF assms(2)] step_ok_2022_def)
  next
    case (ready es')
    obtain m where m: "decrypt_length_2022 P ci ?x = (increase_nonce ci, m, Ok (length d))"
      using decrypt_length_2022_sealed [OF assms(1,8) d] by blast
    let ?r = "r\<lparr>d_cipher := Some (increase_nonce ci), d_buffer := [], d_state := ReadData_2022 (length d),
      d_cap := max (d_cap r) (length d + tag_size)\<rparr>"
    have "rd_inv_2022 P k ts rs ?r es' (d @ concat ds)"
      using ready assms increase_nonce_wf(1) [OF assms(8)] by (intro data [where ci = "increase_nonce ci"]) simp_all
    with ready assms(4-7) m len show ?thesis
      by (simp add: read_step_2022_def poll_read_length_2022_def aead_lens [OF assms(2)] step_ok_2022_def reserve_tag_2022_def)
  qed simp
qed

lemma step_end_2022:
  assumes "is_aead k" and "good_events es"
    and "d_state r = ReadLength_2022" "d_kind r = k" "d_request_salt r = Some rs" "d_cipher r = Some ci" "cipher_wf ci"
      "d_buffer r @ stream_data es = []" "2 + tag_size \<le> d_cap r"
  shows "step_ok_2022 P k ts rs es [] (read_step_2022 P now cap r es)"
proof -
  have inv: "rd_inv_2022 P k ts rs r es' []" if "stream_data es' = []" for es'
    using that assms length [of r k rs ci es' P "[]" ts] by (simp add: packets_2022_def)
  have b: "d_buffer r = []" "stream_data es = []" using assms(8) by simp_all
  have r: "r\<lparr>d_buffer := []\<rparr> = r" using b(1) by (cases r) simp
  from read_exact_end [OF assms(2) b(2), of "2 + tag_size"] inv b assms(3-5,9) show ?thesis
    by (auto simp: r read_step_2022_def poll_read_length_2022_def aead_lens [OF assms(1)] step_ok_2022_def
        poll_read_exact_2022_room good_events_def)
qed

lemma step_data_2022:
  assumes "aead_law P" and "is_aead k" and "good_events es"
    and "d_state r = ReadData_2022 (length d)" "d_kind r = k" "d_request_salt r = Some rs" "d_cipher r = Some ci" "cipher_wf ci"
      "length (d_buffer r) \<le> length d + tag_size"
      "d_buffer r @ stream_data es = sealed P ci d @ frames P (increase_nonce ci) ds" "packets_2022 (d # ds)"
      "length d + tag_size \<le> d_cap r"
  shows "step_ok_2022 P k ts rs es (d @ concat ds) (read_step_2022 P now cap r es)"
proof -
  have d: "length d \<le> 2 ^ 36" using assms(11) packet_2022_le [of d] by (simp add: packets_2022_def)
  have len: "length (sealed P ci d) = length d + tag_size" using length_sealed [OF assms(1,8) d] by simp
  have pos: "0 < length d + tag_size" by (simp add: tag_size_def)
  show ?thesis
  proof (cases rule: poll_read_exact_2022_good [OF assms(3,10) len pos assms(9,12), case_names pending ready])
    case (pending buf es')
    have "rd_inv_2022 P k ts rs (r\<lparr>d_buffer := buf\<rparr>) es' (d @ concat ds)"
      using pending assms by (intro data [where ci = ci]) simp_all
    with pending assms(4,5) show ?thesis
      by (simp add: read_step_2022_def poll_read_data_2022_def aead_lens [OF assms(2)] step_ok_2022_def)
  next
    case (ready es')
    let ?r = "r\<lparr>d_cipher := Some (increase_nonce ci), d_buffer := d, d_state := BufferedData_2022 0,
      d_chunk_count := d_chunk_count r + 1\<rparr>"
    have "rd_inv_2022 P k ts rs ?r es' (drop 0 (d_buffer ?r) @ concat ds)"
      using ready assms increase_nonce_wf(1) [OF assms(8)]
      by (intro buffered [where ci = "increase_nonce ci"]) (simp_all add: packets_2022_def)
    with ready assms(4-7) len pos show ?thesis
      by (simp add: read_step_2022_def poll_read_data_2022_def aead_lens [OF assms(2)] step_ok_2022_def
          Cipher_decrypt_sealed [OF assms(1,8) d] Let_def)
  qed
qed

lemma step_buffered_2022:
  assumes "is_aead k" and "good_events es" and "0 < cap"
    and "d_state r = BufferedData_2022 pos" "d_kind r = k" "d_request_salt r = Some rs" "d_cipher r = Some ci" "cipher_wf ci"
      "stream_data es = frames P ci ds" "packets_2022 ds"
  shows "step_ok_2022 P k ts rs es (drop pos (d_buffer r) @ concat ds) (read_step_2022 P now cap r es)"
proof (cases "pos < length (d_buffer r)")
  case True
  let ?n = "min (length (d_buffer r) - pos) cap"
  have "rd_inv_2022 P k ts rs (r\<lparr>d_state := BufferedData_2022 (pos + ?n)\<rparr>) es
      (drop (pos + ?n) (d_buffer (r\<lparr>d_state := BufferedData_2022 (pos + ?n)\<rparr>)) @ concat ds)"
    using assms by (intro buffered [where ci = ci]) simp_all
  moreover have "drop pos (d_buffer r) = take ?n (drop pos (d_buffer r)) @ drop (pos + ?n) (d_buffer r)"
    using append_take_drop_id [of ?n "drop pos (d_buffer r)"] by (simp add: add.commute)
  moreover have "take ?n (drop pos (d_buffer r)) \<noteq> []" using True assms(3) by simp
  ultimately show ?thesis
    using True assms(2,4,6) unfolding step_ok_2022_def read_step_2022_def Let_def
    by (simp del: take_drop drop_drop) (metis append.assoc)
next
  case False
  have "rd_inv_2022 P k ts rs (r\<lparr>d_buffer := [], d_state := ReadLength_2022, d_cap := max (d_cap r) (2 + tag_size)\<rparr>) es (concat ds)"
    using assms by (intro length [where ci = ci]) simp_all
  with False assms show ?thesis
    by (simp add: read_step_2022_def step_ok_2022_def reserve_tag_2022_def aead_lens)
qed

lemma read_step_2022_ok:
  assumes "aead_laws P" and "is_aead k" and "good_events es" and "0 < cap" and "timely now ts" and "rd_inv_2022 P k ts rs r es T"
  shows "step_ok_2022 P k ts rs es T (read_step_2022 P now cap r es)"
proof -
  have law: "aead_law P" using assms(1) by (simp add: aead_laws_def)
  from assms(6) show ?thesis
  proof cases
    case (header key salt ds)
    then show ?thesis using step_header_2022 [OF assms(1-3,5)] by simp
  next
    case (length ci ds)
    then show ?thesis
      using step_length_2022 [OF law assms(2,3)] step_end_2022 [OF assms(2,3)] by (cases ds) simp_all
  next
    case (data d ci ds)
    then show ?thesis using step_data_2022 [OF law assms(2,3)] by simp
  next
    case (buffered pos ci ds)
    then show ?thesis using step_buffered_2022 [OF assms(2-4)] by simp
  qed
qed

lemma poll_read_decrypted_2022_ok:
  assumes "aead_laws P" and "is_aead k" and "0 < cap" and "timely now ts" and "good_events es" and "rd_inv_2022 P k ts rs r es T"
  shows "step_ok_2022 P k ts rs es T (Inl (poll_read_decrypted_2022 P now cap r es))"
  using assms
proof (induction P now cap r es rule: poll_read_decrypted_2022.induct)
  case (1 P now cap r es)
  note ok = read_step_2022_ok [OF 1(2,3,6,4,5,7)]
  show ?case
  proof (cases "read_step_2022 P now cap r es")
    case (Inl out)
    with ok show ?thesis by (subst poll_read_decrypted_2022.simps) simp
  next
    case (Inr x)
    obtain r' es' where x: "x = (r', es')" by (cases x)
    from ok Inr x have e: "good_events es'" "length es' \<le> length es" "rd_inv_2022 P k ts rs r' es' T"
      by (simp_all add: step_ok_2022_def)
    from 1(1) [OF Inr x [symmetric] 1(2-5) e(1,3)]
    have "step_ok_2022 P k ts rs es' T (Inl (poll_read_decrypted_2022 P now cap r' es'))" .
    with e(2) have "step_ok_2022 P k ts rs es T (Inl (poll_read_decrypted_2022 P now cap r' es'))"
      by (auto simp: step_ok_2022_def split: poll.splits res.splits)
    with Inr x show ?thesis by (subst poll_read_decrypted_2022.simps) simp
  qed
qed

text \<open>A caller that polls up to \<open>n\<close> times until the end of the stream; the reader afterwards is returned too.\<close>

fun read_to_end_2022 :: "nat \<Rightarrow> crypto_prims \<Rightarrow> (nat \<Rightarrow> u64) \<Rightarrow> nat \<Rightarrow> DecryptedReader_2022 \<Rightarrow> read_event list
    \<Rightarrow> ((TcpAead2022Error, bytes) res \<times> DecryptedReader_2022) option" where
  "read_to_end_2022 0 P now cap r es = None"
| "read_to_end_2022 (Suc n) P now cap r es = (case poll_read_decrypted_2022 P (now n) cap r es of
     (Pending, r', es') \<Rightarrow> read_to_end_2022 n P now cap r' es'
   | (Ready (Ok b), r', es') \<Rightarrow>
       if b = [] then Some (Ok [], r')
       else map_option (\<lambda>(x, r). (map_ok (append b) x, r)) (read_to_end_2022 n P now cap r' es')
   | (Ready (Err e), r', es') \<Rightarrow> Some (Err e, r')
   | (Ready Panic, r', es') \<Rightarrow> Some (Panic, r'))"

lemma read_to_end_2022_ok:
  assumes "aead_laws P" and "is_aead k" and "0 < cap" and "\<And>i. timely (now i) ts"
    and "good_events es" and "rd_inv_2022 P k ts rs r es T" and "length T + length es < n"
  shows "\<exists>r'. read_to_end_2022 n P now cap r es = Some (Ok T, r') \<and> d_request_salt r' = Some rs"
  using assms(5-)
proof (induction n arbitrary: r es T)
  case (Suc n)
  obtain p r' es' where p: "poll_read_decrypted_2022 P (now n) cap r es = (p, r', es')" by (metis prod_cases3)
  from poll_read_decrypted_2022_ok [OF assms(1-4) Suc.prems(1,2)] p
  have ok: "step_ok_2022 P k ts rs es T (Inl (p, r', es'))" by metis
  then consider "p = Pending" "good_events es'" "length es' < length es" "rd_inv_2022 P k ts rs r' es' T"
    | b T' where "p = Ready (Ok b)" "good_events es'" "length es' \<le> length es" "T = b @ T'" "d_request_salt r' = Some rs"
        "rd_inv_2022 P k ts rs r' es' T'" "b = [] \<longrightarrow> T = []"
    by (auto simp: step_ok_2022_def split: poll.splits res.splits)
  then show ?case
  proof cases
    case 1
    with Suc p show ?thesis by simp
  next
    case (2 b T')
    then show ?thesis
    proof (cases "b = []")
      case False
      then have "length T' + length es' < n" using 2(3,4) Suc.prems(3) by (cases b) auto
      with Suc.IH [OF 2(2,6)] False 2 p show ?thesis by auto
    qed (use 2 p in simp)
  qed
qed simp

section \<open>Headers that are refused\<close>

lemma read_refused_header:
  assumes "is_aead k" and "poll_read_header P now key (DecryptedReader_2022_new k key) es = (Ready (Err e), r', es')"
  shows "poll_read_decrypted_2022 P now cap (DecryptedReader_2022_new k key) es = (Ready (Err e), r', es')"
  using assms(2) by (subst poll_read_decrypted_2022.simps) (simp add: read_step_2022_def DecryptedReader_2022_new_def)

text \<open>The time stamp counts units of \<open>2 ^ -32\<close> seconds, so that no count of seconds is near it.\<close>

lemma unix_seconds_not_timely:
  assumes "unat ts < 2 ^ 32" and "2 \<le> unat (tv_sec tp)" and "unat (tv_sec tp) < 2 ^ 32" and "unat (tv_nsec tp) < 10 ^ 9"
  shows "\<not> timely (get_now_timestamp tp) ts"
proof -
  let ?now = "get_now_timestamp tp"
  have big: "2 * 2 ^ 32 \<le> unat ?now"
    using get_now_timestamp_value [OF assms(3,4)] assms(2) mult_le_mono1 [OF assms(2), of "2 ^ 32"] by simp
  then have ge: "ts \<le> ?now" using assms(1) by (simp add: word_le_nat_alt)
  then have "unat (?now - ts) = unat ?now - unat ts" by (rule unat_sub)
  then have "30 < unat (?now - ts)" using big assms(1) by simp
  with ge show ?thesis
    by (simp add: timely_def abs_diff_def SERVER_STREAM_TIMESTAMP_MAX_DIFF_def word_le_nat_alt not_less word_less_nat_alt)
qed

section \<open>Identity headers\<close>

text \<open>Each identity key gives one header: the hash of the next key, encrypted under a key derived from this one.\<close>

definition identity_header :: "block_prims \<Rightarrow> nat \<Rightarrow> bytes \<Rightarrow> bytes \<times> bytes \<Rightarrow> bytes" where
  "identity_header B n iv = (\<lambda>(ipsk, ipskn).
     aes_encrypt_block B (take n (blake3_derive_key B AEAD2022_EIH_SUBKEY_CONTEXT (ipsk @ iv) blake3_OUT_LEN))
       (take 16 (blake3_hash B ipskn)))"

lemma eih_loop_headers:
  assumes "eih_key_len m = (Ok n :: ('e, nat) res)"
  shows "bind_res (eih_loop B m iv (Some (blake3_derive_key B AEAD2022_EIH_SUBKEY_CONTEXT (k @ iv) blake3_OUT_LEN)) buf ids)
      (\<lambda>(sub_key, buffer). case sub_key of Some k \<Rightarrow> make_eih B m k key buffer | None \<Rightarrow> Ok buffer)
    = (Ok (buf @ concat (map (identity_header B n iv) (zip (k # ids) (ids @ [key])))) :: ('e, bytes) res)"
  using assms by (induction ids arbitrary: k buf) (simp_all add: make_eih_def identity_header_def Let_def)

lemma identity_headers_eq:
  assumes "method_support_eih m" and "eih_key_len m = (Ok n :: ('e, nat) res)"
  shows "identity_headers B m key iv ids
    = (Ok (iv @ concat (map (identity_header B n iv) (zip ids (tl ids @ [key])))) :: ('e, bytes) res)"
  using assms(1) eih_loop_headers [OF assms(2)] by (cases ids) (simp_all add: identity_headers_def)

section \<open>Reader and writer with the lengths of an AEAD method\<close>

text \<open>
  What a server seals behind a response header is delivered to the caller, whatever the sizes of the
  packets, and the reader knows the salt of the request that is answered, for every way in which the
  network delays and splits the bytes as long as the header arrives in one read and its time stamp is
  within 30 units of the clock.
\<close>

lemma response_delivered:
  assumes "aead_laws P" and "is_aead k" and "length key = kind_key_size k" and "length salt = kind_key_size k"
    and "length rs = kind_key_size k" and "ds \<noteq> []" and "\<forall>d \<in> set ds. length d \<le> AEAD2022_MAX_PACKET_SIZE"
    and "\<And>i. abs_diff (now i) ts \<le> SERVER_STREAM_TIMESTAMP_MAX_DIFF"
    and "good_events es" and "stream_data es = response P k key salt ts rs ds" and "header_size k \<le> first_chunk es"
    and "0 < cap" and "length (concat ds) + length es < n"
  shows "\<exists>r'. read_to_end_2022 n P now cap (DecryptedReader_2022_new k key) es = Some (Ok (concat ds), r')
    \<and> request_salt_2022 r' = Some rs"
proof -
  let ?r = "DecryptedReader_2022_new k key"
  have t: "timely (now i) ts" for i using assms(8) by (simp add: timely_def)
  have "rd_inv_2022 P k ts rs ?r es (concat ds)"
    using assms by (intro header [where key = key and salt = salt]) (simp_all add: DecryptedReader_2022_new_def packets_2022_def)
  from read_to_end_2022_ok [where now = now, OF assms(1,2,12) t assms(9) this assms(13)] obtain r' where
    "read_to_end_2022 n P now cap ?r es = Some (Ok (concat ds), r')" "d_request_salt r' = Some rs" by blast
  moreover have "rs \<noteq> []" using assms(5) kind_size_pos [of k] by auto
  ultimately show ?thesis by (simp add: request_salt_2022_def)
qed

text \<open>
  A writer sends its salt, a request header with the time of the first write and the length of the
  first buffer, that buffer, and every further buffer behind its sealed length, however the socket takes the
  bytes.
\<close>

lemma request_written:
  assumes "aead_laws P" and "is_aead k" and "length key = kind_key_size k" and "good_grants s"
    and "\<forall>b \<in> set (buf # bufs). length b \<le> AEAD2022_MAX_PACKET_SIZE"
  shows "\<exists>w w' s'. with_identity P B k key salt ids = Ok w
    \<and> write_all_2022 P now i w s (buf # bufs) = Ok (w', s')
    \<and> sent s' = sent s @ salt
        @ sealed P (fresh_cipher P k key salt) (0 # be64 (now i) @ be16 (of_nat (length buf)))
        @ sealed P (increase_nonce (fresh_cipher P k key salt)) buf
        @ frames P (increase_nonce (increase_nonce (fresh_cipher P k key salt))) bufs"
proof -
  let ?ci = "fresh_cipher P k key salt"
  have laws: "hkdf_law P" "aead_law P" using assms(1) by (simp_all add: aead_laws_def)
  note fresh = Cipher_new_fresh [OF laws(1) assms(2,3), of salt]
  let ?w = "\<lparr>e_cipher = ?ci, e_method = k, e_buffer = salt, e_state = AssembleHeader, e_salt = salt, e_request_salt = None\<rparr>"
  have w: "with_identity P B k key salt ids = Ok ?w"
    using assms(2) by (auto simp: with_identity_def identity_headers_def method_support_eih_def is_aead_def fresh(1))
  let ?w1 = "?w\<lparr>e_cipher := increase_nonce (increase_nonce ?ci), e_buffer := [], e_state := AssemblePacket_2022\<rparr>"
  have "length buf \<le> AEAD2022_MAX_PACKET_SIZE" using assms(5) by simp
  with drive_write_2022_chunks [OF laws(2) _ assms(4), of ?w buf now i] fresh(2) obtain i1 s1 where
    s1: "drive_write_2022 P now i ?w s buf = (Ok (length buf), i1, ?w1, s1)" "good_grants s1"
      "sent s1 = sent s @ salt @ sealed P ?ci (0 # be64 (now i) @ be16 (of_nat (length buf))) @ sealed P (increase_nonce ?ci) buf"
    by (auto simp: chunk_prefix_def)
  from write_all_2022_frames [OF laws(2) _ s1(2), of ?w1 bufs now i1] fresh(2) increase_nonce_wf(1) assms(5)
  obtain w' s' where "write_all_2022 P now i1 ?w1 s1 bufs = Ok (w', s')"
    "sent s' = sent s1 @ frames P (increase_nonce (increase_nonce ?ci)) bufs" by auto
  with w s1 show ?thesis by auto
qed

text \<open>
  The clock delivers the seconds since the start of the machine in units of \<open>2 ^ -32\<close> seconds, below
  \<open>2 ^ 64\<close>, while the peers send seconds of the Unix epoch: from two seconds after the start on every valid
  response whose time stamp is a number of seconds before the year 2106 is refused.
\<close>

lemma unix_timestamps_refused:
  assumes "aead_laws P" and "is_aead k" and "length key = kind_key_size k" and "length salt = kind_key_size k"
    and "length rs = kind_key_size k" and "length d \<le> AEAD2022_MAX_PACKET_SIZE"
    and "2 \<le> unat (tv_sec tp)" and "unat (tv_sec tp) < 2 ^ 32" and "unat (tv_nsec tp) < 10 ^ 9" and "unat ts < 2 ^ 32"
  shows "unat (get_now_timestamp tp) = unat (tv_sec tp) * 2 ^ 32 + unat (tv_nsec tp) * 9223372037 div 2 ^ 31
    \<and> fst (poll_read_decrypted_2022 P (get_now_timestamp tp) cap (DecryptedReader_2022_new k key)
        [RData (response P k key salt ts rs (d # ds))])
      = Ready (Err (Tcp2022_InvalidTimestamp ts (get_now_timestamp tp)))"
proof -
  let ?r = "DecryptedReader_2022_new k key" and ?now = "get_now_timestamp tp" and ?ci = "fresh_cipher P k key salt"
  let ?x = "salt @ sealed P ?ci (response_header ts rs d)"
  have laws: "hkdf_law P" "aead_law P" using assms(1) by (simp_all add: aead_laws_def)
  have "length (response_header ts rs d) \<le> 2 ^ 36"
    using length_response_header [OF assms(5)] kind_key_size_le [of k] by simp
  from length_sealed [OF laws(2) Cipher_new_fresh(2) [OF laws(1) assms(2,3)] this]
  have len: "length ?x = header_size k" using length_response_header [OF assms(5)] assms(4) by (simp add: header_size_def)
  have cut: "take (header_size k) (response P k key salt ts rs (d # ds)) = ?x"
    "header_size k \<le> length (response P k key salt ts rs (d # ds))"
    using len by (simp_all add: response_def Let_def)
  from open_header_sealed [OF assms(1,2) _ assms(3-6), of "?r\<lparr>d_buffer := ?x, d_cap := max (d_cap ?r) (header_size k)\<rparr>" ts ?now]
    unix_seconds_not_timely [OF assms(10,7,8,9)]
  obtain r' where "open_header P ?now key (kind_key_size k) (header_size k)
      (?r\<lparr>d_buffer := ?x, d_cap := max (d_cap ?r) (header_size k)\<rparr>)
      = (Err (Tcp2022_InvalidTimestamp ts ?now), r')" by (auto simp: DecryptedReader_2022_new_def)
  moreover have "?x \<noteq> []" using assms(4) kind_size_pos [of k] by auto
  moreover have "d_kind ?r = k" "length (d_buffer ?r) \<le> header_size k" "length (d_buffer ?r) \<le> d_cap ?r"
    by (simp_all add: DecryptedReader_2022_new_def)
  ultimately obtain es' where "poll_read_header P ?now key ?r [RData (response P k key salt ts rs (d # ds))]
      = (Ready (Err (Tcp2022_InvalidTimestamp ts ?now)), r', es')"
    using cut len poll_read_header_eq [OF assms(2), of ?r P ?now key] by (simp add: resize_def Let_def)
  from read_refused_header [OF assms(2) this] get_now_timestamp_value [OF assms(8,9)] show ?thesis by simp
qed

section \<open>Properties\<close>

text \<open>
  C18: the Linux clock against which both AEAD-2022 protocols check time stamps delivers the seconds since the
  start of the machine in units of \<open>2 ^ -32\<close> seconds, without overflow, while the peers send seconds of
  the Unix epoch: from two seconds after the start on, no number of Unix seconds before the year
  2106 is within the tolerance of 30.
\<close>

theorem clock_not_unix:
  assumes "2 \<le> unat (tv_sec tp)" and "unat (tv_sec tp) < 2 ^ 32" and "unat (tv_nsec tp) < 10 ^ 9" and "unat ts < 2 ^ 32"
  shows "unat (get_now_timestamp tp) = unat (tv_sec tp) * 2 ^ 32 + unat (tv_nsec tp) * 9223372037 div 2 ^ 31
    \<and> SERVER_STREAM_TIMESTAMP_MAX_DIFF < abs_diff (get_now_timestamp tp) ts"
  using get_now_timestamp_value(1) [OF assms(2,3)] unix_seconds_not_timely [OF assms(4,1,2,3)]
  by (simp add: timely_def not_le)

theorem clock_not_unix_witness:
  "unat (get_now_timestamp \<lparr>tv_sec = 86400, tv_nsec = 500000000\<rparr>) = 86400 * 2 ^ 32 + 500000000 * 9223372037 div 2 ^ 31
    \<and> SERVER_STREAM_TIMESTAMP_MAX_DIFF < abs_diff (get_now_timestamp \<lparr>tv_sec = 86400, tv_nsec = 500000000\<rparr>) 1660000000"
  using clock_not_unix [of "\<lparr>tv_sec = 86400, tv_nsec = 500000000\<rparr>" 1660000000] by simp

end
