(* ===== verification/Replay.thy ===== *)
theory Replay
  imports Roxy_Prelude
begin

text \<open>
  \<^verbatim>\<open>lib/shadowsocks/src/security/replay/ppbloom.rs\<close>: two Bloom filters used in turn to remember
  the nonces seen last.  The filter itself is the crate \<^verbatim>\<open>bloomfilter\<close> and a parameter; what is
  used of it is that an item that was set is found until the filter is cleared.  The module
  \<^verbatim>\<open>security\<close> is not part of the crate's module tree, and \<^verbatim>\<open>ReplayProtector\<close> next to it calls methods
  that do not exist, so only the filter is modelled.
\<close>

section \<open>Model\<close>

record 'b nonce_filter =
  nf_new :: "nat \<Rightarrow> 'b"
  nf_check :: "'b \<Rightarrow> bytes \<Rightarrow> bool"
  nf_set :: "bytes \<Rightarrow> 'b \<Rightarrow> 'b"
  nf_clear :: "'b \<Rightarrow> 'b"

definition nonce_filter_law :: "'b nonce_filter \<Rightarrow> bool" where
  "nonce_filter_law F \<longleftrightarrow> (\<forall>b x. nf_check F (nf_set F x b) x) \<and> (\<forall>b x y. nf_check F b y \<longrightarrow> nf_check F (nf_set F x b) y)"

record 'b PingPongBloom =
  blooms :: "'b \<times> 'b"
  bloom_count :: "nat \<times> nat"
  item_count :: nat
  current :: bool

text \<open>The index \<^verbatim>\<open>current\<close> is 0 or 1; the second filter is current when the flag is set.\<close>

fun slot :: "bool \<Rightarrow> 'a \<times> 'a \<Rightarrow> 'a" where
  "slot i (x, y) = (if i then y else x)"

fun put_at :: "bool \<Rightarrow> 'a \<Rightarrow> 'a \<times> 'a \<Rightarrow> 'a \<times> 'a" where
  "put_at i v (x, y) = (if i then (x, v) else (v, y))"

definition PingPongBloom_new :: "'b nonce_filter \<Rightarrow> 'b PingPongBloom" where
  "PingPongBloom_new F =
     (let item_count = 10000 div 2 in
      \<lparr>blooms = (nf_new F item_count, nf_new F item_count), bloom_count = (0, 0), item_count = item_count,
       current = False\<rparr>)"

definition check_and_set :: "'b nonce_filter \<Rightarrow> bytes \<Rightarrow> 'b PingPongBloom \<Rightarrow> bool \<times> 'b PingPongBloom" where
  "check_and_set F buf p =
     (if nf_check F (slot False (blooms p)) buf \<or> nf_check F (slot True (blooms p)) buf then (True, p)
      else
        (let p = (if slot (current p) (bloom_count p) \<ge> item_count p then
               (let c = \<not> current p in
                p\<lparr>current := c, bloom_count := put_at c 0 (bloom_count p),
                  blooms := put_at c (nf_clear F (slot c (blooms p))) (blooms p)\<rparr>)
             else p) in
         (False, p\<lparr>blooms := put_at (current p) (nf_set F buf (slot (current p) (blooms p))) (blooms p),
                   bloom_count := put_at (current p) (slot (current p) (bloom_count p) + 1) (bloom_count p)\<rparr>)))"

fun check_all :: "'b nonce_filter \<Rightarrow> bytes list \<Rightarrow> 'b PingPongBloom \<Rightarrow> bool list \<times> 'b PingPongBloom" where
  "check_all F [] p = ([], p)"
| "check_all F (x # xs) p = (let (r, p) = check_and_set F x p; (rs, p) = check_all F xs p in (r # rs, p))"

section \<open>How long a nonce is remembered\<close>

lemma slot_put_at [simp]: "slot i (put_at j v p) = (if i = j then v else slot i p)"
  by (cases p) auto

text \<open>
  \<open>remembers F x n p\<close>: the nonce \<open>x\<close> is found now and after \<open>n\<close> more nonces were added: it is in the
  current filter, or in the other one, which is cleared when the current one is full.
\<close>

definition remembers :: "'b nonce_filter \<Rightarrow> bytes \<Rightarrow> nat \<Rightarrow> 'b PingPongBloom \<Rightarrow> bool" where
  "remembers F x n p \<longleftrightarrow> item_count p > 0 \<and> slot (current p) (bloom_count p) \<le> item_count p \<and>
     (nf_check F (slot (current p) (blooms p)) x \<and> n + slot (current p) (bloom_count p) \<le> 2 * item_count p
      \<or> nf_check F (slot (\<not> current p) (blooms p)) x \<and> n + slot (current p) (bloom_count p) \<le> item_count p)"

definition pp_ok :: "'b PingPongBloom \<Rightarrow> bool" where
  "pp_ok p \<longleftrightarrow> item_count p > 0 \<and> slot (current p) (bloom_count p) \<le> item_count p"

lemma new_pp_ok: "pp_ok (PingPongBloom_new F)"
  by (simp add: pp_ok_def PingPongBloom_new_def Let_def)

lemma check_and_set_ok: "pp_ok p \<Longrightarrow> pp_ok (snd (check_and_set F x p)) \<and> item_count (snd (check_and_set F x p)) = item_count p"
  by (auto simp: check_and_set_def pp_ok_def Let_def)

lemma check_and_set_added:
  assumes "nonce_filter_law F" and "pp_ok p" and "fst (check_and_set F x p) = False"
  shows "remembers F x (item_count p) (snd (check_and_set F x p))"
  using assms by (auto simp: check_and_set_def pp_ok_def remembers_def nonce_filter_law_def Let_def split: if_splits)

lemma remembers_found: "remembers F x n p \<Longrightarrow> fst (check_and_set F x p)"
  by (cases "current p") (auto simp: remembers_def check_and_set_def)

lemma remembers_step:
  assumes "nonce_filter_law F" and "remembers F x (Suc n) p"
  shows "remembers F x n (snd (check_and_set F y p))"
  using assms by (cases "current p") (auto simp: check_and_set_def remembers_def nonce_filter_law_def Let_def)

lemma remembers_all:
  assumes "nonce_filter_law F" and "remembers F x (length ys) p"
  shows "remembers F x 0 (snd (check_all F ys p))"
  using assms(2)
proof (induction ys arbitrary: p)
  case (Cons y ys)
  from remembers_step [OF assms(1), of x "length ys" p y] Cons.prems
  have "remembers F x (length ys) (snd (check_and_set F y p))" by simp
  from Cons.IH [OF this] show ?case by (simp add: case_prod_unfold Let_def)
qed simp

lemma check_all_ok: "pp_ok p \<Longrightarrow> pp_ok (snd (check_all F xs p)) \<and> item_count (snd (check_all F xs p)) = item_count p"
proof (induction xs arbitrary: p)
  case (Cons x xs)
  from check_and_set_ok [OF Cons.prems, of F x] Cons.IH [of "snd (check_and_set F x p)"] show ?case
    by (simp add: case_prod_unfold Let_def)
qed simp

section \<open>Properties\<close>

text \<open>
  C37: replays are detected.  After any history, a nonce that is accepted as new is reported as seen
  when it comes again after at most 5000 further nonces, new or not.
\<close>

theorem replay_detected:
  assumes "nonce_filter_law F" and "p = snd (check_all F history (PingPongBloom_new F))"
    and "check_and_set F nonce p = (False, p')" and "length later \<le> 5000"
  shows "fst (check_and_set F nonce (snd (check_all F later p')))"
proof -
  have ok: "pp_ok p" "item_count p = 5000"
    using check_all_ok [OF new_pp_ok, of F history] assms(2) by (simp_all add: PingPongBloom_new_def Let_def)
  from check_and_set_added [OF assms(1) ok(1), of nonce] assms(3) ok(2) have "remembers F nonce 5000 p'" by simp
  then have "remembers F nonce (length later) p'" using assms(4) by (auto simp: remembers_def)
  from remembers_found [OF remembers_all [OF assms(1) this]] show ?thesis .
qed

text \<open>A filter that is exact, for the witness.\<close>

definition exact_filter :: "bytes list nonce_filter" where
  "exact_filter = \<lparr>nf_new = (\<lambda>n. []), nf_check = (\<lambda>b x. x \<in> set b), nf_set = (#), nf_clear = (\<lambda>b. [])\<rparr>"

lemma exact_filter_law: "nonce_filter_law exact_filter"
  by (simp add: nonce_filter_law_def exact_filter_def)

theorem replay_detected_witness:
  "check_and_set exact_filter [2] (snd (check_all exact_filter [[1], [1]] (PingPongBloom_new exact_filter)))
      = (False, \<lparr>blooms = ([[2], [1]], []), bloom_count = (2, 0), item_count = 5000, current = False\<rparr>)
    \<and> fst (check_and_set exact_filter [2] (snd (check_all exact_filter [[3], [1]]
        \<lparr>blooms = ([[2], [1]], []), bloom_count = (2, 0), item_count = 5000, current = False\<rparr>)))"
proof -
  have c: "check_and_set exact_filter [2] (snd (check_all exact_filter [[1], [1]] (PingPongBloom_new exact_filter)))
      = (False, \<lparr>blooms = ([[2], [1]], []), bloom_count = (2, 0), item_count = 5000, current = False\<rparr>)"
    by (simp add: check_and_set_def exact_filter_def PingPongBloom_new_def Let_def)
  from replay_detected [OF exact_filter_law refl c, of "[[3], [1]]"] c show ?thesis by simp
qed

end
