(* ===== verification/CronParse.thy ===== *)
theory CronParse
  imports Rust_Strings
begin

text \<open>
  \<^verbatim>\<open>lib/cron/src/parse.rs\<close>: the parser of cron expressions.  The methods \<^verbatim>\<open>next\<close> and
  \<^verbatim>\<open>years\<close> have no body yet and are not modelled; the feature \<^verbatim>\<open>serde\<close>, on by default, keeps the text.  A set of numbers is a set of natural numbers below \<open>2 ^ 32\<close>.
\<close>

section \<open>Model\<close>

definition MIN_YEAR :: nat where "MIN_YEAR = 1970"
definition MAX_YEAR :: nat where "MAX_YEAR = 2099"

datatype CronError = ParseInt ParseIntError | ArgumentCount | InvalidStepRange string | InvalidRange string
  | InvalidMonthIndicator string | InvalidDayOfWeekIndicator string

datatype Seconds = SIgnore | SAll | SConstrained "nat set"
datatype Years = YAll | YUnbound | YConstrained "nat set"
datatype TimeRange = TAll | TConstrained "nat set"

record Cron =
  cron_text :: string
  seconds :: Seconds
  minutes :: TimeRange
  hours :: TimeRange
  days_of_month :: TimeRange
  months :: TimeRange
  days_of_week :: TimeRange
  years :: Years

text \<open>
  \<^verbatim>\<open>to_uppercase\<close>, as far as a comparison with the names below can tell: besides the ASCII letters,
  the dotless i (bytes C4 B1) has the upper case I and the long s (C5 BF) the upper case S; no other
  character has an upper case that is part of a name.
\<close>

fun to_uppercase :: "string \<Rightarrow> string" where
  "to_uppercase [] = []"
| "to_uppercase (a # b # s) =
     (if a = CHR 0xC4 \<and> b = CHR 0xB1 then CHR ''I'' # to_uppercase s
      else if a = CHR 0xC5 \<and> b = CHR 0xBF then CHR ''S'' # to_uppercase s
      else (if 97 \<le> (of_char a :: nat) \<and> (of_char a :: nat) \<le> 122 then char_of (of_char a - 32 :: nat) else a)
        # to_uppercase (b # s))"
| "to_uppercase [a] = [if 97 \<le> (of_char a :: nat) \<and> (of_char a :: nat) \<le> 122 then char_of (of_char a - 32 :: nat) else a]"

definition month_names :: "(string \<times> nat) list" where
  "month_names = [(''JAN'', 1), (''1'', 1), (''FEB'', 2), (''2'', 2), (''MAR'', 3), (''3'', 3), (''APR'', 4), (''4'', 4),
     (''MAY'', 5), (''5'', 5), (''JUN'', 6), (''6'', 6), (''JUL'', 7), (''7'', 7), (''AUG'', 8), (''8'', 8),
     (''SEP'', 9), (''9'', 9), (''OCT'', 10), (''10'', 10), (''NOV'', 11), (''11'', 11), (''DEC'', 12), (''12'', 12)]"

definition month :: "string \<Rightarrow> (CronError, nat) res" where
  "month v = (case map_of month_names (to_uppercase v) of
     Some n \<Rightarrow> Ok n | None \<Rightarrow> Err (InvalidMonthIndicator v))"

definition vixie_days :: "(string \<times> nat) list" where
  "vixie_days = [(''SUN'', 1), (''1'', 1), (''MON'', 2), (''2'', 2), (''TUE'', 3), (''3'', 3), (''WED'', 4), (''4'', 4),
     (''THU'', 5), (''5'', 5), (''FRI'', 6), (''6'', 6), (''SAT'', 7), (''7'', 7)]"

definition unix_days :: "(string \<times> nat) list" where
  "unix_days = [(''SUN'', 1), (''0'', 1), (''7'', 1), (''MON'', 2), (''1'', 2), (''TUE'', 3), (''2'', 3), (''WED'', 4), (''3'', 4),
     (''THU'', 5), (''4'', 5), (''FRI'', 6), (''5'', 6), (''SAT'', 7), (''6'', 7)]"

definition day_of_week :: "string \<Rightarrow> bool \<Rightarrow> (CronError, nat) res" where
  "day_of_week v is_vixie = (case map_of (if is_vixie then vixie_days else unix_days) (to_uppercase v) of
     Some n \<Rightarrow> Ok n | None \<Rightarrow> Err (InvalidDayOfWeekIndicator v))"

definition parse_time_unit :: "string \<Rightarrow> bool \<Rightarrow> bool \<Rightarrow> bool \<Rightarrow> (CronError, nat) res" where
  "parse_time_unit s is_vixie is_dom is_dow =
     (if is_dom then month s
      else if is_dow then day_of_week s is_vixie
      else map_err ParseInt (parse_uint (2 ^ 32 - 1) s))"

definition parse_range :: "string \<Rightarrow> string \<Rightarrow> bool \<Rightarrow> bool \<Rightarrow> bool \<Rightarrow> (CronError, nat \<times> nat) res" where
  "parse_range left_range right_range is_vixie is_dom is_dow =
     bind_res (parse_time_unit left_range is_vixie is_dom is_dow) (\<lambda>l.
     bind_res (parse_time_unit right_range is_vixie is_dom is_dow) (\<lambda>r. Ok (l, r)))"

text \<open>\<^verbatim>\<open>(l..=r).step_by(step)\<close>, which panics for a step of zero.\<close>

definition stepped :: "nat \<Rightarrow> nat \<Rightarrow> string \<Rightarrow> (CronError, nat set) res" where
  "stepped l r step_value =
     bind_res (map_err ParseInt (parse_uint (2 ^ 64 - 1) step_value)) (\<lambda>step.
     if step = 0 then Panic
     else Ok (set (filter (\<lambda>i. (i - l) mod step = 0) [l..<Suc r])))"

text \<open>One element of the list: \<^const>\<open>None\<close> returns \<^verbatim>\<open>All\<close>, otherwise the numbers that are inserted.\<close>

definition parse_item :: "string \<Rightarrow> nat \<Rightarrow> nat \<Rightarrow> bool \<Rightarrow> bool \<Rightarrow> bool \<Rightarrow> (CronError, nat set option) res" where
  "parse_item v lo hi is_vixie is_dow is_dom =
     (let (left_step, right_step) = splitn2 (CHR ''/'') v;
          (left_dash, right_dash) = splitn2 (CHR ''-'') left_step in
      case (right_dash, right_step) of
        (Some right_range, Some step_value) \<Rightarrow>
          bind_res (parse_range left_dash right_range is_vixie is_dom is_dow) (\<lambda>(l, r).
          if l < lo \<or> l > hi \<or> r < lo \<or> r > hi \<or> l > r then Err (InvalidRange v)
          else map_ok Some (stepped l r step_value))
      | (Some right_range, None) \<Rightarrow>
          bind_res (parse_range left_dash right_range is_vixie is_dom is_dow) (\<lambda>(l, r).
          if l < lo \<or> l > hi \<or> r < lo \<or> r > hi \<or> l > r then Err (InvalidRange v)
          else if l = lo \<and> r = hi then Ok None
          else Ok (Some {l..r}))
      | (None, Some step_value) \<Rightarrow>
          if left_dash = ''*'' then map_ok Some (stepped lo hi step_value)
          else bind_res (parse_time_unit left_dash is_vixie is_dom is_dow) (\<lambda>left. map_ok Some (stepped left hi step_value))
      | (None, None) \<Rightarrow>
          if left_dash = ''*'' then Ok None
          else bind_res (parse_time_unit left_dash is_vixie is_dom is_dow) (\<lambda>i. Ok (Some {i})))"

fun parse_items :: "nat \<Rightarrow> nat \<Rightarrow> bool \<Rightarrow> bool \<Rightarrow> bool \<Rightarrow> nat set \<Rightarrow> string list \<Rightarrow> (CronError, TimeRange) res" where
  "parse_items lo hi is_vixie is_dow is_dom acc [] = Ok (TConstrained acc)"
| "parse_items lo hi is_vixie is_dow is_dom acc (v # vs) =
     bind_res (parse_item v lo hi is_vixie is_dow is_dom) (\<lambda>x. case x of
       None \<Rightarrow> Ok TAll
     | Some ns \<Rightarrow> parse_items lo hi is_vixie is_dow is_dom (acc \<union> ns) vs)"

definition parse_field :: "string \<Rightarrow> nat \<Rightarrow> nat \<Rightarrow> bool \<Rightarrow> bool \<Rightarrow> bool \<Rightarrow> (CronError, TimeRange) res" where
  "parse_field v lo hi is_vixie is_dow is_dom = parse_items lo hi is_vixie is_dow is_dom {} (split_on (CHR '','') v)"

fun to_seconds :: "TimeRange \<Rightarrow> Seconds" where
  "to_seconds TAll = SAll"
| "to_seconds (TConstrained s) = SConstrained s"

fun to_years :: "TimeRange \<Rightarrow> Years" where
  "to_years TAll = YAll"
| "to_years (TConstrained s) = YConstrained s"

definition parse_dates :: "string \<Rightarrow> string list \<Rightarrow> bool \<Rightarrow> Seconds \<Rightarrow> Years \<Rightarrow> (CronError, Cron) res" where
  "parse_dates s fs is_vixie secs yrs =
     bind_res (parse_field (fs ! 0) 0 59 is_vixie False False) (\<lambda>mi.
     bind_res (parse_field (fs ! 1) 0 23 is_vixie False False) (\<lambda>h.
     bind_res (parse_field (fs ! 2) 1 31 is_vixie False False) (\<lambda>d.
     bind_res (parse_field (fs ! 3) 1 12 is_vixie False True) (\<lambda>mo.
     bind_res (parse_field (fs ! 4) 1 7 is_vixie True False) (\<lambda>w.
     Ok \<lparr>cron_text = s, seconds = secs, minutes = mi, hours = h, days_of_month = d, months = mo, days_of_week = w, years = yrs\<rparr>)))))"

definition Cron_from_str :: "string \<Rightarrow> (CronError, Cron) res" where
  "Cron_from_str s =
     (let fs = split_whitespace s in
      if length fs = 5 then parse_dates s fs False SIgnore YUnbound
      else if length fs = 6 then
        bind_res (parse_field (fs ! 0) 0 59 True False False) (\<lambda>secs.
        parse_dates s (tl fs) True (to_seconds secs) YAll)
      else if length fs = 7 then
        bind_res (parse_field (fs ! 0) 0 59 True False False) (\<lambda>secs.
        bind_res (parse_dates s (tl fs) True (to_seconds secs) YAll) (\<lambda>c.
        bind_res (parse_field (fs ! 6) MIN_YEAR MAX_YEAR True False False) (\<lambda>yrs.
        Ok (c\<lparr>years := to_years yrs\<rparr>))))
      else Err ArgumentCount)"

section \<open>Expressions and their meaning\<close>

datatype cron_item = Star | StarStep nat | Single nat | From nat nat | Range nat nat | RangeStep nat nat nat

fun item_wf :: "nat \<Rightarrow> nat \<Rightarrow> cron_item \<Rightarrow> bool" where
  "item_wf lo hi Star = True"
| "item_wf lo hi (StarStep s) = (0 < s \<and> s < 2 ^ 64)"
| "item_wf lo hi (Single v) = (lo \<le> v \<and> v \<le> hi)"
| "item_wf lo hi (From v s) = (lo \<le> v \<and> v \<le> hi \<and> 0 < s \<and> s < 2 ^ 64)"
| "item_wf lo hi (Range l r) = (lo \<le> l \<and> l \<le> r \<and> r \<le> hi)"
| "item_wf lo hi (RangeStep l r s) = (lo \<le> l \<and> l \<le> r \<and> r \<le> hi \<and> 0 < s \<and> s < 2 ^ 64)"

text \<open>The text of an item, with \<open>pu\<close> for the numbers.\<close>

fun show_item :: "(nat \<Rightarrow> string) \<Rightarrow> cron_item \<Rightarrow> string" where
  "show_item pu Star = ''*''"
| "show_item pu (StarStep s) = ''*/'' @ show_nat s"
| "show_item pu (Single v) = pu v"
| "show_item pu (From v s) = pu v @ ''/'' @ show_nat s"
| "show_item pu (Range l r) = pu l @ ''-'' @ pu r"
| "show_item pu (RangeStep l r s) = pu l @ ''-'' @ pu r @ ''/'' @ show_nat s"

definition every :: "nat \<Rightarrow> nat \<Rightarrow> nat \<Rightarrow> nat set" where
  "every l r s = {i. l \<le> i \<and> i \<le> r \<and> (\<exists>k. i = l + k * s)}"

fun item_values :: "nat \<Rightarrow> nat \<Rightarrow> cron_item \<Rightarrow> nat set" where
  "item_values lo hi Star = {lo..hi}"
| "item_values lo hi (StarStep s) = every lo hi s"
| "item_values lo hi (Single v) = {v}"
| "item_values lo hi (From v s) = every v hi s"
| "item_values lo hi (Range l r) = {l..r}"
| "item_values lo hi (RangeStep l r s) = every l r s"

definition show_field :: "(nat \<Rightarrow> string) \<Rightarrow> cron_item list \<Rightarrow> string" where
  "show_field pu items = join_with (CHR '','') (map (show_item pu) items)"

definition field_meaning :: "nat \<Rightarrow> nat \<Rightarrow> cron_item list \<Rightarrow> TimeRange" where
  "field_meaning lo hi items =
     (if Star \<in> set items \<or> Range lo hi \<in> set items then TAll
      else TConstrained (\<Union>it \<in> set items. item_values lo hi it))"

definition field_wf :: "nat \<Rightarrow> nat \<Rightarrow> cron_item list \<Rightarrow> bool" where
  "field_wf lo hi items \<longleftrightarrow> items \<noteq> [] \<and> list_all (item_wf lo hi) items"

section \<open>Parsing what was printed\<close>

text \<open>\<open>pu\<close> prints the numbers of a field so that they are read back and contain no punctuation.\<close>

definition unit_printer :: "(nat \<Rightarrow> string) \<Rightarrow> nat \<Rightarrow> nat \<Rightarrow> bool \<Rightarrow> bool \<Rightarrow> bool \<Rightarrow> bool" where
  "unit_printer pu lo hi is_vixie is_dow is_dom \<longleftrightarrow> (\<forall>v. lo \<le> v \<and> v \<le> hi \<longrightarrow>
     parse_time_unit (pu v) is_vixie is_dom is_dow = Ok v \<and> pu v \<noteq> [] \<and> (\<forall>c \<in> set (pu v). is_digit c))"

lemma stepped_every:
  assumes "0 < s" and "s < 2 ^ 64"
  shows "stepped l r (show_nat s) = Ok (every l r s)"
proof -
  have "l \<le> i \<Longrightarrow> s dvd i - l \<longleftrightarrow> (\<exists>k. i = l + k * s)" for i
    by (auto simp: dvd_def mult.commute) (metis le_add_diff_inverse)
  then have "set (filter (\<lambda>i. (i - l) mod s = 0) [l..<Suc r]) = every l r s"
    by (auto simp: every_def)
  moreover have "parse_uint (2 ^ 64 - 1) (show_nat s) = Ok s" using assms(2) by (intro parse_uint_show_nat) simp
  ultimately show ?thesis using assms(1) by (simp add: stepped_def)
qed

lemma digits_no_punctuation:
  assumes "\<forall>c \<in> set s. is_digit c"
  shows "CHR ''/'' \<notin> set s" "CHR ''-'' \<notin> set s" "CHR '','' \<notin> set s" "CHR ''*'' \<notin> set s"
  using assms by (auto simp: is_digit_def)

lemma parse_item_show:
  assumes "unit_printer pu lo hi is_vixie is_dow is_dom" and "item_wf lo hi it"
  shows "parse_item (show_item pu it) lo hi is_vixie is_dow is_dom
    = Ok (if it = Star \<or> it = Range lo hi then None else Some (item_values lo hi it))"
proof -
  have u: "parse_time_unit (pu v) is_vixie is_dom is_dow = Ok v" "CHR ''/'' \<notin> set (pu v)" "CHR ''-'' \<notin> set (pu v)"
    "pu v \<noteq> ''*''" if "lo \<le> v" "v \<le> hi" for v
    using assms(1) that digits_no_punctuation [of "pu v"] by (auto simp: unit_printer_def)
  show ?thesis
  proof (cases it)
    case Star
    then show ?thesis by (simp add: parse_item_def)
  next
    case (StarStep s)
    with assms(2) show ?thesis by (simp add: parse_item_def stepped_every)
  next
    case (Single v)
    with assms(2) u [of v] show ?thesis by (simp add: parse_item_def splitn2_None)
  next
    case (From v s)
    with assms(2) u [of v] show ?thesis by (simp add: parse_item_def splitn2_None splitn2_Some stepped_every)
  next
    case (Range l r)
    with assms(2) u [of l] u [of r] show ?thesis
      by (auto simp: parse_item_def splitn2_None splitn2_Some parse_range_def)
  next
    case (RangeStep l r s)
    with assms(2) u [of l] u [of r]
    have "splitn2 (CHR ''/'') (show_item pu it) = (pu l @ ''-'' @ pu r, Some (show_nat s))"
      using splitn2_Some [of "CHR ''/''" "pu l @ ''-'' @ pu r" "show_nat s"] by simp
    with RangeStep assms(2) u [of l] u [of r] show ?thesis
      by (auto simp: parse_item_def splitn2_Some parse_range_def stepped_every simp del: show_item.simps)
  qed
qed

lemma parse_items_show:
  assumes "unit_printer pu lo hi is_vixie is_dow is_dom" and "list_all (item_wf lo hi) items"
  shows "parse_items lo hi is_vixie is_dow is_dom acc (map (show_item pu) items)
    = Ok (if Star \<in> set items \<or> Range lo hi \<in> set items then TAll
          else TConstrained (acc \<union> (\<Union>it \<in> set items. item_values lo hi it)))"
  using assms(2) by (induction items arbitrary: acc) (auto simp: parse_item_show [OF assms(1)] Un_assoc)

lemma show_item_chars:
  assumes "unit_printer pu lo hi is_vixie is_dow is_dom" and "item_wf lo hi it" and "c \<in> set (show_item pu it)"
  shows "is_digit c \<or> c \<in> set ''*/-''"
proof -
  have "is_digit c" if "lo \<le> v" "v \<le> hi" "c \<in> set (pu v)" for v using assms(1) that by (auto simp: unit_printer_def)
  then have "is_digit c" if "lo \<le> l" "l \<le> r" "r \<le> hi" "c \<in> set (pu l) \<union> set (pu r)" for l r
    using that by (meson UnE order_trans)
  from this [of _ _, simplified] this [of v v for v, simplified] show ?thesis
    using assms(2,3) by (cases it) (auto dest: show_nat_digits)
qed

lemma parse_field_show:
  assumes "unit_printer pu lo hi is_vixie is_dow is_dom" and "field_wf lo hi items"
  shows "parse_field (show_field pu items) lo hi is_vixie is_dow is_dom = Ok (field_meaning lo hi items)"
proof -
  have "\<forall>p \<in> set (map (show_item pu) items). CHR '','' \<notin> set p"
    using assms show_item_chars [OF assms(1)] by (fastforce simp: field_wf_def list_all_iff is_digit_def)
  then have "split_on (CHR '','') (show_field pu items) = map (show_item pu) items"
    using assms(2) by (simp add: show_field_def split_join_with field_wf_def)
  with parse_items_show [OF assms(1), of items "{}"] assms(2) show ?thesis
    by (simp add: parse_field_def field_wf_def field_meaning_def)
qed

lemma show_field_graphic:
  assumes "unit_printer pu lo hi is_vixie is_dow is_dom" and "field_wf lo hi items"
  shows "show_field pu items \<noteq> [] \<and> (\<forall>c \<in> set (show_field pu items). graphic c)"
proof -
  have ne: "show_item pu it \<noteq> []" if "item_wf lo hi it" for it
    using that assms(1) by (cases it) (simp_all add: unit_printer_def)
  have gr: "graphic c" if "item_wf lo hi it" "c \<in> set (show_item pu it)" for it c
    using show_item_chars [OF assms(1) that] by (auto simp: is_digit_def graphic_def)
  have join_ne: "join_with d ps \<noteq> []" if "ps \<noteq> []" "\<forall>p \<in> set ps. p \<noteq> []" for d ps
    using that by (induction d ps rule: join_with.induct) auto
  have join_set: "c \<in> set (join_with d ps) \<Longrightarrow> c = d \<or> (\<exists>p \<in> set ps. c \<in> set p)" for c d ps
    by (induction d ps rule: join_with.induct) auto
  have "show_field pu items \<noteq> []"
    unfolding show_field_def using assms(2) ne by (intro join_ne) (auto simp: field_wf_def list_all_iff)
  moreover have "graphic c" if "c \<in> set (show_field pu items)" for c
  proof -
    have "graphic (CHR '','')" by (simp add: graphic_def)
    with join_set [OF that [unfolded show_field_def]] assms(2) gr show ?thesis
      by (auto simp: field_wf_def list_all_iff)
  qed
  ultimately show ?thesis by blast
qed

section \<open>The fields of an expression\<close>

lemma number_printer:
  assumes "hi < 2 ^ 32"
  shows "unit_printer show_nat lo hi is_vixie False False"
  using assms by (auto simp: unit_printer_def parse_time_unit_def parse_uint_show_nat dest: show_nat_digits)

lemma month_printer: "unit_printer show_nat 1 12 is_vixie False True"
proof -
  have "list_all (\<lambda>v. month (show_nat v) = Ok v) [1..<13]" by code_simp
  then have "month (show_nat v) = Ok v" if "1 \<le> v" "v \<le> 12" for v using that by (auto simp: list_all_iff)
  then show ?thesis by (auto simp: unit_printer_def parse_time_unit_def dest: show_nat_digits)
qed

lemma day_printer: "unit_printer (\<lambda>v. show_nat (v - 1)) 1 7 False True False"
proof -
  have "list_all (\<lambda>v. day_of_week (show_nat (v - 1)) False = Ok v) [1..<8]" by code_simp
  then have "day_of_week (show_nat (v - 1)) False = Ok v" if "1 \<le> v" "v \<le> 7" for v
    using that by (auto simp: list_all_iff)
  then show ?thesis by (auto simp: unit_printer_def parse_time_unit_def dest: show_nat_digits)
qed

lemma five_words: "Q a \<Longrightarrow> Q b \<Longrightarrow> Q c \<Longrightarrow> Q d \<Longrightarrow> Q e \<Longrightarrow> \<forall>p \<in> set [a, b, c, d, e]. Q p"
  by simp

lemma five_fields:
  assumes "split_whitespace s = [a, b, c, d, e]"
    and "parse_field a 0 59 False False False = Ok mi" and "parse_field b 0 23 False False False = Ok h"
    and "parse_field c 1 31 False False False = Ok dm" and "parse_field d 1 12 False False True = Ok mo"
    and "parse_field e 1 7 False True False = Ok w"
  shows "Cron_from_str s = Ok \<lparr>cron_text = s, seconds = SIgnore, minutes = mi, hours = h, days_of_month = dm, months = mo,
    days_of_week = w, years = YUnbound\<rparr>"
  using assms by (simp add: Cron_from_str_def parse_dates_def Let_def)

section \<open>Properties\<close>

text \<open>
  C34: a crontab line of five fields, each a list of stars, numbers, ranges and steps inside the
  field's bounds, is parsed to what it means: a field that contains a star or its whole range is
  unconstrained, any other holds exactly the numbers of its items, and the days of the week count
  from 1 for Sunday.
\<close>

theorem crontab_parsed:
  assumes "field_wf 0 59 mi" and "field_wf 0 23 h" and "field_wf 1 31 d" and "field_wf 1 12 mo" and "field_wf 1 7 w"
  defines "line \<equiv> join_with (CHR '' '')
      [show_field show_nat mi, show_field show_nat h, show_field show_nat d, show_field show_nat mo,
       show_field (\<lambda>v. show_nat (v - 1)) w]"
  shows "Cron_from_str line
    = Ok \<lparr>cron_text = line, seconds = SIgnore, minutes = field_meaning 0 59 mi, hours = field_meaning 0 23 h,
          days_of_month = field_meaning 1 31 d, months = field_meaning 1 12 mo, days_of_week = field_meaning 1 7 w,
          years = YUnbound\<rparr>"
proof -
  have "unit_printer show_nat 0 59 False False False" "unit_printer show_nat 0 23 False False False"
    "unit_printer show_nat 1 31 False False False" by (simp_all add: number_printer)
  note p = this month_printer [of False] day_printer
  have "split_whitespace line
    = [show_field show_nat mi, show_field show_nat h, show_field show_nat d, show_field show_nat mo,
       show_field (\<lambda>v. show_nat (v - 1)) w]"
    unfolding line_def
    by (intro split_whitespace_join five_words show_field_graphic [OF p(1) assms(1)] show_field_graphic [OF p(2) assms(2)]
      show_field_graphic [OF p(3) assms(3)] show_field_graphic [OF p(4) assms(4)] show_field_graphic [OF p(5) assms(5)])
  then show ?thesis
    by (rule five_fields [OF _ parse_field_show [OF p(1) assms(1)] parse_field_show [OF p(2) assms(2)]
      parse_field_show [OF p(3) assms(3)] parse_field_show [OF p(4) assms(4)] parse_field_show [OF p(5) assms(5)]])
qed

theorem crontab_parsed_witness:
  "Cron_from_str ''*/5 0,12 1-15/7 * 1-5'' = Ok \<lparr>cron_text = ''*/5 0,12 1-15/7 * 1-5'', seconds = SIgnore, minutes = field_meaning 0 59 [StarStep 5],
      hours = field_meaning 0 23 [Single 0, Single 12], days_of_month = field_meaning 1 31 [RangeStep 1 15 7],
      months = TAll, days_of_week = TConstrained {2..6}, years = YUnbound\<rparr>"
proof -
  have t: "join_with (CHR '' '') [show_field show_nat [StarStep 5], show_field show_nat [Single 0, Single 12],
      show_field show_nat [RangeStep 1 15 7], show_field show_nat [Star], show_field (\<lambda>v. show_nat (v - 1)) [Range 2 6]]
    = ''*/5 0,12 1-15/7 * 1-5''" by code_simp
  have "field_wf 0 59 [StarStep 5]" "field_wf 0 23 [Single 0, Single 12]" "field_wf 1 31 [RangeStep 1 15 7]"
    "field_wf 1 12 [Star]" "field_wf 1 7 [Range 2 6]" by (simp_all add: field_wf_def)
  from crontab_parsed [OF this, unfolded t] show ?thesis by (simp add: field_meaning_def)
qed

text \<open>
  The bounds are checked for ranges only: a single number or the start of a step is taken as it is, and a
  step of zero panics.
\<close>

lemma cron_unchecked:
  "parse_field ''99'' 0 59 False False False = Ok (TConstrained {99})"
  "parse_field ''*/0'' 0 59 False False False = Panic"
  by (simp_all add: parse_field_def parse_item_def parse_time_unit_def parse_uint_def stepped_def is_digit_def digit_val_def)

end
