(* ===== verification/Rust_IO.thy ===== *)
theory Rust_IO
  imports Rust_Net
begin

text \<open>
  The HTTP client of \<^verbatim>\<open>src/http.rs\<close> as its users see it, and line-wise reading of a body.  The client wraps
  \<^verbatim>\<open>hyper\<close>; an HTTP exchange is a parameter: a URI that does not parse, a failed request, or a status code
  with a body.
\<close>

text \<open>A body delivers its bytes and then ends, or breaks off with an error.\<close>

record http_body =
  body_bytes :: bytes
  body_error :: "string option"

record http_lib =
  uri_parse :: "string \<Rightarrow> string + string"
  http_get :: "string \<Rightarrow> string + nat \<times> http_body"
  b64_decode :: "bytes \<Rightarrow> string + bytes"

fun of_sum :: "('a \<Rightarrow> 'e) \<Rightarrow> 'a + 'b \<Rightarrow> ('e, 'b) res" where
  "of_sum h (Inl a) = Err (h a)"
| "of_sum h (Inr b) = Ok b"

text \<open>\<^verbatim>\<open>hyper::body::to_bytes\<close> reads a body to its end.\<close>

definition to_bytes :: "http_body \<Rightarrow> string + bytes" where
  "to_bytes b = (case body_error b of None \<Rightarrow> Inr (body_bytes b) | Some e \<Rightarrow> Inl e)"

fun read_until :: "byte \<Rightarrow> bytes \<Rightarrow> bytes" where
  "read_until d [] = []"
| "read_until d (b # bs) = (if b = d then [b] else b # read_until d bs)"

lemma read_until_prefix: "\<exists>rest. bs = read_until d bs @ rest"
  by (induction bs) auto

lemma read_until_nonempty [simp]: "read_until d bs = [] \<longleftrightarrow> bs = []"
  by (cases bs) auto

lemma length_read_until_le: "length (read_until d bs) \<le> length bs"
  by (induction bs) auto

lemma read_until_append: "d \<notin> set l \<Longrightarrow> read_until d (l @ d # rest) = l @ [d]"
  by (induction l) auto

end
