(* ===== verification/Resolver.thy ===== *)
theory Resolver
  imports Rust_IO
begin

text \<open>
  \<^verbatim>\<open>lib/resolver/src/lib.rs\<close>: the DNS client that the proxy, the subscriptions and the rule lists resolve host names with,
  and its use by the HTTP client (\<^verbatim>\<open>src/http.rs\<close>).  It wraps \<^verbatim>\<open>TokioAsyncResolver\<close> of the crate \<^verbatim>\<open>trust_dns_resolver\<close>, whose
  constructor and \<^verbatim>\<open>lookup_ip\<close> are the fields of \<open>dns_lib\<close>; \<open>'r\<close> is the type of resolvers.  The fields of the options that
  are not set keep their defaults.
\<close>

section \<open>Model\<close>

datatype ResolveError = NoRecordsFound | ResolveOther string

datatype Protocol = UdpProtocol

record NameServerConfig =
  ns_socket_addr :: SocketAddr
  ns_protocol :: Protocol
  ns_tls_dns_name :: "string option"
  ns_trust_nx_responses :: bool
  ns_bind_addr :: "SocketAddr option"

record ResolverOpts =
  cache_size :: nat
  num_concurrent_reqs :: nat

record 'r dns_lib =
  tokio_resolver :: "NameServerConfig list \<Rightarrow> ResolverOpts \<Rightarrow> ResolveError + 'r"
  resolver_lookup_ip :: "'r \<Rightarrow> string \<Rightarrow> ResolveError + IpAddr list"

definition udp_name_server :: "SocketAddr \<Rightarrow> NameServerConfig" where
  "udp_name_server addr = \<lparr>ns_socket_addr = addr, ns_protocol = UdpProtocol, ns_tls_dns_name = None,
     ns_trust_nx_responses = False, ns_bind_addr = None\<rparr>"

definition Resolver_new :: "'r dns_lib \<Rightarrow> SocketAddr list \<Rightarrow> (ResolveError, 'r) res" where
  "Resolver_new D addrs =
     (let opts = \<lparr>cache_size = 1024, num_concurrent_reqs = 128\<rparr>;
          conf = map udp_name_server addrs in
      of_sum id (tokio_resolver D conf opts))"

text \<open>The resolver of the DNS handler, \<^verbatim>\<open>Upstream::new\<close> of \<^verbatim>\<open>src/dns/handle/upstream.rs\<close>, differs in one option.\<close>

definition DnsUpstream_new :: "'r dns_lib \<Rightarrow> SocketAddr list \<Rightarrow> (ResolveError, 'r) res" where
  "DnsUpstream_new D addrs =
     (let opts = \<lparr>cache_size = 1024, num_concurrent_reqs = 64\<rparr>;
          conf = map udp_name_server addrs in
      of_sum id (tokio_resolver D conf opts))"

text \<open>\<^verbatim>\<open>unwrap\<close> panics when the answer has no address.\<close>

definition Resolver_resolve :: "'r dns_lib \<Rightarrow> 'r \<Rightarrow> string \<Rightarrow> u16 \<Rightarrow> (ResolveError, SocketAddr) res" where
  "Resolver_resolve D r host port =
     bind_res (of_sum id (resolver_lookup_ip D r host)) (\<lambda>lu. case lu of
       [] \<Rightarrow> Panic
     | ip # _ \<Rightarrow> Ok (SocketAddr_new ip port))"

definition Resolver_lookup :: "'r dns_lib \<Rightarrow> 'r \<Rightarrow> string \<Rightarrow> u16 \<Rightarrow> (ResolveError, SocketAddr list) res" where
  "Resolver_lookup D r host port =
     bind_res (of_sum id (resolver_lookup_ip D r host)) (\<lambda>li. Ok (map (\<lambda>ip. SocketAddr_new ip port) li))"

definition Resolver_lookup_ip :: "'r dns_lib \<Rightarrow> 'r \<Rightarrow> string \<Rightarrow> (ResolveError, IpAddr list) res" where
  "Resolver_lookup_ip D r host = bind_res (of_sum id (resolver_lookup_ip D r host)) Ok"

text \<open>The service that the HTTP connector resolves names with; it sets the port itself.\<close>

definition http_resolve :: "'r dns_lib \<Rightarrow> 'r \<Rightarrow> string \<Rightarrow> (ResolveError, SocketAddr list) res" where
  "http_resolve D r name = Resolver_lookup D r name 0"

section \<open>The four ways to resolve agree\<close>

lemma resolve_first_of_lookup:
  "Resolver_resolve D r host port = bind_res (Resolver_lookup D r host port) (\<lambda>addrs. case addrs of [] \<Rightarrow> Panic | a # _ \<Rightarrow> Ok a)"
  by (cases "resolver_lookup_ip D r host") (auto simp: Resolver_resolve_def Resolver_lookup_def split: list.split)

lemma lookup_of_lookup_ip: "Resolver_lookup D r host port = map_ok (map (\<lambda>ip. SocketAddr_new ip port)) (Resolver_lookup_ip D r host)"
  by (cases "resolver_lookup_ip D r host") (simp_all add: Resolver_lookup_def Resolver_lookup_ip_def)

text \<open>A resolver that reports an empty answer as an error, as the crate documents, does not panic.\<close>

lemma resolve_no_panic:
  assumes "\<And>host. resolver_lookup_ip D r host \<noteq> Inr []"
  shows "Resolver_resolve D r host port \<noteq> Panic"
  using assms [of host] by (cases "resolver_lookup_ip D r host") (auto simp: Resolver_resolve_def split: list.split)

end
