(* ===== verification/SsError.thy ===== *)
theory SsError
  imports Resolver Rust_Net
begin

text \<open>
  \<^verbatim>\<open>lib/shadowsocks/src/error.rs\<close>: the public error types of the crate, their texts, and the conversion to \<^verbatim>\<open>io::Error\<close>.  The
  text of a resolver error is an argument.
\<close>

datatype SsProtocolError =
    SsIo io_error
  | SsPacketTooShort nat nat
  | SsInvalidSocketType byte byte
  | SsInvalidTimestamp u64 u64
  | SsPacketTooShortForSalt nat nat
  | SsPacketTooShortForTag nat nat
  | SsDecryptPayloadError
  | SsDecryptLengthError
  | SsDataTooLong nat
  | SsAddressDomainInvalidEncoding
  | SsAddressTypeNotSupported byte

datatype SsError = SsErrorIo io_error | SsErrorProtocol SsProtocolError | SsErrorResolve ResolveError

fun SsProtocolError_fmt :: "SsProtocolError \<Rightarrow> string" where
  "SsProtocolError_fmt (SsIo e) = err_msg e"
| "SsProtocolError_fmt (SsPacketTooShort n m) =
     ''packet too short, at least '' @ show_nat n @ '' bytes, but found '' @ show_nat m @ '' bytes''"
| "SsProtocolError_fmt (SsInvalidSocketType a b) =
     ''invalid socket type, expecting 0x'' @ show_hex (unat a) @ '', but found 0x'' @ show_hex (unat b)"
| "SsProtocolError_fmt (SsInvalidTimestamp t now) =
     ''invalid timestamp '' @ show_nat (unat t) @ '' - now '' @ show_nat (unat now) @ '' = '' @ show_i64 (t - now)"
| "SsProtocolError_fmt (SsPacketTooShortForSalt n m) =
     ''packet too short for salt, at least '' @ show_nat n @ '' bytes, but only got '' @ show_nat m @ '' bytes''"
| "SsProtocolError_fmt (SsPacketTooShortForTag n m) =
     ''packet too short for tag, at least '' @ show_nat n @ '' bytes, but only got '' @ show_nat m @ '' bytes''"
| "SsProtocolError_fmt SsDecryptPayloadError = ''decrypt payload failed''"
| "SsProtocolError_fmt SsDecryptLengthError = ''decrypt length failed''"
| "SsProtocolError_fmt (SsDataTooLong n) =
     ''buffer size too large (0x'' @ show_hex n @ ''), AEAD encryption protocol requires buffer to be smaller than 0x3FFF, the higher two bits must be set to zero''"
| "SsProtocolError_fmt SsAddressDomainInvalidEncoding = ''address domain name must be UTF-8 encoding''"
| "SsProtocolError_fmt (SsAddressTypeNotSupported b) = ''address type 0x'' @ show_hex (unat b) @ '' not supported''"

fun SsError_fmt :: "(ResolveError \<Rightarrow> string) \<Rightarrow> SsError \<Rightarrow> string" where
  "SsError_fmt fmt_resolve (SsErrorIo e) = err_msg e"
| "SsError_fmt fmt_resolve (SsErrorProtocol e) = SsProtocolError_fmt e"
| "SsError_fmt fmt_resolve (SsErrorResolve e) = fmt_resolve e"

text \<open>Every variant but the first is a \<^verbatim>\<open>todo!()\<close>.\<close>

fun SsProtocolError_into_io :: "SsProtocolError \<Rightarrow> (unit, io_error) res" where
  "SsProtocolError_into_io (SsIo e) = Ok e"
| "SsProtocolError_into_io _ = Panic"

lemma into_io_total_iff: "SsProtocolError_into_io e \<noteq> Panic \<longleftrightarrow> (\<exists>i. e = SsIo i \<and> SsProtocolError_into_io e = Ok i)"
  by (cases e) auto

end
