(* ===== verification/Sniffing.thy ===== *)
theory Sniffing
  imports Rust_Net
begin

text \<open>
  \<^verbatim>\<open>src/relay/thp/sniffing.rs\<close>: finding the destination of a connection from its first bytes, the server name of
  a TLS ClientHello or the Host header of an HTTP request.

  A \<^verbatim>\<open>Cursor\<close> is the list of bytes still to be read.  The functions of the crates \<^verbatim>\<open>memchr\<close>, \<^verbatim>\<open>bytes\<close> and
  \<^verbatim>\<open>byteorder\<close> are the fields of \<open>sniff_lib\<close>; \<open>advance\<close> is \<^term>\<open>None\<close> where it panics.  The loops are partial
  functions whose value \<^term>\<open>None\<close> means that they do not end.
\<close>

section \<open>Errors and readers\<close>

datatype SniffError = Sniff_Io io_error | Sniff_Resolve string | UnknownProtocol | HostNotFound
  | InvalidRequestHeader | InvalidSNI | TlsExtensionMissing

record sniff_lib =
  memchr :: "byte \<Rightarrow> bytes \<Rightarrow> nat option"
  advance :: "nat \<Rightarrow> bytes \<Rightarrow> bytes option"
  be_u16 :: "bytes \<Rightarrow> nat"
  be_u24 :: "bytes \<Rightarrow> nat"

definition HANDSHAKE_TYPE_CLIENT_HELLO :: byte where "HANDSHAKE_TYPE_CLIENT_HELLO = 1"
definition EXTENSION_TYPE_SNI :: nat where "EXTENSION_TYPE_SNI = 0"
definition NAME_TYPE_HOST_NAME :: byte where "NAME_TYPE_HOST_NAME = 0"

lemmas tls_consts = HANDSHAKE_TYPE_CLIENT_HELLO_def EXTENSION_TYPE_SNI_def NAME_TYPE_HOST_NAME_def

definition eof :: SniffError where
  "eof = Sniff_Io (IoError UnexpectedEof ''failed to fill whole buffer'')"

text \<open>\<^verbatim>\<open>read_u8\<close> asserts that it got a byte.\<close>

fun read_u8 :: "bytes \<Rightarrow> (SniffError, byte \<times> bytes) res" where
  "read_u8 [] = Panic"
| "read_u8 (b # r) = Ok (b, r)"

definition read_exact :: "nat \<Rightarrow> bytes \<Rightarrow> (SniffError, bytes \<times> bytes) res" where
  "read_exact n r = (if length r < n then Err eof else Ok (take n r, drop n r))"

definition read_u24 :: "sniff_lib \<Rightarrow> bytes \<Rightarrow> (SniffError, nat \<times> bytes) res" where
  "read_u24 L r = bind_res (read_exact 3 r) (\<lambda>(buf, r). Ok (be_u24 L buf, r))"

definition read_u16 :: "sniff_lib \<Rightarrow> bytes \<Rightarrow> (SniffError, nat \<times> bytes) res" where
  "read_u16 L r = bind_res (read_exact 2 r) (\<lambda>(buf, r). Ok (be_u16 L buf, r))"

definition skip :: "sniff_lib \<Rightarrow> nat \<Rightarrow> bytes \<Rightarrow> (SniffError, bytes) res" where
  "skip L n r = (case advance L n r of None \<Rightarrow> Panic | Some r \<Rightarrow> Ok r)"

section \<open>The server name of a ClientHello\<close>

text \<open>The loop over the server names; an entry of another type is skipped by two bytes only.\<close>

partial_function (option) sni_names :: "sniff_lib \<Rightarrow> bytes \<Rightarrow> (SniffError, string) res option" where
  "sni_names L r = (case read_u8 r of
     Ok (name_type, r) \<Rightarrow>
       if name_type \<noteq> NAME_TYPE_HOST_NAME then
         (case skip L 2 r of
            Ok r \<Rightarrow> sni_names L r
          | Err e \<Rightarrow> Some (Err e)
          | Panic \<Rightarrow> Some Panic)
       else Some (bind_res (read_u16 L r) (\<lambda>(name_len, r).
         bind_res (read_exact name_len r) (\<lambda>(buf, _). of_option InvalidSNI (from_utf8 buf))))
   | Err e \<Rightarrow> Some (Err e)
   | Panic \<Rightarrow> Some Panic)"

definition ext_header :: "sniff_lib \<Rightarrow> bytes \<Rightarrow> (SniffError, nat \<times> nat \<times> bytes) res" where
  "ext_header L r =
     bind_res (read_u16 L r) (\<lambda>(ext_typ, r).
     bind_res (read_u16 L r) (\<lambda>(ext_len, r). Ok (ext_typ, ext_len, r)))"

partial_function (option) sni_extensions :: "sniff_lib \<Rightarrow> bytes \<Rightarrow> (SniffError, string) res option" where
  "sni_extensions L r = (case ext_header L r of
     Ok (ext_typ, ext_len, r) \<Rightarrow>
       if ext_typ \<noteq> EXTENSION_TYPE_SNI then
         (case skip L ext_len r of
            Ok r \<Rightarrow> sni_extensions L r
          | Err e \<Rightarrow> Some (Err e)
          | Panic \<Rightarrow> Some Panic)
       else
         (case read_u16 L r of
            Ok (_, r) \<Rightarrow> sni_names L r
          | Err e \<Rightarrow> Some (Err e)
          | Panic \<Rightarrow> Some Panic)
   | Err e \<Rightarrow> Some (Err e)
   | Panic \<Rightarrow> Some Panic)"

text \<open>Everything before the extensions.\<close>

definition hello_prefix :: "sniff_lib \<Rightarrow> bytes \<Rightarrow> (SniffError, bytes) res" where
  "hello_prefix L buf =
     bind_res (skip L (1 + 2) buf) (\<lambda>r.
     bind_res (read_u16 L r) (\<lambda>(_, r).
     bind_res (read_u8 r) (\<lambda>(msg_type, r).
     if msg_type \<noteq> HANDSHAKE_TYPE_CLIENT_HELLO then Err UnknownProtocol
     else
       bind_res (read_u24 L r) (\<lambda>(_, r).
       bind_res (skip L (2 + (4 + 28)) r) (\<lambda>r.
       bind_res (read_u8 r) (\<lambda>(sess_len, r).
       bind_res (skip L (unat sess_len) r) (\<lambda>r.
       bind_res (read_u16 L r) (\<lambda>(cs_len, r).
       bind_res (skip L cs_len r) (\<lambda>r.
       bind_res (read_u8 r) (\<lambda>(cm_len, r).
       bind_res (skip L (unat cm_len) r) (\<lambda>r.
       bind_res (read_u16 L r) (\<lambda>(ext_len, r).
         if ext_len = 0 then Err TlsExtensionMissing else Ok r))))))))))))"

definition tls_sni :: "sniff_lib \<Rightarrow> bytes \<Rightarrow> (SniffError, string) res option" where
  "tls_sni L buf = (case hello_prefix L buf of
     Ok r \<Rightarrow> sni_extensions L r
   | Err e \<Rightarrow> Some (Err e)
   | Panic \<Rightarrow> Some Panic)"

section \<open>The Host header\<close>

definition host_field :: bytes where "host_field = as_bytes ''Host:''"

text \<open>A slice that is out of range panics.\<close>

partial_function (option) http_host_loop :: "sniff_lib \<Rightarrow> bytes \<Rightarrow> nat \<Rightarrow> (SniffError, string) res option" where
  "http_host_loop L buf start =
     (if start > length buf then Some Panic
      else case memchr L 10 (drop start buf) of
        None \<Rightarrow> Some (Err HostNotFound)
      | Some n \<Rightarrow>
          if n = 0 then Some (Err HostNotFound)
          else if n < 5 then http_host_loop L buf (start + n + 1)
          else if start + 5 > length buf then Some Panic
          else if take 5 (drop start buf) \<noteq> host_field then http_host_loop L buf (start + n + 1)
          else if start + n > length buf then Some Panic
          else (case from_utf8 (take (n - 5) (drop (start + 5) buf)) of
              None \<Rightarrow> Some (Err InvalidRequestHeader)
            | Some s \<Rightarrow> Some (Ok (trim s))))"

definition http_host :: "sniff_lib \<Rightarrow> bytes \<Rightarrow> (SniffError, string) res option" where
  "http_host L buf = http_host_loop L buf 0"

text \<open>\<open>peeked\<close> is the result of peeking at most 1024 bytes; the rest of the buffer is zero.\<close>

definition destination_addr :: "sniff_lib \<Rightarrow> io_error + bytes \<Rightarrow> (SniffError, string \<times> u16) res option" where
  "destination_addr L peeked = (case peeked of
     Inl e \<Rightarrow> Some (Err (Sniff_Io e))
   | Inr data \<Rightarrow>
       let buf = data @ replicate (1024 - length data) 0 in
       if hd buf = 22 then map_option (map_ok (\<lambda>domain. (domain, 443))) (tls_sni L buf)
       else if hd buf \<in> byte_of_char ` set ''GPDHCOT'' then
         map_option (map_ok (\<lambda>domain. (domain, 80))) (http_host L buf)
       else Some (Err UnknownProtocol))"

section \<open>Laws of the libraries\<close>

definition sniff_law :: "sniff_lib \<Rightarrow> bool" where
  "sniff_law L =
     ((\<forall>b s. case memchr L b s of None \<Rightarrow> b \<notin> set s | Some i \<Rightarrow> i < length s \<and> s ! i = b \<and> b \<notin> set (take i s))
    \<and> (\<forall>n r. advance L n r = (if n \<le> length r then Some (drop n r) else None))
    \<and> (\<forall>w. be_u16 L (be16 w) = unat w))"

lemma sniff_lawD:
  assumes "sniff_law L"
  shows "memchr L b s = None \<Longrightarrow> b \<notin> set s"
    and "memchr L b s = Some i \<Longrightarrow> i < length s \<and> s ! i = b \<and> b \<notin> set (take i s)"
    and "skip L n r = (if n \<le> length r then Ok (drop n r) else Panic)"
    and "be_u16 L (be16 w) = unat w"
proof -
  have m: "case memchr L b s of None \<Rightarrow> b \<notin> set s | Some i \<Rightarrow> i < length s \<and> s ! i = b \<and> b \<notin> set (take i s)" for b s
    using assms unfolding sniff_law_def by blast
  show "b \<notin> set s" if "memchr L b s = None" using m [of b s] that by simp
  show "i < length s \<and> s ! i = b \<and> b \<notin> set (take i s)" if "memchr L b s = Some i" using m [of b s] that by simp
  show "skip L n r = (if n \<le> length r then Ok (drop n r) else Panic)" "be_u16 L (be16 w) = unat w"
    using assms by (simp_all add: sniff_law_def skip_def)
qed

lemma memchr_append:
  assumes "sniff_law L" and "b \<notin> set l"
  shows "memchr L b (l @ b # rest) = Some (length l)"
proof (cases "memchr L b (l @ b # rest)")
  case None
  then show ?thesis using sniff_lawD(1) [OF assms(1) None] by simp
next
  case (Some i)
  from sniff_lawD(2) [OF assms(1) Some] have i: "(l @ b # rest) ! i = b" "b \<notin> set (take i (l @ b # rest))" by auto
  have "\<not> i < length l" using i(1) assms(2) by (metis nth_append nth_mem)
  moreover have "\<not> length l < i" using i(2) by (auto simp: take_append take_Cons' split: if_splits)
  ultimately show ?thesis using Some by simp
qed

section \<open>The loops end\<close>

lemma sni_names_ends: "sniff_law L \<Longrightarrow> \<exists>r. sni_names L bs = Some r"
proof (induction "length bs" arbitrary: bs rule: less_induct)
  case less
  show ?case
  proof (cases bs)
    case Nil
    then show ?thesis by (subst sni_names.simps) simp
  next
    case (Cons t r)
    have "\<exists>x. sni_names L (drop 2 r) = Some x" by (rule less.hyps) (use Cons less.prems in auto)
    then show ?thesis using Cons
      by (subst sni_names.simps) (auto simp: sniff_lawD(3) [OF less.prems])
  qed
qed

lemma ext_header_shorter: "ext_header L bs = Ok (t, n, r) \<Longrightarrow> length r < length bs"
  by (auto simp: ext_header_def read_u16_def read_exact_def bind_res_eq_Ok split: if_splits)

lemma ext_header_no_panic: "ext_header L bs \<noteq> Panic"
  by (auto simp: ext_header_def read_u16_def read_exact_def bind_res_eq_Panic)

lemma sni_extensions_ends: "sniff_law L \<Longrightarrow> \<exists>r. sni_extensions L bs = Some r"
proof (induction "length bs" arbitrary: bs rule: less_induct)
  case less
  show ?case
  proof (cases "ext_header L bs")
    case (Ok x)
    obtain t n r where x: "x = (t, n, r)" by (cases x)
    have "length (drop n r) < length bs" using ext_header_shorter [OF Ok [unfolded x]] by simp
    then have "\<exists>y. sni_extensions L (drop n r) = Some y" using less.hyps less.prems by blast
    then show ?thesis using Ok x sni_names_ends [OF less.prems]
      by (subst sni_extensions.simps) (auto simp: sniff_lawD(3) [OF less.prems] split: res.split)
  qed (subst sni_extensions.simps, simp)+
qed

lemma http_host_loop_ends:
  "sniff_law L \<Longrightarrow> start \<le> length buf \<Longrightarrow> \<exists>r. http_host_loop L buf start = Some r \<and> r \<noteq> Panic"
proof (induction "length buf - start" arbitrary: start rule: less_induct)
  case less
  show ?case
  proof (cases "memchr L 10 (drop start buf)")
    case None
    with less.prems show ?thesis by (subst http_host_loop.simps) simp
  next
    case (Some n)
    then have n: "start + n < length buf" using sniff_lawD(2) [OF less.prems(1) Some] less.prems(2) by auto
    then have "\<exists>r. http_host_loop L buf (start + n + 1) = Some r \<and> r \<noteq> Panic"
      using less.prems by (intro less.hyps) auto
    then show ?thesis using Some n less.prems(2)
      by (subst http_host_loop.simps) (auto split: option.split)
  qed
qed

section \<open>The host is text\<close>

text \<open>A host name that is found is valid UTF-8 and no longer than what was searched.\<close>

definition text_in :: "bytes \<Rightarrow> string \<Rightarrow> bool" where
  "text_in r s \<longleftrightarrow> valid_utf8 (as_bytes s) \<and> length s \<le> length r"

lemma text_in_mono: "text_in r s \<Longrightarrow> length r \<le> length r' \<Longrightarrow> text_in r' s"
  by (auto simp: text_in_def)

lemma from_utf8_text: "from_utf8 bs = Some s \<Longrightarrow> text_in bs s"
  by (auto simp: text_in_def from_utf8_eq_Some)

lemma read_shorter:
  "read_u8 r = Ok (x, r') \<Longrightarrow> length r' < length r"
  "read_exact n r = Ok (buf, r') \<Longrightarrow> length r' \<le> length r"
  "read_exact n r = Ok (buf, r') \<Longrightarrow> length buf \<le> length r"
  "read_u16 L r = Ok (y, r') \<Longrightarrow> length r' \<le> length r"
  "read_u24 L r = Ok (z, r') \<Longrightarrow> length r' \<le> length r"
  by (cases r; auto simp: read_exact_def read_u16_def read_u24_def bind_res_eq_Ok split: if_splits)+

lemma skip_shorter: "sniff_law L \<Longrightarrow> skip L n r = Ok r' \<Longrightarrow> length r' \<le> length r"
  by (auto simp: sniff_lawD(3) split: if_splits)

lemma sni_names_text: "sniff_law L \<Longrightarrow> sni_names L r = Some (Ok s) \<Longrightarrow> text_in r s"
proof (induction "length r" arbitrary: r rule: less_induct)
  case less
  from less.prems(2) obtain t r1 where t: "read_u8 r = Ok (t, r1)"
    by (subst (asm) sni_names.simps) (auto split: res.splits)
  note shorter = read_shorter(1) [OF t]
  show ?case
  proof (cases "t = NAME_TYPE_HOST_NAME")
    case True
    with less.prems(2) t obtain n r2 buf r3 where "read_u16 L r1 = Ok (n, r2)" "read_exact n r2 = Ok (buf, r3)" "from_utf8 buf = Some s"
      by (subst (asm) sni_names.simps) (auto simp: bind_res_eq_Ok)
    with shorter show ?thesis
      by (intro text_in_mono [OF from_utf8_text]) (auto dest!: read_shorter)
  next
    case False
    with less.prems(2) t obtain r2 where r2: "skip L 2 r1 = Ok r2" "sni_names L r2 = Some (Ok s)"
      by (subst (asm) sni_names.simps) (auto split: res.splits)
    then have len: "length r2 < length r" using shorter skip_shorter [OF less.prems(1) r2(1)] by simp
    from less.hyps [OF this less.prems(1) r2(2)] len show ?thesis by (auto intro: text_in_mono)
  qed
qed

lemma sni_extensions_text: "sniff_law L \<Longrightarrow> sni_extensions L r = Some (Ok s) \<Longrightarrow> text_in r s"
proof (induction "length r" arbitrary: r rule: less_induct)
  case less
  from less.prems(2) obtain t n r1 where t: "ext_header L r = Ok (t, n, r1)"
    by (subst (asm) sni_extensions.simps) (auto split: res.splits)
  note shorter = ext_header_shorter [OF t]
  show ?case
  proof (cases "t = EXTENSION_TYPE_SNI")
    case True
    with less.prems(2) t obtain m r2 where r2: "read_u16 L r1 = Ok (m, r2)" "sni_names L r2 = Some (Ok s)"
      by (subst (asm) sni_extensions.simps) (auto split: res.splits)
    have "length r2 \<le> length r" using read_shorter(4) [OF r2(1)] shorter by simp
    with sni_names_text [OF less.prems(1) r2(2)] show ?thesis by (rule text_in_mono)
  next
    case False
    with less.prems(2) t obtain r2 where r2: "skip L n r1 = Ok r2" "sni_extensions L r2 = Some (Ok s)"
      by (subst (asm) sni_extensions.simps) (auto split: res.splits)
    then have len: "length r2 < length r" using shorter skip_shorter [OF less.prems(1) r2(1)] by simp
    from less.hyps [OF this less.prems(1) r2(2)] len show ?thesis by (auto intro: text_in_mono)
  qed
qed

lemma hello_prefix_shorter:
  assumes "sniff_law L" and "hello_prefix L buf = Ok r"
  shows "length r \<le> length buf"
  using assms(2) unfolding hello_prefix_def
  by (auto simp: bind_res_eq_Ok sniff_lawD(3) [OF assms(1)] split: if_splits dest!: read_shorter)

lemma tls_sni_text: "sniff_law L \<Longrightarrow> tls_sni L buf = Some (Ok s) \<Longrightarrow> text_in buf s"
  by (auto simp: tls_sni_def split: res.splits intro: text_in_mono [OF sni_extensions_text hello_prefix_shorter])

lemma http_host_text: "sniff_law L \<Longrightarrow> start \<le> length buf \<Longrightarrow> http_host_loop L buf start = Some (Ok s) \<Longrightarrow> text_in buf s"
proof (induction "length buf - start" arbitrary: start rule: less_induct)
  case less
  from less.prems(2,3) obtain n where m: "memchr L 10 (drop start buf) = Some n"
    by (subst (asm) http_host_loop.simps) (auto split: option.splits)
  then have n: "start + n < length buf" using sniff_lawD(2) [OF less.prems(1) m] less.prems(2) by auto
  show ?case
  proof (cases "http_host_loop L buf (start + n + 1) = Some (Ok s)")
    case True
    have "length buf - (start + n + 1) < length buf - start" "start + n + 1 \<le> length buf" using n by simp_all
    from less.hyps [OF this(1) less.prems(1) this(2) True] show ?thesis .
  next
    case False
    with less.prems(2,3) m obtain t where t: "from_utf8 (take (n - 5) (drop (start + 5) buf)) = Some t" "s = trim t"
      by (subst (asm) http_host_loop.simps) (auto split: if_splits option.splits)
    from from_utf8_text [OF t(1)] have "valid_utf8 (as_bytes t)" "length t \<le> length buf" by (auto simp: text_in_def)
    with t(2) trim_valid [of t] length_trim_le [of t] show ?thesis by (simp add: text_in_def)
  qed
qed

lemma destination_text:
  assumes "sniff_law L" and "length data \<le> 1024" and "destination_addr L (Inr data) = Some (Ok (host, port))"
  shows "valid_utf8 (as_bytes host) \<and> length host \<le> 1024 \<and> (port = 443 \<or> port = 80)"
proof -
  let ?buf = "data @ replicate (1024 - length data) 0"
  have "length ?buf = 1024" using assms(2) by simp
  moreover have "tls_sni L ?buf = Some (Ok host) \<and> port = 443 \<or> http_host L ?buf = Some (Ok host) \<and> port = 80"
    using assms(3) unfolding destination_addr_def by (auto simp: Let_def map_ok_eq_Ok split: if_splits)
  ultimately show ?thesis
    using tls_sni_text [OF assms(1), of ?buf host] http_host_text [OF assms(1), of 0 ?buf host]
    unfolding text_in_def http_host_def by auto
qed

section \<open>Well-formed messages\<close>

text \<open>A ClientHello in a TLS record, following RFC 5246 and RFC 6066.\<close>

record client_hello =
  ch_record_version :: u16
  ch_record_len :: u16
  ch_msg_len :: "byte \<times> byte \<times> byte"
  ch_version_random :: bytes
  ch_session :: bytes
  ch_suites :: bytes
  ch_compression :: bytes
  ch_ext_len :: u16
  ch_before :: "(u16 \<times> bytes) list"
  ch_sni_len :: u16
  ch_names_len :: u16
  ch_host :: string
  ch_after :: bytes

definition encode_ext :: "u16 \<times> bytes \<Rightarrow> bytes" where
  "encode_ext e = be16 (fst e) @ be16 (of_nat (length (snd e))) @ snd e"

definition encode_hello :: "client_hello \<Rightarrow> bytes" where
  "encode_hello c =
     [22] @ be16 (ch_record_version c) @ be16 (ch_record_len c) @ [1]
     @ [fst (ch_msg_len c), fst (snd (ch_msg_len c)), snd (snd (ch_msg_len c))]
     @ ch_version_random c @ [of_nat (length (ch_session c))] @ ch_session c
     @ be16 (of_nat (length (ch_suites c))) @ ch_suites c
     @ [of_nat (length (ch_compression c))] @ ch_compression c @ be16 (ch_ext_len c)
     @ concat (map encode_ext (ch_before c))
     @ be16 0 @ be16 (ch_sni_len c) @ be16 (ch_names_len c) @ [0] @ be16 (of_nat (length (ch_host c))) @ as_bytes (ch_host c)
     @ ch_after c"

definition hello_wf :: "client_hello \<Rightarrow> bool" where
  "hello_wf c = (length (ch_version_random c) = 34 \<and> length (ch_session c) < 256 \<and> length (ch_suites c) < 65536
     \<and> length (ch_compression c) < 256 \<and> ch_ext_len c \<noteq> 0
     \<and> list_all (\<lambda>(t, d). t \<noteq> 0 \<and> length d < 65536) (ch_before c)
     \<and> length (ch_host c) < 65536 \<and> valid_utf8 (as_bytes (ch_host c)))"

lemma read_u16_be16 [simp]: "sniff_law L \<Longrightarrow> read_u16 L (be16 w @ r) = Ok (unat w, r)"
  by (simp add: read_u16_def read_exact_def sniff_lawD(4))

lemma read_u24_3 [simp]: "read_u24 L (a # b # c # r) = Ok (be_u24 L [a, b, c], r)"
  by (simp add: read_u24_def read_exact_def numeral_3_eq_3)

lemma skip_append: "sniff_law L \<Longrightarrow> n = length a \<Longrightarrow> skip L n (a @ r) = Ok r"
  by (simp add: sniff_lawD(3))

lemma unat_length_byte: "length xs < 256 \<Longrightarrow> unat (of_nat (length xs) :: byte) = length xs"
  by (simp add: unat_of_nat)

lemma unat_length_u16: "length xs < 65536 \<Longrightarrow> unat (of_nat (length xs) :: u16) = length xs"
  by (simp add: unat_of_nat)

lemma sni_names_host:
  assumes "sniff_law L" and "length h < 65536" and "valid_utf8 (as_bytes h)"
  shows "sni_names L (0 # be16 (of_nat (length h)) @ as_bytes h @ r) = Some (Ok h)"
  using assms by (subst sni_names.simps) (simp add: NAME_TYPE_HOST_NAME_def unat_length_u16 read_exact_def)

lemma sni_extensions_before:
  assumes "sniff_law L"
  shows "list_all (\<lambda>(t, d). t \<noteq> 0 \<and> length d < 65536) es \<Longrightarrow>
    sni_extensions L (concat (map encode_ext es) @ r) = sni_extensions L r"
proof (induction es)
  case (Cons e es)
  obtain t d where e: "e = (t, d)" by (cases e)
  with Cons.prems have t: "unat t \<noteq> 0" "length d < 65536" by (auto simp: unat_eq_zero)
  have "ext_header L (encode_ext e @ concat (map encode_ext es) @ r) = Ok (unat t, length d, d @ concat (map encode_ext es) @ r)"
    using assms t by (simp add: e encode_ext_def ext_header_def unat_length_u16)
  then have "sni_extensions L (encode_ext e @ concat (map encode_ext es) @ r) = sni_extensions L (concat (map encode_ext es) @ r)"
    using t assms by (subst sni_extensions.simps) (simp add: EXTENSION_TYPE_SNI_def skip_append)
  with Cons show ?case by simp
qed simp

lemma hello_prefix_encode:
  assumes "sniff_law L" and "hello_wf c"
  shows "hello_prefix L (encode_hello c) = Ok (concat (map encode_ext (ch_before c))
     @ be16 0 @ be16 (ch_sni_len c) @ be16 (ch_names_len c) @ [0] @ be16 (of_nat (length (ch_host c))) @ as_bytes (ch_host c)
     @ ch_after c)"
proof -
  have "skip L (Suc (Suc (Suc 0))) (22 # be16 (ch_record_version c) @ r) = Ok r" for r
    using skip_append [OF assms(1), of "Suc (Suc (Suc 0))" "22 # be16 (ch_record_version c)" r] by simp
  moreover have "unat (ch_ext_len c) \<noteq> 0" using assms(2) by (simp add: hello_wf_def unat_eq_zero)
  ultimately show ?thesis
    using assms unfolding hello_wf_def
    by (simp add: hello_prefix_def encode_hello_def HANDSHAKE_TYPE_CLIENT_HELLO_def skip_append unat_length_byte unat_length_u16)
qed

lemma tls_sni_encode:
  assumes "sniff_law L" and "hello_wf c"
  shows "tls_sni L (encode_hello c) = Some (Ok (ch_host c))"
proof -
  let ?names = "[0] @ be16 (of_nat (length (ch_host c))) @ as_bytes (ch_host c) @ ch_after c"
  have "sni_extensions L (be16 0 @ be16 (ch_sni_len c) @ be16 (ch_names_len c) @ ?names) = sni_names L ?names"
    using assms(1) by (subst sni_extensions.simps) (simp add: ext_header_def EXTENSION_TYPE_SNI_def)
  also have "\<dots> = Some (Ok (ch_host c))" using assms by (simp add: sni_names_host hello_wf_def)
  finally show ?thesis
    using hello_prefix_encode [OF assms] sni_extensions_before [OF assms(1), of "ch_before c"] assms(2)
    by (simp add: tls_sni_def hello_wf_def)
qed

text \<open>The bytes of a request up to its Host header: earlier lines are neither empty nor Host headers.\<close>

definition header_line :: "bytes \<Rightarrow> bool" where
  "header_line l = (10 \<notin> set l \<and> l \<noteq> [] \<and> take 5 l \<noteq> host_field)"

lemma length_host_field [simp]: "length host_field = 5"
  by (simp add: host_field_def)

lemma host_field_no_LF: "10 \<notin> set host_field"
  by (simp add: host_field_def as_bytes_def byte_of_char_def)

lemma http_host_loop_found:
  assumes "sniff_law L" and "10 \<notin> set v" and "from_utf8 v = Some s"
  shows "start \<le> length buf \<Longrightarrow> list_all header_line ls \<Longrightarrow>
    drop start buf = concat (map (\<lambda>l. l @ [10]) ls) @ host_field @ v @ 10 # rest \<Longrightarrow>
    http_host_loop L buf start = Some (Ok (trim s))"
proof (induction ls arbitrary: start)
  case Nil
  then have d: "drop start buf = (host_field @ v) @ 10 # rest" by simp
  have m: "memchr L 10 (drop start buf) = Some (5 + length v)"
    unfolding d using memchr_append [OF assms(1), of 10 "host_field @ v" rest] assms(2) host_field_no_LF by simp
  have len: "length buf = start + (5 + length v + 1 + length rest)"
    using arg_cong [OF d, of length] Nil.prems(1) by simp
  have "drop (start + 5) buf = drop 5 (drop start buf)" by (simp add: add.commute)
  then have "drop (start + 5) buf = v @ 10 # rest" unfolding d by simp
  moreover have "take 5 (drop start buf) = host_field" unfolding d by simp
  ultimately show ?case
    using m len assms(3) by (subst http_host_loop.simps) simp
next
  case (Cons l ls)
  let ?tail = "concat (map (\<lambda>l. l @ [10]) ls) @ host_field @ v @ 10 # rest"
  have l: "10 \<notin> set l" "l \<noteq> []" "take 5 l \<noteq> host_field" using Cons.prems(2) by (simp_all add: header_line_def)
  have d: "drop start buf = l @ 10 # ?tail" using Cons.prems(3) by simp
  have m: "memchr L 10 (drop start buf) = Some (length l)" unfolding d by (rule memchr_append [OF assms(1) l(1)])
  have len: "start + length l + 6 \<le> length buf"
  proof -
    have "length buf - start = length l + 1 + length ?tail" using arg_cong [OF d, of length] by simp
    then show ?thesis using Cons.prems(1) by simp
  qed
  have "drop (start + length l + 1) buf = drop (length l + 1) (drop start buf)" by (simp add: ac_simps)
  then have "drop (start + length l + 1) buf = ?tail" unfolding d by simp
  then have rec: "http_host_loop L buf (start + length l + 1) = Some (Ok (trim s))"
    using Cons.prems(2) len by (intro Cons.IH) auto
  have "take 5 (drop start buf) \<noteq> host_field" if "\<not> length l < 5" using that l(3) d by simp
  then show ?case using m rec len l(2) by (subst http_host_loop.simps) auto
qed

section \<open>Properties\<close>

text \<open>The libraries as their documentation describes them, for the witnesses.\<close>

definition ref_sniff :: sniff_lib where
  "ref_sniff = \<lparr>memchr = (\<lambda>b s. if b \<in> set s then Some (length (takeWhile (\<lambda>x. x \<noteq> b) s)) else None),
     advance = (\<lambda>n r. if n \<le> length r then Some (drop n r) else None),
     be_u16 = (\<lambda>bs. unat (of_be (0 :: u16) bs)), be_u24 = (\<lambda>bs. unat (of_be (0 :: u32) bs))\<rparr>"

lemma takeWhile_first:
  "b \<in> set s \<Longrightarrow> length (takeWhile (\<lambda>x. x \<noteq> b) s) < length s \<and> s ! length (takeWhile (\<lambda>x. x \<noteq> b) s) = b
     \<and> b \<notin> set (take (length (takeWhile (\<lambda>x. x \<noteq> b) s)) s)"
  by (induction s) auto

lemma ref_sniff_law: "sniff_law ref_sniff"
  by (simp add: sniff_law_def ref_sniff_def takeWhile_first)

lemma hello_destination:
  assumes "sniff_law L" and "hello_wf c" and "length (encode_hello c) \<le> 1024"
  shows "destination_addr L (Inr (encode_hello c)) = Some (Ok (ch_host c, 443))"
proof -
  let ?z = "replicate (1024 - length (encode_hello c)) 0"
  let ?c = "c\<lparr>ch_after := ch_after c @ ?z\<rparr>"
  have "encode_hello c @ ?z = encode_hello ?c" by (simp add: encode_hello_def)
  moreover have "hello_wf ?c" using assms(2) by (simp add: hello_wf_def)
  moreover have "hd (encode_hello ?c) = 22" by (simp add: encode_hello_def)
  ultimately show ?thesis
    using tls_sni_encode [OF assms(1), of ?c] unfolding destination_addr_def by (simp add: Let_def)
qed

text \<open>
  C8: from the first bytes of a TLS connection the proxy extracts the server name: for every
  ClientHello with any session, cipher suites, compression methods and extensions around the
  server name extension, that fits the 1024 bytes peeked, the destination is that name on port 443.
\<close>

theorem sni_extracted:
  assumes "sniff_law L" and "hello_wf c" and "length (encode_hello c) \<le> 1024"
  shows "destination_addr L (Inr (encode_hello c)) = Some (Ok (ch_host c, 443))"
  using assms by (rule hello_destination)

definition demo_hello :: client_hello where
  "demo_hello = \<lparr>ch_record_version = 0x0301, ch_record_len = 80, ch_msg_len = (0, 0, 76), ch_version_random = replicate 34 7,
     ch_session = [], ch_suites = [0x13, 1], ch_compression = [0], ch_ext_len = 28, ch_before = [(10, [0, 2, 0, 29])],
     ch_sni_len = 14, ch_names_len = 12, ch_host = ''a.example'', ch_after = []\<rparr>"

lemma demo_hello_wf: "hello_wf demo_hello"
  by (simp add: hello_wf_def demo_hello_def valid_utf8_ascii is_ascii_def)

lemma demo_hello_sniffed: "destination_addr ref_sniff (Inr (encode_hello demo_hello)) = Some (Ok (''a.example'', 443))"
proof -
  have "length (encode_hello demo_hello) \<le> 1024" by (simp add: encode_hello_def demo_hello_def encode_ext_def)
  from hello_destination [OF ref_sniff_law demo_hello_wf this] show ?thesis by (simp add: demo_hello_def)
qed

theorem sni_extracted_witness:
  "destination_addr ref_sniff (Inr (encode_hello demo_hello)) = Some (Ok (''a.example'', 443))"
proof -
  have "length (encode_hello demo_hello) \<le> 1024" by (simp add: encode_hello_def demo_hello_def encode_ext_def)
  from sni_extracted [OF ref_sniff_law demo_hello_wf this] show ?thesis by (simp add: demo_hello_def)
qed

lemma request_destination:
  assumes "sniff_law L" and "list_all header_line ls" and "10 \<notin> set v" and "from_utf8 v = Some s"
    and "data = concat (map (\<lambda>l. l @ [10]) ls) @ host_field @ v @ 10 # rest"
    and "length data \<le> 1024" and "hd data \<in> byte_of_char ` set ''GPDHCOT''"
  shows "destination_addr L (Inr data) = Some (Ok (trim s, 80))"
proof -
  let ?z = "replicate (1024 - length data) 0"
  have ne: "data \<noteq> []" using assms(5) by simp
  have "http_host L (data @ ?z) = Some (Ok (trim s))"
    unfolding http_host_def
    by (rule http_host_loop_found [OF assms(1,3,4) _ assms(2), of _ _ "rest @ ?z"]) (simp_all add: assms(5))
  moreover have "hd data \<noteq> 22" using assms(7) by (auto simp: byte_of_char_def)
  ultimately show ?thesis using assms(7) ne by (simp add: destination_addr_def Let_def)
qed

text \<open>
  C25: from an HTTP request the proxy extracts the value of the first line that starts with \<^verbatim>\<open>Host:\<close>, with
  white space around it removed, provided no earlier line is empty; a line holding only a carriage
  return does not end the headers, so that a \<^verbatim>\<open>Host:\<close> in the body is found as well.
\<close>

theorem http_host_extracted:
  assumes "sniff_law L" and "list_all header_line ls" and "10 \<notin> set v" and "from_utf8 v = Some s"
    and "data = concat (map (\<lambda>l. l @ [10]) ls) @ host_field @ v @ 10 # rest"
    and "length data \<le> 1024" and "hd data \<in> byte_of_char ` set ''GPDHCOT''"
  shows "destination_addr L (Inr data) = Some (Ok (trim s, 80))"
  using assms by (rule request_destination)

theorem http_host_extracted_witness:
  "destination_addr ref_sniff (Inr (as_bytes ''GET / HTTP/1.1'' @ [13, 10] @ as_bytes ''Host: a.example'' @ [13, 10, 13, 10]))
     = Some (Ok (trim ('' a.example'' @ [CHR 0x0D]), 80))"
proof -
  let ?v = "as_bytes ('' a.example'' @ [CHR 0x0D])" and ?l = "as_bytes ''GET / HTTP/1.1'' @ [13]"
  let ?data = "as_bytes ''GET / HTTP/1.1'' @ [13, 10] @ as_bytes ''Host: a.example'' @ [13, 10, 13, 10]"
  have l: "list_all header_line [?l]" by (simp add: header_line_def as_bytes_def byte_of_char_def host_field_def)
  have v: "10 \<notin> set ?v" by (simp add: as_bytes_def byte_of_char_def)
  have u: "from_utf8 ?v = Some ('' a.example'' @ [CHR 0x0D])"
    by (intro from_utf8_as_bytes valid_utf8_ascii) (simp add: is_ascii_def)
  have d: "?data = concat (map (\<lambda>l. l @ [10]) [?l]) @ host_field @ ?v @ 10 # [13, 10]"
    by (simp add: as_bytes_def byte_of_char_def host_field_def)
  have n: "length ?data \<le> 1024" by simp
  have h: "hd ?data \<in> byte_of_char ` set ''GPDHCOT''" by (simp add: as_bytes_def)
  show ?thesis by (rule http_host_extracted [OF ref_sniff_law l v u d n h])
qed

text \<open>
  C36: sniffing returns for every input.  It panics at most on data that starts like a TLS record; and
  it does on a ClientHello whose cipher suites are announced longer than the buffer.
\<close>

theorem sniffing_returns:
  assumes "sniff_law L"
  shows "(\<exists>r. destination_addr L peeked = Some r \<and> (r = Panic \<longrightarrow> (\<exists>data. peeked = Inr (22 # data))))
    \<and> destination_addr L (Inr ([22, 3, 1, 0, 0, 1] @ replicate 38 0 @ be16 65535)) = Some Panic"
proof
  show "\<exists>r. destination_addr L peeked = Some r \<and> (r = Panic \<longrightarrow> (\<exists>data. peeked = Inr (22 # data)))"
  proof (cases peeked)
    case (Inr data)
    let ?buf = "data @ replicate (1024 - length data) 0"
    have "\<exists>r. tls_sni L ?buf = Some r" using sni_extensions_ends [OF assms] by (auto simp: tls_sni_def split: res.split)
    moreover have "\<exists>r. http_host L ?buf = Some r \<and> r \<noteq> Panic"
      unfolding http_host_def by (intro http_host_loop_ends assms) simp
    moreover have "hd ?buf = 22 \<Longrightarrow> \<exists>d. data = 22 # d" by (cases data) auto
    ultimately show ?thesis unfolding destination_addr_def Inr by (auto simp: Let_def)
  qed (simp add: destination_addr_def)
  let ?data = "[22, 3, 1, 0, 0, 1] @ replicate 38 0 @ be16 65535 :: bytes"
  have "skip L (Suc (Suc (Suc 0))) (a # b # c # r) = Ok r" for a b c r by (simp add: sniff_lawD(3) [OF assms])
  moreover have "read_u16 L (0 # 0 # r) = Ok (0, r)" for r
    using read_u16_be16 [OF assms, of 0 r] by (simp add: be16_def)
  moreover have "replicate 38 0 @ r = [0, 0, 0] @ replicate 34 0 @ [0] @ r" for r :: bytes
    by (simp add: numeral_eq_Suc)
  ultimately have "hello_prefix L (?data @ replicate (1024 - length ?data) 0) = Panic"
    using assms by (simp add: hello_prefix_def HANDSHAKE_TYPE_CLIENT_HELLO_def skip_append sniff_lawD(3) del: replicate_Suc)
  then show "destination_addr L (Inr ?data) = Some Panic"
    unfolding destination_addr_def tls_sni_def by (simp add: Let_def del: replicate_Suc)
qed

theorem sniffing_returns_witness:
  "sniff_law ref_sniff \<and> destination_addr ref_sniff (Inr ([22, 3, 1, 0, 0, 1] @ replicate 38 0 @ be16 65535)) = Some Panic"
  using sniffing_returns [OF ref_sniff_law] ref_sniff_law by simp

end
