(* ===== verification/JumpHash.thy ===== *)
theory JumpHash
  imports F64
begin

unbundle bit_operations_syntax

text \<open>
  The hashing of \<^verbatim>\<open>src/upstream/hash.rs\<close>: the string hash \<^verbatim>\<open>fnv\<close> and the jump consistent hash
  \<^verbatim>\<open>jumphash\<close> that maps a key to one of the upstream servers.  The jump computed in double precision is
  shown to move strictly forward, so the loop ends, and the choice of a bucket to be stable when a
  bucket is added.
\<close>

definition fnv :: "bytes \<Rightarrow> u64" where
  "fnv data = fold (\<lambda>b hash. (hash XOR ucast b) * 0x100000001b3) data 0"

text \<open>One round: the next key, and the next candidate bucket after bucket \<open>b\<close>.\<close>

definition next_key :: "u64 \<Rightarrow> u64" where
  "next_key key = key * 2862933555777941757 + 1"

text \<open>The bucket \<open>b\<close> is below the number of buckets, an \<^verbatim>\<open>i64\<close>, so that \<open>b + 1\<close> does not wrap.\<close>

definition jump :: "u64 \<Rightarrow> int \<Rightarrow> int" where
  "jump key b =
     f64_to_i64 (f64_mul (f64_of_nat (nat (b + 1)))
       (f64_div (f64_of_nat (2 ^ 31)) (f64_of_nat (unat (drop_bit 33 key + 1)))))"

partial_function (option) jump_loop :: "u64 \<Rightarrow> int \<Rightarrow> int \<Rightarrow> int \<Rightarrow> int option" where
  "jump_loop key buckets b j =
     (if j < buckets then jump_loop (next_key key) buckets j (jump (next_key key) j) else Some b)"

text \<open>The cast \<^verbatim>\<open>b as i32\<close> keeps the low 32 bits.\<close>

definition jumphash :: "u64 \<Rightarrow> int \<Rightarrow> int option" where
  "jumphash key buckets =
     map_option (\<lambda>b. sint (word_of_int b :: 32 word)) (jump_loop key buckets (-1) 0)"

section \<open>The jump moves forward\<close>

lemma key_fraction: "unat (drop_bit 33 (key :: u64) + 1) \<le> 2 ^ 31" "0 < unat (drop_bit 33 (key :: u64) + 1)"
proof -
  have "unat (drop_bit 33 key) = unat key div 2 ^ 33" by (simp add: drop_bit_eq_div unat_div)
  moreover have "unat key < 2 ^ 64" using unsigned_less [of key] by simp
  ultimately have "unat (drop_bit 33 key) < 2 ^ 31" by simp
  moreover from this have "unat (drop_bit 33 key + 1) = unat (drop_bit 33 key) + 1"
    by (simp add: unat_word_ariths)
  ultimately show "unat (drop_bit 33 (key :: u64) + 1) \<le> 2 ^ 31" "0 < unat (drop_bit 33 (key :: u64) + 1)"
    by linarith+
qed

lemma jump_forward:
  assumes "0 \<le> b" and "b < 2 ^ 31"
  shows "b < jump key b"
proof -
  define n where "n = unat (drop_bit 33 key + 1)"
  define r where "r = f64_div (f64_of_nat (2 ^ 31)) (f64_of_nat n)"
  have n: "n \<le> 2 ^ 31" "0 < n" using key_fraction [of key] by (auto simp: n_def)
  have nf: "f64_of_nat n = of_nat n" using n(1) by (intro f64_of_nat_exact) simp
  have two: "f64_of_nat (2 ^ 31) = of_nat (2 ^ 31)" by (intro f64_of_nat_exact) simp
  have "(of_nat n :: rat) \<le> of_nat (2 ^ 31)" using n(1) by (simp only: of_nat_le_iff)
  then have "of_nat 1 \<le> (of_nat (2 ^ 31) / of_nat n :: rat)" using n(2) by (simp add: field_simps)
  then have r: "1 \<le> r"
    using f64_round_ge_nat [of 1 "of_nat (2 ^ 31) / of_nat n"] unfolding r_def f64_div_def nf two by simp
  define m where "m = nat (b + 1)"
  have m: "m \<le> 2 ^ 53" "int m = b + 1" using assms by (auto simp: m_def)
  have "of_nat m \<le> of_nat m * r" using r by (simp add: mult_le_cancel_left1)
  then have "of_nat m \<le> f64_mul (f64_of_nat m) r"
    unfolding f64_mul_def f64_of_nat_exact [OF m(1)] by (rule f64_round_ge_nat [OF m(1)])
  then have "int m \<le> \<lfloor>f64_mul (f64_of_nat m) r\<rfloor>" by (simp add: le_floor_iff)
  moreover have "int m \<le> 2 ^ 63 - 1" using m(2) assms(2) by simp
  ultimately show ?thesis unfolding jump_def f64_to_i64_def n_def [symmetric] r_def [symmetric] m_def [symmetric]
    using m(2) by linarith
qed

lemma jump_loop_ends:
  assumes "-1 \<le> b" and "b < j" and "0 \<le> j" and "b < n" and "n \<le> 2 ^ 31" and "0 < n"
  shows "\<exists>r. jump_loop key n b j = Some r \<and> b \<le> r \<and> (0 \<le> b \<or> j < n \<longrightarrow> 0 \<le> r) \<and> r < n"
  using assms
proof (induction "nat (n - j)" arbitrary: key b j rule: less_induct)
  case less
  show ?case
  proof (cases "j < n")
    case True
    have fwd: "j < jump (next_key key) j" using less.prems True by (intro jump_forward) auto
    have "\<exists>r. jump_loop (next_key key) n j (jump (next_key key) j) = Some r \<and> j \<le> r \<and>
        (0 \<le> j \<or> jump (next_key key) j < n \<longrightarrow> 0 \<le> r) \<and> r < n"
      using less.prems True fwd by (intro less.hyps) auto
    then show ?thesis using True less.prems by (subst jump_loop.simps) auto
  next
    case False
    then show ?thesis using less.prems by (subst jump_loop.simps) auto
  qed
qed

text \<open>With one more bucket, the walk visits the same buckets and may end in the new one.\<close>

lemma jump_loop_monotone:
  assumes "-1 \<le> b" and "b < j" and "0 \<le> j" and "b < n" and "n < 2 ^ 31" and "0 < n"
    and "jump_loop key n b j = Some r"
  shows "jump_loop key (n + 1) b j = Some r \<or> jump_loop key (n + 1) b j = Some n"
  using assms
proof (induction "nat (n - j)" arbitrary: key b j rule: less_induct)
  case less
  show ?case
  proof (cases "j < n")
    case True
    have fwd: "j < jump (next_key key) j" using less.prems True by (intro jump_forward) auto
    have "jump_loop (next_key key) n j (jump (next_key key) j) = Some r"
      using less.prems(7) True by (subst (asm) jump_loop.simps) simp
    then have "jump_loop (next_key key) (n + 1) j (jump (next_key key) j) = Some r \<or>
        jump_loop (next_key key) (n + 1) j (jump (next_key key) j) = Some n"
      using less.prems True fwd by (intro less.hyps) auto
    moreover have "jump_loop key (n + 1) b j = jump_loop (next_key key) (n + 1) j (jump (next_key key) j)"
      using True by (subst jump_loop.simps) simp
    ultimately show ?thesis by simp
  next
    case False
    then have r: "r = b" using less.prems(7) by (subst (asm) jump_loop.simps) simp
    show ?thesis
    proof (cases "j = n")
      case True
      have fwd: "n < jump (next_key key) n" using less.prems by (intro jump_forward) auto
      have "jump_loop key (n + 1) b j = jump_loop (next_key key) (n + 1) n (jump (next_key key) n)"
        using True by (subst jump_loop.simps) simp
      also have "\<dots> = Some n" using fwd by (subst jump_loop.simps) simp
      finally show ?thesis by simp
    next
      case False
      with \<open>\<not> j < n\<close> show ?thesis using r by (subst jump_loop.simps) simp
    qed
  qed
qed

lemma as_i32_small: "0 \<le> b \<Longrightarrow> b < 2 ^ 31 \<Longrightarrow> sint (word_of_int b :: 32 word) = b"
  by (simp add: sint_sbintrunc' signed_take_bit_int_eq_self)

lemma jumphash_range:
  assumes "0 < n" and "n \<le> 2 ^ 31"
  shows "\<exists>r. jumphash key n = Some r \<and> 0 \<le> r \<and> r < n"
proof -
  obtain r where "jump_loop key n (-1) 0 = Some r" "0 \<le> r" "r < n"
    using jump_loop_ends [of "-1" 0 n key] assms by auto
  then show ?thesis using as_i32_small [of r] assms(2) by (simp add: jumphash_def)
qed

section \<open>Properties\<close>

text \<open>
  C28: for up to 2^31 - 1 servers the loop of \<^verbatim>\<open>jumphash\<close> ends in a bucket of the table, and adding one
  server leaves every key in its bucket or moves it to the new one: the hash is consistent.
\<close>

theorem jumphash_consistent:
  assumes "0 < n" and "n < 2 ^ 31"
  shows "\<exists>b. jumphash key n = Some b \<and> 0 \<le> b \<and> b < n
    \<and> (jumphash key (n + 1) = Some b \<or> jumphash key (n + 1) = Some n)"
proof -
  obtain r where r: "jump_loop key n (-1) 0 = Some r" "0 \<le> r" "r < n"
    using jump_loop_ends [of "-1" 0 n key] assms by auto
  then have "jump_loop key (n + 1) (-1) 0 = Some r \<or> jump_loop key (n + 1) (-1) 0 = Some n"
    using jump_loop_monotone [of "-1" 0 n key r] assms by simp
  then show ?thesis using r assms as_i32_small [of r] as_i32_small [of n] by (auto simp: jumphash_def)
qed

theorem jumphash_consistent_witness:
  "\<exists>b. jumphash (fnv (as_bytes ''example.com'')) 3 = Some b \<and> 0 \<le> b \<and> b < 3
    \<and> (jumphash (fnv (as_bytes ''example.com'')) 4 = Some b \<or> jumphash (fnv (as_bytes ''example.com'')) 4 = Some 3)"
  using jumphash_consistent [of 3 "fnv (as_bytes ''example.com'')"] by simp

end
