(* ===== verification/DateTime.thy ===== *)
theory DateTime
  imports Rust_Strings "HOL-Library.Signed_Division"
begin

text \<open>
  \<^verbatim>\<open>src/datetime.rs\<close>: the conversion of a system time to a calendar date and its
  ISO 8601 text, which every log line starts with.  A \<^verbatim>\<open>SystemTime\<close> is its distance to
  the Unix epoch in nanoseconds, as an integer; \<^verbatim>\<open>i64\<close> and \<^verbatim>\<open>i32\<close> are
  integers with the narrowing casts written out, and the truncating division and remainder of Rust
  are \<^const>\<open>signed_divide\<close> and \<^const>\<open>signed_modulo\<close>.  The specification is the proleptic
  Gregorian calendar, stated by leap years and month lengths.
\<close>

section \<open>Model\<close>

record DateTime =
  year :: int
  month :: nat
  day :: nat
  hour :: nat
  minute :: nat
  second :: nat
  nanos :: nat

definition wrap_signed :: "nat \<Rightarrow> int \<Rightarrow> int" where
  "wrap_signed w k = (k + 2 ^ (w - 1)) mod 2 ^ w - 2 ^ (w - 1)"

abbreviation as_i64 :: "int \<Rightarrow> int" where "as_i64 \<equiv> wrap_signed 64"
abbreviation as_i32 :: "int \<Rightarrow> int" where "as_i32 \<equiv> wrap_signed 32"

definition as_u8 :: "int \<Rightarrow> nat" where
  "as_u8 k = nat (k mod 256)"

text \<open>Seconds since the epoch, rounded down, and the nanoseconds on top of them.\<close>

definition epoch_secs :: "int \<Rightarrow> int \<times> nat" where
  "epoch_secs timestamp =
     (if timestamp \<ge> 0 then (as_i64 (timestamp div 1000000000), nat (timestamp mod 1000000000))
      else let d = - timestamp; secs = as_i64 (d div 1000000000); ns = nat (d mod 1000000000) in
        if ns = 0 then (as_i64 (- secs), 0) else (as_i64 (- secs - 1), 1000000000 - ns))"

definition LEAPOCH :: int where "LEAPOCH = 946684800 + 86400 * (31 + 29)"
definition DAYS_PER_400Y :: int where "DAYS_PER_400Y = 365 * 400 + 97"
definition DAYS_PER_100Y :: int where "DAYS_PER_100Y = 365 * 100 + 24"
definition DAYS_PER_4Y :: int where "DAYS_PER_4Y = 365 * 4 + 1"
definition DAYS_IN_MONTH :: "int list" where
  "DAYS_IN_MONTH = [31, 30, 31, 30, 31, 31, 30, 31, 30, 31, 31, 29]"

lemmas calendar_consts = LEAPOCH_def DAYS_PER_400Y_def DAYS_PER_100Y_def DAYS_PER_4Y_def

text \<open>The loop over the months; indexing past the table panics.\<close>

fun month_loop :: "int list \<Rightarrow> int \<Rightarrow> int \<Rightarrow> (unit, int \<times> int) res" where
  "month_loop [] months remdays = Panic"
| "month_loop (d # ds) months remdays =
     (if d \<le> remdays then month_loop ds (months + 1) (remdays - d) else Ok (months, remdays))"

text \<open>Days since 1 March 2000 and the second of the day.\<close>

definition split_secs :: "int \<Rightarrow> int \<times> int" where
  "split_secs t =
     (let days = (t sdiv 86400) - (LEAPOCH sdiv 86400);
          remsecs = as_i32 (t smod 86400)
      in if remsecs < 0 then (days - 1, remsecs + 86400) else (days, remsecs))"

text \<open>Years that start on 1 March, counted from 2000, and the day of that year.\<close>

definition split_years :: "int \<Rightarrow> int \<times> int" where
  "split_years days =
     (let qc_cycles = as_i32 (days sdiv DAYS_PER_400Y);
          remdays = as_i32 (days smod DAYS_PER_400Y);
          (remdays, qc_cycles) =
            (if remdays < 0 then (remdays + DAYS_PER_400Y, qc_cycles - 1) else (remdays, qc_cycles));
          c_cycles = remdays sdiv DAYS_PER_100Y;
          c_cycles = (if c_cycles = 4 then c_cycles - 1 else c_cycles);
          remdays = remdays - c_cycles * DAYS_PER_100Y;
          q_cycles = remdays sdiv DAYS_PER_4Y;
          q_cycles = (if q_cycles = 25 then q_cycles - 1 else q_cycles);
          remdays = remdays - q_cycles * DAYS_PER_4Y;
          remyears = remdays sdiv 365;
          remyears = (if remyears = 4 then remyears - 1 else remyears);
          remdays = remdays - remyears * 365
      in (remyears + 4 * q_cycles + 100 * c_cycles + 400 * qc_cycles, remdays))"

definition from_system_time :: "int \<Rightarrow> (unit, DateTime) res" where
  "from_system_time timestamp =
     (let (t, ns) = epoch_secs timestamp;
          (days, remsecs) = split_secs t;
          (years, remdays) = split_years days
      in bind_res (month_loop DAYS_IN_MONTH 0 remdays) (\<lambda>(months, remdays).
        let (months, years) = (if months \<ge> 10 then (months - 12, years + 1) else (months, years))
        in Ok \<lparr>year = years + 2000,
               month = as_u8 (months + 3),
               day = as_u8 (remdays + 1),
               hour = as_u8 (remsecs sdiv 3600),
               minute = as_u8 ((remsecs sdiv 60) smod 60),
               second = as_u8 (remsecs smod 60),
               nanos = ns\<rparr>))"

text \<open>\<^verbatim>\<open>{:0w}\<close>: the sign counts towards the width and comes first.\<close>

definition fmt_int_width :: "nat \<Rightarrow> int \<Rightarrow> string" where
  "fmt_int_width w k =
     (if k < 0 then CHR ''-'' # zero_pad (w - 1) (show_nat (nat (- k)))
      else zero_pad w (show_nat (nat k)))"

definition DateTime_fmt :: "DateTime \<Rightarrow> string" where
  "DateTime_fmt dt =
     (if year dt > 9999 then ''+'' @ fmt_int_width 0 (year dt)
      else if year dt < 0 then fmt_int_width 5 (year dt)
      else fmt_int_width 4 (year dt))
     @ ''-'' @ zero_pad 2 (show_nat (month dt)) @ ''-'' @ zero_pad 2 (show_nat (day dt))
     @ ''T'' @ zero_pad 2 (show_nat (hour dt)) @ '':'' @ zero_pad 2 (show_nat (minute dt))
     @ '':'' @ zero_pad 2 (show_nat (second dt)) @ ''.'' @ zero_pad 6 (show_nat (nanos dt div 1000))
     @ ''Z''"

section \<open>The Gregorian calendar\<close>

definition is_leap :: "int \<Rightarrow> bool" where
  "is_leap y \<longleftrightarrow> 4 dvd y \<and> (\<not> 100 dvd y \<or> 400 dvd y)"

definition month_len :: "int \<Rightarrow> nat \<Rightarrow> nat" where
  "month_len y m =
     (if m = 2 then (if is_leap y then 29 else 28)
      else if m \<in> {4, 6, 9, 11} then 30 else 31)"

text \<open>Days before 1 January of year \<open>y\<close>, counted from 1 January of year 1.\<close>

definition days_before_year :: "int \<Rightarrow> int" where
  "days_before_year y = 365 * (y - 1) + (y - 1) div 4 - (y - 1) div 100 + (y - 1) div 400"

definition days_before_month :: "int \<Rightarrow> nat \<Rightarrow> nat" where
  "days_before_month y m = (\<Sum>i \<leftarrow> [1..<m]. month_len y i)"

text \<open>The number of a day, counted from 1 January 1970 (719162 days after 1 January of year 1).\<close>

definition civil_days :: "int \<Rightarrow> nat \<Rightarrow> nat \<Rightarrow> int" where
  "civil_days y m d = days_before_year y + int (days_before_month y m) + int d - 1 - 719162"

definition valid_datetime :: "DateTime \<Rightarrow> bool" where
  "valid_datetime dt \<longleftrightarrow> 1 \<le> month dt \<and> month dt \<le> 12
     \<and> 1 \<le> day dt \<and> day dt \<le> month_len (year dt) (month dt)
     \<and> hour dt < 24 \<and> minute dt < 60 \<and> second dt < 60 \<and> nanos dt < 1000000000"

definition datetime_nanos :: "DateTime \<Rightarrow> int" where
  "datetime_nanos dt =
     (civil_days (year dt) (month dt) (day dt) * 86400
       + int (hour dt) * 3600 + int (minute dt) * 60 + int (second dt)) * 1000000000
     + int (nanos dt)"

lemma dvd_div_step: "0 < k \<Longrightarrow> y div k = (y - 1) div k + (if k dvd y then 1 else 0)" for y k :: int
proof -
  assume k: "0 < k"
  show ?thesis
  proof (cases "k dvd y")
    case True
    then obtain q where q: "y = k * q" ..
    have "(k * q - 1) div k = (k * (q - 1) + (k - 1)) div k" by (simp add: algebra_simps)
    also have "\<dots> = q - 1" using k by (subst div_mult_self4) auto
    finally show ?thesis using k q by simp
  next
    case False
    then have "1 \<le> y mod k" using k by (simp add: dvd_eq_mod_eq_0 pos_mod_sign order_less_le int_one_le_iff_zero_less)
    then have "(y - 1) div k = (k * (y div k) + (y mod k - 1)) div k" by (simp add: algebra_simps)
    also have "\<dots> = y div k + (y mod k - 1) div k" using k by simp
    also have "(y mod k - 1) div k = 0"
      using \<open>1 \<le> y mod k\<close> pos_mod_bound [OF k, of y] by (intro div_pos_pos_trivial) linarith+
    finally show ?thesis using False by simp
  qed
qed


lemma days_before_year_Suc: "days_before_year (y + 1) = days_before_year y + (if is_leap y then 366 else 365)"
proof -
  have 1: "400 dvd y \<longrightarrow> 100 dvd y" using dvd_mult_left [of 100 4 y] by simp
  have 2: "100 dvd y \<longrightarrow> 4 dvd y" using dvd_mult_left [of 4 25 y] by simp
  have "days_before_year (y + 1) = 365 * y + y div 4 - y div 100 + y div 400"
    by (simp add: days_before_year_def)
  also have "\<dots> = days_before_year y + 365
      + ((if 4 dvd y then 1 else 0) - (if 100 dvd y then 1 else 0) + (if 400 dvd y then 1 else 0))"
  proof -
    have "365 * y + (a + i) - (b + j) + (c + k) = 365 * (y - 1) + a - b + c + 365 + (i - j + k)"
      for a b c i j k :: int by simp
    then show ?thesis
      unfolding days_before_year_def dvd_div_step [of 4 y, OF zero_less_numeral]
        dvd_div_step [of 100 y, OF zero_less_numeral] dvd_div_step [of 400 y, OF zero_less_numeral] .
  qed
  also have "((if 4 dvd y then 1 else 0) - (if 100 dvd y then 1 else 0) + (if 400 dvd y then 1 else 0) :: int)
      = (if is_leap y then 1 else 0)"
  proof -
    have "((if a then 1 else 0) - (if b then 1 else 0) + (if c then 1 else 0) :: int)
        = (if a \<and> (\<not> b \<or> c) then 1 else 0)" if "c \<longrightarrow> b" "b \<longrightarrow> a" for a b c
      using that by (cases a; cases b; cases c) simp_all
    from this [OF 1 2] show ?thesis unfolding is_leap_def .
  qed
  finally show ?thesis by simp
qed

lemma days_before_march:
  "3 \<le> m \<Longrightarrow> days_before_month y m = (if is_leap y then 60 else 59) + (\<Sum>i \<leftarrow> [3..<m]. month_len y i)"
proof -
  assume "3 \<le> m"
  then have "[1..<m] = [1, 2] @ [3..<m]" by (simp add: upt_conv_Cons numeral_3_eq_3)
  then show ?thesis by (simp add: days_before_month_def month_len_def)
qed

text \<open>Days from 1 March 2000 to 1 March of the year \<open>2000 + n\<close>.\<close>

definition march_days :: "int \<Rightarrow> int" where
  "march_days n = 365 * n + n div 4 - n div 100 + n div 400"

lemma days_before_year_march: "days_before_year (2000 + n + 1) = march_days n + 730485"
proof -
  have "(2000 + n) div 4 = 500 + n div 4" "(2000 + n) div 100 = 20 + n div 100"
    "(2000 + n) div 400 = 5 + n div 400" by linarith+
  then show ?thesis by (simp add: days_before_year_def march_days_def)
qed

lemma march_days_cycles:
  assumes "0 \<le> y" "y < 4" "0 \<le> q" "q < 25" "0 \<le> c" "c < 4"
  shows "march_days (y + 4 * q + 100 * c + 400 * qc) = 365 * y + 1461 * q + 36524 * c + 146097 * qc"
proof -
  let ?n = "y + 4 * q + 100 * c + 400 * qc"
  have "?n div 4 = q + 25 * c + 100 * qc" using assms by linarith
  moreover have "?n div 100 = c + 4 * qc" using assms by linarith
  moreover have "?n div 400 = qc" using assms by linarith
  ultimately show ?thesis by (simp add: march_days_def)
qed

definition cum :: "nat \<Rightarrow> int" where
  "cum m = sum_list (take m DAYS_IN_MONTH)"

lemma month_loop_ok:
  assumes "0 \<le> r" and "r \<le> 365"
  shows "\<exists>m \<le> 11. month_loop DAYS_IN_MONTH 0 r = Ok (int m, r - cum m)
    \<and> 0 \<le> r - cum m \<and> r - cum m < DAYS_IN_MONTH ! m"
proof -
  have gen: "\<exists>m < length ds. month_loop ds k r = Ok (k + int m, r - sum_list (take m ds))
      \<and> 0 \<le> r - sum_list (take m ds) \<and> r - sum_list (take m ds) < ds ! m"
    if "0 \<le> r" "r < sum_list ds" for ds k r
    using that
  proof (induction ds arbitrary: k r)
    case (Cons d ds)
    show ?case
    proof (cases "d \<le> r")
      case True
      with Cons.prems have "0 \<le> r - d" "r - d < sum_list ds" by simp_all
      from Cons.IH [OF this, of "k + 1"] obtain m where "m < length ds"
        "month_loop ds (k + 1) (r - d) = Ok (k + 1 + int m, r - d - sum_list (take m ds))"
        "0 \<le> r - d - sum_list (take m ds)" "r - d - sum_list (take m ds) < ds ! m" by blast
      with True show ?thesis by (intro exI [of _ "Suc m"]) (simp add: algebra_simps)
    next
      case False
      with Cons.prems show ?thesis by (intro exI [of _ 0]) simp
    qed
  qed simp
  have "r < sum_list DAYS_IN_MONTH" "length DAYS_IN_MONTH = 12" using assms by (simp_all add: DAYS_IN_MONTH_def)
  with gen [of r DAYS_IN_MONTH 0] assms(1) show ?thesis
    by (auto simp: cum_def less_Suc_eq_le)
qed

section \<open>The conversion\<close>

lemma wrap_signed_id:
  assumes "0 < w" and "- (2 ^ (w - 1)) \<le> k" and "k < 2 ^ (w - 1)"
  shows "wrap_signed w k = k"
proof -
  have "(2 :: int) ^ w = 2 * 2 ^ (w - 1)" using assms(1) by (cases w) auto
  with assms show ?thesis by (simp add: wrap_signed_def)
qed

lemma sdiv_nonneg: "0 \<le> a \<Longrightarrow> 0 < b \<Longrightarrow> a sdiv b = a div b" for a b :: int
  by (cases "a = 0") (simp_all add: signed_divide_int_def)

lemma smod_nonneg: "0 \<le> a \<Longrightarrow> 0 < b \<Longrightarrow> a smod b = a mod b" for a b :: int
  by (cases "a = 0") (simp_all add: signed_modulo_int_def)

lemma floor_fix:
  fixes a b :: int
  assumes "0 < b"
  shows "(if a smod b < 0 then (a sdiv b - 1, a smod b + b) else (a sdiv b, a smod b)) = (a div b, a mod b)"
proof -
  have r: "- b < a smod b" "a smod b < b"
    using smod_int_range [of b a] assms by auto
  have eq: "a = b * (a sdiv b) + a smod b"
    using sdiv_mult_smod_eq [of a b] by (simp add: mult.commute)
  show ?thesis
  proof (cases "a smod b < 0")
    case True
    have "a = b * (a sdiv b - 1) + (a smod b + b)" using eq by (simp add: algebra_simps)
    from int_div_pos_eq [OF this] int_mod_pos_eq [OF this] True r show ?thesis by simp
  next
    case False
    with int_div_pos_eq [OF eq] int_mod_pos_eq [OF eq] r show ?thesis by simp
  qed
qed

lemma split_secs_floor: "split_secs t = (t div 86400 - 11017, t mod 86400)"
proof -
  have "as_i32 (t smod 86400) = t smod 86400"
    using smod_int_range [of 86400 t] by (intro wrap_signed_id) auto
  with floor_fix [of 86400 t] show ?thesis
    by (auto simp: split_secs_def Let_def LEAPOCH_def split: if_splits)
qed

text \<open>The bound on the days is what keeps the cast of the 400-year cycles to 32 bits exact.\<close>

lemma split_years_floor:
  assumes "\<bar>days\<bar> \<le> 2 ^ 47"
  shows "split_years days =
     (let remdays = days mod 146097;
          c_cycles = (if remdays sdiv 36524 = 4 then 3 else remdays sdiv 36524);
          remdays = remdays - c_cycles * 36524;
          q_cycles = (if remdays sdiv 1461 = 25 then 24 else remdays sdiv 1461);
          remdays = remdays - q_cycles * 1461;
          remyears = (if remdays sdiv 365 = 4 then 3 else remdays sdiv 365);
          remdays = remdays - remyears * 365
      in (remyears + 4 * q_cycles + 100 * c_cycles + 400 * (days div 146097), remdays))"
proof -
  have "\<bar>days\<bar> div 146097 \<le> 2 ^ 47 div 146097" using assms by (intro zdiv_mono1) auto
  then have "\<bar>days sdiv 146097\<bar> < 2 ^ 31"
    by (auto simp: signed_divide_int_def abs_mult sgn_if)
  then have "as_i32 (days sdiv 146097) = days sdiv 146097"
    by (intro wrap_signed_id) auto
  moreover have "as_i32 (days smod 146097) = days smod 146097"
    using smod_int_range [of 146097 days] by (intro wrap_signed_id) auto
  moreover have "(if days smod 146097 < 0 then (days smod 146097 + 146097, days sdiv 146097 - 1)
      else (days smod 146097, days sdiv 146097)) = (days mod 146097, days div 146097)"
    using floor_fix [of 146097 days] by (auto split: if_splits)
  ultimately show ?thesis
    by (simp add: split_years_def DAYS_PER_400Y_def DAYS_PER_100Y_def DAYS_PER_4Y_def Let_def cong: if_cong)
qed

lemma split_years_march:
  assumes "\<bar>days\<bar> \<le> 2 ^ 47"
  obtains n r where "split_years days = (n, r)" and "march_days n + r = days" and "0 \<le> r"
    and "r \<le> 365" and "r = 365 \<longrightarrow> is_leap (2000 + n + 1)"
proof -
  define qc where "qc = days div 146097"
  define r0 where "r0 = days mod 146097"
  define c where "c = (if r0 div 36524 = 4 then 3 else r0 div 36524)"
  define r1 where "r1 = r0 - c * 36524"
  define q where "q = (if r1 div 1461 = 25 then 24 else r1 div 1461)"
  define r2 where "r2 = r1 - q * 1461"
  define y where "y = (if r2 div 365 = 4 then 3 else r2 div 365)"
  define r3 where "r3 = r2 - y * 365"
  have r0: "0 \<le> r0" "r0 \<le> 146096" by (simp_all add: r0_def)
  have c: "0 \<le> c" "c < 4" "0 \<le> r1" "r1 \<le> 36524" "r1 = 36524 \<longrightarrow> c = 3"
    using r0 by (auto simp: c_def r1_def)
  have q: "0 \<le> q" "q < 25" "0 \<le> r2" "r2 \<le> 1460" "r2 = 1460 \<and> q = 24 \<longrightarrow> r1 = 36524"
    using c by (auto simp: q_def r2_def)
  have y: "0 \<le> y" "y < 4" "0 \<le> r3" "r3 \<le> 365" "r3 = 365 \<longrightarrow> y = 3 \<and> r2 = 1460"
    using q by (auto simp: y_def r3_def)
  define n where "n = y + 4 * q + 100 * c + 400 * qc"
  have sdivs: "r0 sdiv 36524 = r0 div 36524" "r1 sdiv 1461 = r1 div 1461" "r2 sdiv 365 = r2 div 365"
    using r0 c q by (simp_all add: sdiv_nonneg)
  have "split_years days = (n, r3)"
    unfolding split_years_floor [OF assms] Let_def r0_def [symmetric] qc_def [symmetric] sdivs(1)
      c_def [symmetric] r1_def [symmetric] sdivs(2) q_def [symmetric] r2_def [symmetric] sdivs(3)
      y_def [symmetric] r3_def [symmetric] n_def ..
  moreover have "march_days n + r3 = days"
    using march_days_cycles [OF y(1,2) q(1,2) c(1,2), of qc, folded n_def]
      div_mult_mod_eq [of days 146097, folded qc_def r0_def] r1_def r2_def r3_def
    by linarith
  moreover have "is_leap (2000 + n + 1)" if "r3 = 365"
  proof -
    from that y q c have e: "y = 3" "q = 24 \<longrightarrow> c = 3" by auto
    have n4: "2000 + n + 1 = 4 * (501 + q + 25 * c + 100 * qc)" using e by (simp add: n_def)
    have "400 dvd 2000 + n + 1" if "q = 24"
    proof -
      have "2000 + n + 1 = 400 * (6 + qc)" using e that by (simp add: n_def)
      then show ?thesis by (simp only: dvd_triv_left)
    qed
    moreover have "\<not> 100 dvd 2000 + n + 1" if "q \<noteq> 24"
    proof -
      have "(2000 + n + 1) mod 100 = 4 * q + 4"
        using that q(1,2) by (intro int_mod_pos_eq [where q = "20 + c + 4 * qc"]) (simp_all add: n_def e)
      with q(1) show ?thesis by (simp add: dvd_eq_mod_eq_0)
    qed
    moreover have "4 dvd 2000 + n + 1" by (simp only: n4 dvd_triv_left)
    ultimately show ?thesis unfolding is_leap_def by blast
  qed
  ultimately show thesis using that y(3,4) by blast
qed

lemma days_before_month_cum:
  assumes "m \<le> 9"
  shows "int (days_before_month y (m + 3)) = (if is_leap y then 60 else 59) + cum m"
proof -
  have "m \<in> {0, 1, 2, 3, 4, 5, 6, 7, 8, 9}" using assms by auto
  then have "int (\<Sum>i \<leftarrow> [3..<m + 3]. month_len y i) = cum m"
    by (auto simp: cum_def DAYS_IN_MONTH_def month_len_def upt_rec_numeral)
  then show ?thesis by (simp add: days_before_march)
qed

lemma civil_of_march:
  assumes "m \<le> 11" and "0 \<le> d" and "d < DAYS_IN_MONTH ! m"
    and "m = 11 \<Longrightarrow> d = 28 \<Longrightarrow> is_leap (2000 + n + 1)"
  defines "mo \<equiv> (if m \<ge> 10 then m - 9 else m + 3)"
    and "yr \<equiv> (if m \<ge> 10 then 2000 + n + 1 else 2000 + n)"
  shows "civil_days yr mo (nat d + 1) = march_days n + 11017 + cum m + d"
    and "nat d + 1 \<le> month_len yr mo"
proof -
  show "civil_days yr mo (nat d + 1) = march_days n + 11017 + cum m + d"
  proof (cases "m \<ge> 10")
    case True
    with assms(1) have "m = 10 \<or> m = 11" by auto
    moreover have "days_before_month y 1 = 0" "days_before_month y 2 = 31" for y
      by (simp_all add: days_before_month_def month_len_def upt_rec)
    moreover have "cum 10 = 306" "cum 11 = 337" by (simp_all add: cum_def DAYS_IN_MONTH_def)
    ultimately show ?thesis
      using days_before_year_march [of n] assms(2) by (auto simp: civil_days_def mo_def yr_def)
  next
    case False
    then show ?thesis
      using days_before_month_cum [of m "2000 + n"] days_before_year_Suc [of "2000 + n"]
        days_before_year_march [of n] assms(2)
      by (auto simp: civil_days_def mo_def yr_def split: if_splits)
  qed
  have "m \<le> 9 \<or> m = 10 \<or> m = 11" using assms(1) by linarith
  moreover have "m \<in> {0, 1, 2, 3, 4, 5, 6, 7, 8, 9}" if "m \<le> 9" using that by auto
  ultimately have "m \<in> {0, 1, 2, 3, 4, 5, 6, 7, 8, 9, 10, 11}" by auto
  moreover have "d < 28" if "m = 11" "\<not> is_leap (2000 + n + 1)"
    using that assms(3,4) by (cases "d = 28") (auto simp: DAYS_IN_MONTH_def)
  ultimately show "nat d + 1 \<le> month_len yr mo"
    using assms(2,3) by (auto simp: mo_def yr_def DAYS_IN_MONTH_def month_len_def)
qed

lemma epoch_secs_floor:
  assumes "\<bar>ts\<bar> < 2 ^ 63 * 1000000000"
  shows "epoch_secs ts = (ts div 1000000000, nat (ts mod 1000000000))"
proof (cases "ts \<ge> 0")
  case True
  with assms have "ts div 1000000000 < 2 ^ 63" by auto
  with True show ?thesis
    by (simp add: epoch_secs_def wrap_signed_id order_trans [of _ 0] pos_imp_zdiv_nonneg_iff)
next
  case False
  define q r where "q = (- ts) div 1000000000" and "r = (- ts) mod 1000000000"
  have ts: "ts = - (q * 1000000000 + r)" by (simp add: q_def r_def)
  have r: "0 \<le> r" "r < 1000000000" by (simp_all add: r_def)
  have q: "0 \<le> q" "q < 2 ^ 63" using assms False by (auto simp: q_def)
  have casts: "as_i64 q = q" "as_i64 (- q) = - q" "as_i64 (- q - 1) = - q - 1"
    using q by (intro wrap_signed_id; simp)+
  show ?thesis
  proof (cases "r = 0")
    case True
    with False casts ts show ?thesis
      by (simp add: epoch_secs_def Let_def q_def [symmetric] r_def [symmetric])
  next
    case nz: False
    have "ts = 1000000000 * (- q - 1) + (1000000000 - r)" using ts by simp
    from int_div_pos_eq [OF this] int_mod_pos_eq [OF this] r nz
    have "ts div 1000000000 = - q - 1" "ts mod 1000000000 = 1000000000 - r" by auto
    with False casts nz r show ?thesis
      by (auto simp: epoch_secs_def Let_def q_def [symmetric] r_def [symmetric])
  qed
qed

lemma time_of_day:
  fixes x :: int
  assumes "0 \<le> x" and "x < 86400"
  shows "as_u8 (x sdiv 3600) < 24" "as_u8 ((x sdiv 60) smod 60) < 60" "as_u8 (x smod 60) < 60"
    "int (as_u8 (x sdiv 3600)) * 3600 + int (as_u8 ((x sdiv 60) smod 60)) * 60 + int (as_u8 (x smod 60)) = x"
proof -
  have "x div 3600 < 24" using assms by auto
  then have h: "as_u8 (x sdiv 3600) = nat (x div 3600)"
    using assms by (simp add: as_u8_def sdiv_nonneg pos_imp_zdiv_nonneg_iff)
  have "x div 60 mod 60 < 60" "x mod 60 < 60" by simp_all
  then have m: "as_u8 ((x sdiv 60) smod 60) = nat (x div 60 mod 60)" "as_u8 (x smod 60) = nat (x mod 60)"
    using assms by (simp_all add: as_u8_def sdiv_nonneg smod_nonneg pos_imp_zdiv_nonneg_iff)
  show "as_u8 (x sdiv 3600) < 24" "as_u8 ((x sdiv 60) smod 60) < 60" "as_u8 (x smod 60) < 60"
    using \<open>x div 3600 < 24\<close> by (simp_all add: h m nat_less_iff)
  have "x div 3600 = x div 60 div 60" by (simp flip: zdiv_zmult2_eq)
  then have "x = x div 3600 * 3600 + x div 60 mod 60 * 60 + x mod 60"
    using div_mult_mod_eq [of x 60] div_mult_mod_eq [of "x div 60" 60] by linarith
  moreover have "0 \<le> x div 3600" using assms by (simp add: pos_imp_zdiv_nonneg_iff)
  ultimately show "int (as_u8 (x sdiv 3600)) * 3600 + int (as_u8 ((x sdiv 60) smod 60)) * 60
      + int (as_u8 (x smod 60)) = x"
    by (simp add: h m)
qed

lemma next_field: "P \<and> [c] @ s = [c] @ t \<Longrightarrow> s = t"
  by simp

lemma month_len_le: "month_len y m \<le> 31"
  by (simp add: month_len_def)

lemma DateTime_fmt_fields:
  assumes "0 \<le> year a" "year a \<le> 9999"
  shows "DateTime_fmt a = zero_pad 4 (show_nat (nat (year a))) @ ''-'' @ zero_pad 2 (show_nat (month a))
    @ ''-'' @ zero_pad 2 (show_nat (day a)) @ ''T'' @ zero_pad 2 (show_nat (hour a)) @ '':''
    @ zero_pad 2 (show_nat (minute a)) @ '':'' @ zero_pad 2 (show_nat (second a)) @ ''.''
    @ zero_pad 6 (show_nat (nanos a div 1000)) @ ''Z''"
  using assms by (simp add: DateTime_fmt_def fmt_int_width_def)

lemma field_bounds:
  assumes "valid_datetime a" and "year a \<le> 9999"
  shows "nat (year a) < 10 ^ 4" "month a < 10 ^ 2" "day a < 10 ^ 2" "hour a < 10 ^ 2"
    "minute a < 10 ^ 2" "second a < 10 ^ 2" "nanos a div 1000 < 10 ^ 6"
  using assms month_len_le [of "year a" "month a"] by (auto simp: valid_datetime_def)

section \<open>Properties\<close>

lemma from_system_time_ok:
  assumes "\<bar>ts\<bar> < 2 ^ 63 * 1000000000"
  shows "\<exists>dt. from_system_time ts = Ok dt \<and> valid_datetime dt \<and> datetime_nanos dt = ts"
proof -
  define t where "t = ts div 1000000000"
  have tb: "\<bar>t\<bar> \<le> 2 ^ 63" using assms by (auto simp: t_def)
  then have "\<bar>t div 86400 - 11017\<bar> \<le> 2 ^ 47" by (auto simp: abs_if split: if_splits)
  then obtain n r where sy: "split_years (t div 86400 - 11017) = (n, r)"
    "march_days n + r = t div 86400 - 11017" "0 \<le> r" "r \<le> 365" "r = 365 \<longrightarrow> is_leap (2000 + n + 1)"
    by (rule split_years_march)
  obtain m where m: "m \<le> 11" "month_loop DAYS_IN_MONTH 0 r = Ok (int m, r - cum m)"
    "0 \<le> r - cum m" "r - cum m < DAYS_IN_MONTH ! m"
    using month_loop_ok [OF sy(3,4)] by blast
  define d mo yr where "d = r - cum m" and "mo = (if m \<ge> 10 then m - 9 else m + 3)"
    and "yr = (if m \<ge> 10 then 2000 + n + 1 else 2000 + n)"
  have "d < 31"
    using m(1,4) by (auto simp: d_def DAYS_IN_MONTH_def less_Suc_eq_le nth_Cons split: nat.splits)
  have "is_leap (2000 + n + 1)" if "m = 11" "d = 28"
    using that sy(5) by (simp add: d_def cum_def DAYS_IN_MONTH_def)
  note civil = civil_of_march [OF m(1,3,4) this [unfolded d_def], folded d_def mo_def yr_def]
  have mo: "1 \<le> mo" "mo \<le> 12" using m(1) by (auto simp: mo_def)
  define dt where "dt = \<lparr>year = yr, month = mo, day = nat d + 1, hour = as_u8 (t mod 86400 sdiv 3600),
    minute = as_u8 ((t mod 86400 sdiv 60) smod 60), second = as_u8 (t mod 86400 smod 60),
    nanos = nat (ts mod 1000000000)\<rparr>"
  have "as_u8 (d + 1) = nat d + 1"
    using m(3) \<open>d < 31\<close> by (simp add: as_u8_def d_def nat_add_distrib)
  moreover have "as_u8 ((if m \<ge> 10 then int m - 12 else int m) + 3) = mo"
    using m(1) by (auto simp: as_u8_def mo_def nat_add_distrib)
  ultimately have "from_system_time ts = Ok dt"
    using epoch_secs_floor [OF assms] m(2)
    by (auto simp: from_system_time_def split_secs_floor t_def [symmetric] sy(1) d_def [symmetric] dt_def yr_def)
  moreover have "valid_datetime dt"
    using civil(2) mo time_of_day [of "t mod 86400"] by (simp add: valid_datetime_def dt_def nat_less_iff)
  moreover have "datetime_nanos dt = ts"
  proof -
    have "civil_days yr mo (nat d + 1) = t div 86400" using civil(1) sy(2) by (simp add: d_def)
    then have "civil_days (year dt) (month dt) (day dt) * 86400 + int (hour dt) * 3600
        + int (minute dt) * 60 + int (second dt) = t"
      using time_of_day(4) [of "t mod 86400"] div_mult_mod_eq [of t 86400]
      unfolding dt_def DateTime.select_convs by linarith
    then show ?thesis
      using div_mult_mod_eq [of ts 1000000000, folded t_def] by (simp add: datetime_nanos_def) (simp add: dt_def)
  qed
  ultimately show ?thesis by blast
qed

text \<open>
  C9: for every system time that a 64-bit number of seconds can hold the conversion succeeds
  without an out-of-range index or a lossy cast, gives a valid Gregorian date and time of day, and
  that date denotes exactly the given instant, to the nanosecond.
\<close>

theorem from_system_time_correct:
  assumes "\<bar>ts\<bar> < 2 ^ 63 * 1000000000"
  shows "\<exists>dt. from_system_time ts = Ok dt \<and> valid_datetime dt \<and> datetime_nanos dt = ts"
  using assms by (rule from_system_time_ok)

theorem from_system_time_correct_witness:
  "\<exists>dt. from_system_time (- 1) = Ok dt \<and> valid_datetime dt \<and> datetime_nanos dt = - 1"
  using from_system_time_correct [of "- 1"] by simp

text \<open>
  For the years 0 to 9999 the printed time stamp has a fixed width of 27 characters and
  determines the date and the time of day to the microsecond: two valid dates with the same text
  agree in every printed field.
\<close>

lemma DateTime_fmt_faithful:
  assumes "valid_datetime a" and "valid_datetime b" and "0 \<le> year a" "year a \<le> 9999"
    and "0 \<le> year b" "year b \<le> 9999"
  shows "length (DateTime_fmt a) = 27 \<and>
    (DateTime_fmt a = DateTime_fmt b \<longrightarrow> year a = year b \<and> month a = month b \<and> day a = day b
      \<and> hour a = hour b \<and> minute a = minute b \<and> second a = second b
      \<and> nanos a div 1000 = nanos b div 1000)"
proof (intro conjI impI)
  note bnd = field_bounds [OF assms(1,4)] field_bounds [OF assms(2,6)]
  show "length (DateTime_fmt a) = 27"
    using bnd by (simp add: DateTime_fmt_fields assms length_zero_pad)
  assume eq: "DateTime_fmt a = DateTime_fmt b"
  note eq = eq [unfolded DateTime_fmt_fields [OF assms(3,4)] DateTime_fmt_fields [OF assms(5,6)]]
  note y = zero_pad_append_eq [OF eq bnd(1,8)]
  show "year a = year b" using y [THEN conjunct1] assms(3,5) by (simp add: eq_nat_nat_iff)
  note mo = zero_pad_append_eq [OF y [THEN next_field] bnd(2,9)]
  note d = zero_pad_append_eq [OF mo [THEN next_field] bnd(3,10)]
  note h = zero_pad_append_eq [OF d [THEN next_field] bnd(4,11)]
  note mi = zero_pad_append_eq [OF h [THEN next_field] bnd(5,12)]
  note se = zero_pad_append_eq [OF mi [THEN next_field] bnd(6,13)]
  note n = zero_pad_append_eq [OF se [THEN next_field] bnd(7,14)]
  show "month a = month b" "day a = day b" "hour a = hour b" "minute a = minute b" "second a = second b"
    "nanos a div 1000 = nanos b div 1000"
    using mo d h mi se n by simp_all
qed

end
