(* ===== verification/Upstream.thy ===== *)
theory Upstream
  imports JumpHash SsConfig DateTime Rust_IO
begin

text \<open>
  The pool of upstream servers (\<^verbatim>\<open>src/upstream\<close>): the latency history of a server (\<^verbatim>\<open>server.rs\<close>), the
  health check (\<^verbatim>\<open>checker.rs\<close>), the subscription that lists the servers (\<^verbatim>\<open>provider.rs\<close>), and the choice
  of a server for a host with the periodic re-check and reload (\<^verbatim>\<open>mod.rs\<close>).

  An \<^verbatim>\<open>Arc<Server>\<close> handed out by the pool is represented by the index of the server.  The clock, the
  outcome of the request made by the health check (see \<open>HealthCheck\<close>), the HTTP client and the public suffix list
  are arguments.
\<close>

section \<open>A server and its latency history\<close>

definition MAX_HISTORY :: nat where "MAX_HISTORY = 10"

record Latency =
  lat_timestamp :: nat
  lat_value :: u32

text \<open>
  The wall clock time of a measurement is reconstructed from both clocks; a difference of instants
  saturates at zero.
\<close>

definition Latency_serialize :: "int \<Rightarrow> nat \<Rightarrow> Latency \<Rightarrow> (unit, string \<times> u32) res" where
  "Latency_serialize system_now instant_now l =
     bind_res (from_system_time (system_now - int (instant_now - lat_timestamp l)))
       (\<lambda>datetime. Ok (DateTime_fmt datetime, lat_value l))"

record Server =
  sv_config :: ServerConfig
  sv_latencies :: "Latency list"

definition Server_new :: "ServerConfig \<Rightarrow> Server" where
  "Server_new config = \<lparr>sv_config = config, sv_latencies = []\<rparr>"

definition latency :: "Server \<Rightarrow> (unit, u32) res" where
  "latency s = (if sv_latencies s = [] then Panic else Ok (lat_value (last (sv_latencies s))))"

definition alive :: "Server \<Rightarrow> (unit, bool) res" where
  "alive s = (if sv_latencies s = [] then Panic else Ok (lat_value (last (sv_latencies s)) > 0))"

definition push_latency :: "nat \<Rightarrow> u32 \<Rightarrow> Server \<Rightarrow> Server" where
  "push_latency now v s =
     (let history = sv_latencies s;
          history = (if length history = MAX_HISTORY then tl history else history)
      in s\<lparr>sv_latencies := history @ [\<lparr>lat_timestamp = now, lat_value = v\<rparr>]\<rparr>)"

definition report_failure :: "nat \<Rightarrow> Server \<Rightarrow> Server" where
  "report_failure now s = push_latency now 0 s"

record Stat =
  st_remarks :: "string option"
  st_address :: string
  st_latencies :: "Latency list"

definition stat :: "Server \<Rightarrow> Stat" where
  "stat s = \<lparr>st_remarks = sc_remarks (sv_config s), st_address = Address_fmt (sc_addr (sv_config s)),
    st_latencies = sv_latencies s\<rparr>"

section \<open>The health check\<close>

text \<open>The request itself is modelled in \<open>HealthCheck\<close>, over the proxied connection.\<close>

text \<open>
  \<open>secs\<close> and \<open>millis\<close> are the elapsed whole seconds and the milliseconds on top of them; the sum is
  computed in 32 bits.  \<^term>\<open>None\<close> is a request that exceeded the timeout.
\<close>

definition check_delay :: "nat \<Rightarrow> nat \<Rightarrow> (io_error, unit) res option \<Rightarrow> (io_error, u32) res" where
  "check_delay secs millis result =
     (let elapsed = of_nat secs * 1000 + of_nat millis in
      case result of
        Some r \<Rightarrow> bind_res r (\<lambda>_. Ok elapsed)
      | None \<Rightarrow> Err (IoError TimedOut []))"

text \<open>\<^verbatim>\<open>unwrap_or(0)\<close> turns an error into the score 0; a panic of the request is not caught.\<close>

definition check_update_score :: "nat \<Rightarrow> (io_error, u32) res \<Rightarrow> Server \<Rightarrow> (unit, Server) res" where
  "check_update_score now delay s = (case delay of
     Ok score \<Rightarrow> Ok (push_latency now score s)
   | Err _ \<Rightarrow> Ok (push_latency now 0 s)
   | Panic \<Rightarrow> Panic)"

section \<open>Choosing a server\<close>

record Peers =
  servers :: "Server list"
  best_index :: nat

definition Peers_new :: "Server list \<Rightarrow> Peers" where
  "Peers_new ss = \<lparr>servers = ss, best_index = 0\<rparr>"

fun first_alive :: "nat \<Rightarrow> Server list \<Rightarrow> (unit, nat option) res" where
  "first_alive i [] = Ok None"
| "first_alive i (s # ss) =
     bind_res (alive s) (\<lambda>a. if a then Ok (Some i) else first_alive (Suc i) ss)"

definition fallback :: "Server list \<Rightarrow> (unit, nat) res" where
  "fallback ss = bind_res (first_alive 0 ss) (\<lambda>r. case r of
     Some i \<Rightarrow> Ok i
   | None \<Rightarrow> if ss = [] then Panic else Ok 0)"

definition best :: "Peers \<Rightarrow> (unit, nat) res" where
  "best p =
     (if best_index p < length (servers p) then
        bind_res (alive (servers p ! best_index p)) (\<lambda>a. if a then Ok (best_index p) else fallback (servers p))
      else Panic)"

text \<open>A negative bucket, cast to \<^verbatim>\<open>usize\<close>, is out of range.\<close>

fun etld_tries :: "nat \<Rightarrow> Server list \<Rightarrow> u64 \<Rightarrow> (unit, nat) res option" where
  "etld_tries 0 ss key = Some (fallback ss)"
| "etld_tries (Suc n) ss key = (case jumphash key (int (length ss)) of
     None \<Rightarrow> None
   | Some index \<Rightarrow>
       if 0 \<le> index \<and> nat index < length ss then
         (case alive (ss ! nat index) of
            Ok a \<Rightarrow> if a then Some (Ok (nat index)) else etld_tries n ss (key + 1)
          | _ \<Rightarrow> Some Panic)
       else Some Panic)"

definition by_etld :: "(string \<Rightarrow> string option) \<Rightarrow> Peers \<Rightarrow> string \<Rightarrow> (unit, nat) res option" where
  "by_etld effective_tld_plus_one p host =
     etld_tries 5 (servers p)
       (fnv (as_bytes (case effective_tld_plus_one host of Some etld \<Rightarrow> etld | None \<Rightarrow> host)))"

fun best_loop :: "nat \<Rightarrow> Server list \<Rightarrow> nat \<Rightarrow> u32 \<Rightarrow> (unit, nat) res" where
  "best_loop index [] bi bl = Ok bi"
| "best_loop index (s # ss) bi bl = bind_res (latency s) (\<lambda>l.
     if l = 0 then best_loop (Suc index) ss bi bl
     else if l < bl then best_loop (Suc index) ss index l
     else best_loop (Suc index) ss bi bl)"

definition select_best :: "Peers \<Rightarrow> (unit, Peers) res" where
  "select_best p = bind_res (best_loop 0 (servers p) 0 (-1)) (\<lambda>bi. Ok (p\<lparr>best_index := bi\<rparr>))"

text \<open>
  \<open>checks i\<close> is when the check of server \<open>i\<close> ended and what it measured.  The checks run concurrently, but in one
  task: a panic of one of them is a panic of \<^verbatim>\<open>check_once\<close>, and no best server is stored.
\<close>

fun check_scores :: "(nat \<Rightarrow> nat \<times> (io_error, u32) res) \<Rightarrow> nat \<Rightarrow> Server list \<Rightarrow> (unit, Server list) res" where
  "check_scores checks i [] = Ok []"
| "check_scores checks i (s # ss) =
     bind_res (check_update_score (fst (checks i)) (snd (checks i)) s) (\<lambda>s.
     bind_res (check_scores checks (Suc i) ss) (\<lambda>ss. Ok (s # ss)))"

definition check_once :: "(nat \<Rightarrow> nat \<times> (io_error, u32) res) \<Rightarrow> Peers \<Rightarrow> (unit, Peers) res" where
  "check_once checks p =
     (if servers p = [] then Ok p
      else bind_res (check_scores checks 0 (servers p)) (\<lambda>ss. select_best (p\<lparr>servers := ss\<rparr>)))"

section \<open>The subscription\<close>

datatype ProviderError = InvalidUri string | Decode string | Http string | Unexpected nat
  | ServerUrl UrlParseError

text \<open>\<^verbatim>\<open>BufRead::lines\<close>: a line feed ends a line, a carriage return before it is dropped.\<close>

definition strip_cr :: "bytes \<Rightarrow> bytes" where
  "strip_cr l = (if l \<noteq> [] \<and> last l = 13 then butlast l else l)"

function byte_lines :: "bytes \<Rightarrow> bytes list" where
  "byte_lines bs =
     (if bs = [] then []
      else case dropWhile (\<lambda>b. b \<noteq> 10) bs of
        [] \<Rightarrow> [bs]
      | _ # rest \<Rightarrow> strip_cr (takeWhile (\<lambda>b. b \<noteq> 10) bs) # byte_lines rest)"
  by pat_completeness auto
termination
proof (relation "measure length", simp)
  fix bs rest :: bytes and b :: byte
  assume "dropWhile (\<lambda>b. b \<noteq> 10) bs = b # rest"
  then have "length (b # rest) \<le> length bs" using length_dropWhile_le [of "\<lambda>b. b \<noteq> 10" bs] by simp
  then show "(rest, bs) \<in> measure length" by simp
qed

declare byte_lines.simps [simp del]

text \<open>\<^verbatim>\<open>collect::<Result<Vec<_>, _>>()\<close> stops at the first error.\<close>

fun collect_res :: "('e, 'a) res option list \<Rightarrow> ('e, 'a list) res option" where
  "collect_res [] = Some (Ok [])"
| "collect_res (x # xs) = (case x of
     None \<Rightarrow> None
   | Some (Ok a) \<Rightarrow> map_option (map_ok (Cons a)) (collect_res xs)
   | Some (Err e) \<Rightarrow> Some (Err e)
   | Some Panic \<Rightarrow> Some Panic)"

definition fetch_body :: "http_lib \<Rightarrow> string \<Rightarrow> (ProviderError, bytes) res" where
  "fetch_body H endpoint =
     bind_res (of_sum InvalidUri (uri_parse H endpoint)) (\<lambda>uri.
     bind_res (of_sum Http (http_get H uri)) (\<lambda>(status, body).
       if status \<noteq> 200 then Err (Unexpected status)
       else bind_res (of_sum Http (to_bytes body)) (\<lambda>data. of_sum Decode (b64_decode H data))))"

definition fetch :: "url_libs \<Rightarrow> http_lib \<Rightarrow> string \<Rightarrow> (ProviderError, ServerConfig list) res option" where
  "fetch L H endpoint = (case fetch_body H endpoint of
     Ok text \<Rightarrow> collect_res (map (\<lambda>url. map_option (map_err ServerUrl) (from_url L url))
       (List.map_filter from_utf8 (byte_lines text)))
   | Err e \<Rightarrow> Some (Err e)
   | Panic \<Rightarrow> Some Panic)"

definition load :: "url_libs \<Rightarrow> http_lib \<Rightarrow> string \<Rightarrow> (ProviderError, Server list) res option" where
  "load L H endpoint = map_option (map_ok (map Server_new)) (fetch L H endpoint)"

section \<open>The pool\<close>

datatype LoadBalanceType = Best | Etld

text \<open>Durations are in nanoseconds.\<close>

record CheckConfig =
  check_timeout :: nat
  check_interval :: nat

definition DEFAULT_CHECK_INTERVAL :: nat where "DEFAULT_CHECK_INTERVAL = 10 * 10 ^ 9"
definition DEFAULT_CHECK_TIMEOUT :: nat where "DEFAULT_CHECK_TIMEOUT = 5 * 10 ^ 9"

record ProviderConfig =
  endpoint :: string
  provider_interval :: nat

record Config =
  load_balance :: LoadBalanceType
  check :: CheckConfig
  provider :: ProviderConfig

record Upstream =
  peers :: Peers
  lb_type :: LoadBalanceType

definition Upstream_new :: "url_libs \<Rightarrow> http_lib \<Rightarrow> (nat \<Rightarrow> nat \<times> (io_error, u32) res) \<Rightarrow> Config
    \<Rightarrow> (ProviderError, Upstream) res option" where
  "Upstream_new L H checks config = (case load L H (endpoint (provider config)) of
     Some (Ok ss) \<Rightarrow>
       (case check_once checks (Peers_new ss) of
          Ok p \<Rightarrow> Some (Ok \<lparr>peers = p, lb_type = load_balance config\<rparr>)
        | _ \<Rightarrow> Some Panic)
   | Some (Err e) \<Rightarrow> Some (Err e)
   | Some Panic \<Rightarrow> Some Panic
   | None \<Rightarrow> None)"

definition pick :: "(string \<Rightarrow> string option) \<Rightarrow> Upstream \<Rightarrow> string \<Rightarrow> (unit, nat) res option" where
  "pick effective_tld_plus_one u host = (case lb_type u of
     Best \<Rightarrow> Some (best (peers u))
   | Etld \<Rightarrow> by_etld effective_tld_plus_one (peers u) host)"

definition stats :: "Upstream \<Rightarrow> Stat list" where
  "stats u = map stat (servers (peers u))"

text \<open>
  The states of a running pool.  The two background tasks of \<^verbatim>\<open>Upstream::new\<close> interleave with the
  connections: a check records one score after the other and then stores the best index, unless it
  panics in between, which ends the task; a successful reload of the subscription replaces the whole list after a first check of it; a
  connection may report a failure of a server at any time.
\<close>

inductive running :: "url_libs \<Rightarrow> http_lib \<Rightarrow> Upstream \<Rightarrow> bool" for L H where
  started: "Upstream_new L H checks config = Some (Ok u) \<Longrightarrow> running L H u"
| scored: "running L H u \<Longrightarrow> i < length (servers (peers u)) \<Longrightarrow>
    check_update_score now delay (servers (peers u) ! i) = Ok s \<Longrightarrow>
    running L H (u\<lparr>peers := (peers u)\<lparr>servers := (servers (peers u))[i := s]\<rparr>\<rparr>)"
| selected: "running L H u \<Longrightarrow> select_best (peers u) = Ok p \<Longrightarrow> running L H (u\<lparr>peers := p\<rparr>)"
| failed: "running L H u \<Longrightarrow> i < length (servers (peers u)) \<Longrightarrow>
    running L H (u\<lparr>peers := (peers u)\<lparr>servers :=
      (servers (peers u))[i := report_failure now (servers (peers u) ! i)]\<rparr>\<rparr>)"
| reloaded: "running L H u \<Longrightarrow> load L H e = Some (Ok ss) \<Longrightarrow> check_once checks (Peers_new ss) = Ok p \<Longrightarrow>
    running L H (u\<lparr>peers := p\<rparr>)"

section \<open>The history is a bounded queue\<close>

lemma sv_latencies_push:
  "sv_latencies (push_latency now v s) =
     (if length (sv_latencies s) = MAX_HISTORY then tl (sv_latencies s) else sv_latencies s)
       @ [\<lparr>lat_timestamp = now, lat_value = v\<rparr>]"
  by (simp add: push_latency_def Let_def)

lemma push_all_latencies:
  assumes "length (sv_latencies s) \<le> MAX_HISTORY"
  shows "map lat_value (sv_latencies (fold (\<lambda>(now, v). push_latency now v) ps s)) =
    keep_last MAX_HISTORY (map lat_value (sv_latencies s) @ map snd ps)"
  using assms
proof (induction ps arbitrary: s)
  case (Cons p ps)
  obtain now v where p: "p = (now, v)" by (cases p)
  let ?h = "map lat_value (sv_latencies s)"
  let ?s = "push_latency now v s"
  have len: "length (sv_latencies ?s) \<le> MAX_HISTORY"
    using Cons.prems by (auto simp: sv_latencies_push MAX_HISTORY_def)
  have "map lat_value (sv_latencies ?s) = (if length ?h = MAX_HISTORY then tl ?h else ?h) @ [v]"
    by (simp add: sv_latencies_push map_tl)
  also have "\<dots> = keep_last MAX_HISTORY (?h @ [v])"
    using Cons.prems by (intro keep_last_push) (simp_all add: MAX_HISTORY_def)
  finally have "map lat_value (sv_latencies ?s) = keep_last MAX_HISTORY (?h @ [v])" .
  then show ?case using Cons.IH [OF len] p by simp
qed simp

section \<open>Every server of a running pool has been checked\<close>

definition server_ok :: "Server \<Rightarrow> bool" where
  "server_ok s = (sv_latencies s \<noteq> [] \<and> length (sv_latencies s) \<le> MAX_HISTORY)"

definition peers_ok :: "Peers \<Rightarrow> bool" where
  "peers_ok p = (list_all server_ok (servers p) \<and> (servers p \<noteq> [] \<longrightarrow> best_index p < length (servers p)))"

definition is_alive :: "Server \<Rightarrow> bool" where
  "is_alive s = (lat_value (last (sv_latencies s)) > 0)"

lemma alive_server_ok: "server_ok s \<Longrightarrow> alive s = Ok (is_alive s)"
  by (simp add: alive_def server_ok_def is_alive_def)

lemma latency_server_ok: "server_ok s \<Longrightarrow> latency s = Ok (lat_value (last (sv_latencies s)))"
  by (simp add: latency_def server_ok_def)

lemma push_latency_ok: "length (sv_latencies s) \<le> MAX_HISTORY \<Longrightarrow> server_ok (push_latency now v s)"
  by (auto simp: server_ok_def sv_latencies_push MAX_HISTORY_def)

lemma push_latency_last [simp]: "last (sv_latencies (push_latency now v s)) = \<lparr>lat_timestamp = now, lat_value = v\<rparr>"
  by (simp add: sv_latencies_push)

lemma best_loop_ok:
  "list_all server_ok ss \<Longrightarrow> \<exists>r. best_loop i ss bi bl = Ok r \<and> (r = bi \<or> i \<le> r \<and> r < i + length ss)"
  by (induction ss arbitrary: i bi bl) (auto simp: latency_server_ok le_Suc_eq, fastforce+)

lemma select_best_ok:
  assumes "list_all server_ok (servers p)"
  obtains r where "select_best p = Ok r" and "servers r = servers p" and "peers_ok r"
proof -
  obtain bi where bi: "best_loop 0 (servers p) 0 (-1) = Ok bi" "bi = 0 \<or> bi < length (servers p)"
    using best_loop_ok [OF assms, of 0 0 "-1"] by auto
  show ?thesis
    by (rule that [of "p\<lparr>best_index := bi\<rparr>"]) (use bi assms in \<open>auto simp: select_best_def peers_ok_def\<close>)
qed

text \<open>The score that a check records.\<close>

definition check_score :: "(io_error, u32) res \<Rightarrow> u32" where
  "check_score delay = (case delay of Ok score \<Rightarrow> score | _ \<Rightarrow> 0)"

lemma check_update_score_Ok:
  "check_update_score now delay s = Ok s' \<longleftrightarrow> delay \<noteq> Panic \<and> s' = push_latency now (check_score delay) s"
  by (auto simp: check_update_score_def check_score_def split: res.split)

lemma check_scores_Ok:
  "check_scores checks i ss = Ok ss' \<longleftrightarrow> (\<forall>j < length ss. snd (checks (i + j)) \<noteq> Panic)
    \<and> ss' = map (\<lambda>j. push_latency (fst (checks (i + j))) (check_score (snd (checks (i + j)))) (ss ! j)) [0..<length ss]"
proof (induction ss arbitrary: i ss')
  case (Cons s ss)
  have up: "[0..<length (s # ss)] = 0 # map Suc [0..<length ss]" by (simp add: map_Suc_upt upt_conv_Cons del: upt_Suc)
  have all: "(\<forall>j < length (s # ss). Q j) \<longleftrightarrow> Q 0 \<and> (\<forall>j < length ss. Q (Suc j))" for Q
    by (simp add: All_less_Suc2)
  show ?case
    unfolding up all by (auto simp: bind_res_eq_Ok check_update_score_Ok Cons.IH o_def)
qed auto

lemma check_once_Ok:
  assumes "check_once checks p = Ok r" and "servers p \<noteq> []"
  shows "\<forall>i < length (servers p). snd (checks i) \<noteq> Panic"
    and "select_best (p\<lparr>servers := map (\<lambda>i. push_latency (fst (checks i)) (check_score (snd (checks i))) (servers p ! i))
        [0..<length (servers p)]\<rparr>) = Ok r"
  using assms by (auto simp: check_once_def bind_res_eq_Ok check_scores_Ok)

lemma check_once_panics:
  assumes "i < length (servers p)" and "snd (checks i) = Panic"
  shows "check_once checks p = Panic"
proof -
  have "check_scores checks 0 (servers p) \<noteq> Ok ss" for ss using assms check_scores_Ok [of checks 0 "servers p" ss] by auto
  moreover have "check_scores checks k ss \<noteq> Err e" for k ss e
    by (induction ss arbitrary: k) (auto simp: check_update_score_def bind_res_eq_Err split: res.splits)
  ultimately have "check_scores checks 0 (servers p) = Panic" by (metis res.exhaust)
  with assms(1) show ?thesis by (auto simp: check_once_def)
qed

lemma check_once_ok:
  assumes "\<forall>s \<in> set (servers p). length (sv_latencies s) \<le> MAX_HISTORY"
    and "\<forall>i < length (servers p). snd (checks i) \<noteq> Panic"
  obtains r where "check_once checks p = Ok r" and "peers_ok r" and "length (servers r) = length (servers p)"
proof (cases "servers p = []")
  case True
  show ?thesis by (rule that [of p]) (use True in \<open>simp_all add: check_once_def peers_ok_def\<close>)
next
  case False
  let ?ss = "map (\<lambda>i. push_latency (fst (checks i)) (check_score (snd (checks i))) (servers p ! i)) [0..<length (servers p)]"
  have "list_all server_ok (servers (p\<lparr>servers := ?ss\<rparr>))"
    using assms(1) by (auto simp: list_all_iff intro!: push_latency_ok)
  then obtain r where "select_best (p\<lparr>servers := ?ss\<rparr>) = Ok r" "servers r = servers (p\<lparr>servers := ?ss\<rparr>)" "peers_ok r"
    by (rule select_best_ok)
  moreover have "check_scores checks 0 (servers p) = Ok ?ss" using assms(2) by (simp add: check_scores_Ok)
  ultimately show ?thesis using False by (intro that [of r]) (simp_all add: check_once_def)
qed

lemma load_fresh: "load L H e = Some (Ok ss) \<Longrightarrow> s \<in> set ss \<Longrightarrow> sv_latencies s = []"
  by (auto simp: load_def Server_new_def map_ok_eq_Ok)

lemma check_once_loaded:
  assumes "load L H e = Some (Ok ss)" and "check_once checks (Peers_new ss) = Ok p"
  shows "peers_ok p"
proof (cases "ss = []")
  case True
  with assms(2) show ?thesis by (auto simp: check_once_def Peers_new_def peers_ok_def)
next
  case False
  then have "\<forall>i < length ss. snd (checks i) \<noteq> Panic"
    using check_once_Ok(1) [OF assms(2)] by (simp add: Peers_new_def)
  then show ?thesis
    using check_once_ok [of "Peers_new ss" checks] load_fresh [OF assms(1)] assms(2) by (auto simp: Peers_new_def)
qed

lemma peers_ok_update:
  assumes "peers_ok p" and "i < length (servers p)" and "\<And>s. server_ok s \<Longrightarrow> server_ok (f s)"
  shows "peers_ok (p\<lparr>servers := (servers p)[i := f (servers p ! i)]\<rparr>)"
  using assms by (auto simp: peers_ok_def list_all_length nth_list_update)

lemma running_ok: "running L H u \<Longrightarrow> peers_ok (peers u)"
proof (induction rule: running.induct)
  case (started checks config u)
  then show ?case
    by (auto simp: Upstream_new_def split: option.splits res.splits dest: check_once_loaded)
next
  case (selected u p)
  obtain r where "select_best (peers u) = Ok r" "peers_ok r"
    using selected.IH select_best_ok [of "peers u"] unfolding peers_ok_def by metis
  with selected show ?case by simp
next
  case (reloaded u e ss checks p)
  then show ?case by (simp add: check_once_loaded)
qed (auto intro!: peers_ok_update push_latency_ok simp: check_update_score_Ok report_failure_def server_ok_def)

text \<open>Nothing changes the configuration of a server: what holds of all that is loaded holds in the pool.\<close>

lemma sv_config_push [simp]: "sv_config (push_latency now v s) = sv_config s"
  by (simp add: push_latency_def Let_def)

lemma select_best_servers: "select_best p = Ok r \<Longrightarrow> servers r = servers p"
  by (auto simp: select_best_def bind_res_eq_Ok)

lemma check_once_configs: "check_once checks p = Ok r \<Longrightarrow> map sv_config (servers r) = map sv_config (servers p)"
  by (auto simp: check_once_def bind_res_eq_Ok check_scores_Ok o_def dest!: select_best_servers split: if_splits
    intro!: nth_equalityI)

lemma map_config_update: "sv_config s = sv_config (ss ! i) \<Longrightarrow> map sv_config (ss[i := s]) = map sv_config ss"
  by (cases "i < length ss") (simp_all add: map_update list_update_same_conv list_update_beyond)

lemma running_configs:
  assumes "running L H u" and "\<And>e ss s. load L H e = Some (Ok ss) \<Longrightarrow> s \<in> set ss \<Longrightarrow> Q (sv_config s)"
  shows "\<forall>c \<in> set (map sv_config (servers (peers u))). Q c"
  using assms(1)
proof (induction rule: running.induct)
  case (started checks config u)
  then obtain ss p where "load L H (endpoint (provider config)) = Some (Ok ss)" "check_once checks (Peers_new ss) = Ok p" "peers u = p"
    by (auto simp: Upstream_new_def split: option.splits res.splits)
  with assms(2) check_once_configs [of checks "Peers_new ss" p] show ?case by (auto simp: Peers_new_def)
next
  case (selected u p)
  then show ?case by (simp add: select_best_servers)
next
  case (reloaded u e ss checks p)
  with assms(2) check_once_configs [of checks "Peers_new ss" p] show ?case by (auto simp: Peers_new_def)
qed (simp_all add: map_config_update check_update_score_Ok report_failure_def)

text \<open>What is loaded was parsed from a URL, so every server of a pool is usable.\<close>

lemma collect_res_all:
  "collect_res xs = Some (Ok as) \<Longrightarrow> a \<in> set as \<Longrightarrow> Some (Ok a) \<in> set xs"
  by (induction xs arbitrary: as) (auto simp: map_ok_eq_Ok split: option.splits res.splits)

lemma load_usable:
  assumes "md5_law L" and "url_law L" and "load L H e = Some (Ok ss)" and "s \<in> set ss"
  shows "config_ok L (sv_config s)"
proof -
  from assms(3,4) obtain cs where c: "fetch L H e = Some (Ok cs)" "sv_config s \<in> set cs"
    by (auto simp: load_def Server_new_def map_ok_eq_Ok)
  then have "\<exists>url. Some (Ok (sv_config s)) = map_option (map_err ServerUrl) (from_url L url)"
    by (auto simp: fetch_def dest!: collect_res_all split: res.splits)
  then obtain url where "map_option (map_err ServerUrl) (from_url L url) = Some (Ok (sv_config s))" by metis
  then have "from_url L url = Some (Ok (sv_config s))" by (auto simp: map_err_eq_Ok)
  with from_url_cases [OF assms(1,2), of url] show ?thesis by auto
qed

section \<open>Choosing a live server\<close>

lemma first_alive_cases:
  assumes "list_all server_ok ss"
  shows "first_alive k ss = Ok None \<and> (\<forall>s \<in> set ss. \<not> is_alive s)
    \<or> (\<exists>i < length ss. first_alive k ss = Ok (Some (k + i)) \<and> is_alive (ss ! i))"
  using assms
proof (induction ss arbitrary: k)
  case (Cons s ss)
  show ?case
  proof (cases "is_alive s")
    case True
    then show ?thesis using Cons.prems by (intro disjI2 exI [of _ 0]) (simp add: alive_server_ok)
  next
    case False
    with Cons.prems have step: "first_alive k (s # ss) = first_alive (Suc k) ss" by (simp add: alive_server_ok)
    show ?thesis using Cons.IH [of "Suc k"] Cons.prems False unfolding step by (fastforce simp: less_Suc_eq_0_disj)
  qed
qed simp

lemma fallback_alive:
  assumes "list_all server_ok ss" and "ss \<noteq> []"
  obtains i where "fallback ss = Ok i" and "i < length ss" and "(\<exists>s \<in> set ss. is_alive s) \<longrightarrow> is_alive (ss ! i)"
  using first_alive_cases [OF assms(1), of 0]
proof (elim disjE conjE exE)
  assume "first_alive 0 ss = Ok None" "\<forall>s \<in> set ss. \<not> is_alive s"
  then show thesis using assms(2) by (intro that [of 0]) (auto simp: fallback_def)
next
  fix i assume "i < length ss" "first_alive 0 ss = Ok (Some (0 + i))" "is_alive (ss ! i)"
  then show thesis by (intro that [of i]) (auto simp: fallback_def)
qed

text \<open>
  The contract of a balancing strategy: on a checked list it returns a live server it found itself, or
  what \<^const>\<open>fallback\<close> returns.
\<close>

locale balancer =
  fixes strategy :: "Server list \<Rightarrow> (unit, nat) res option"
    and admissible :: "Server list \<Rightarrow> bool"
  assumes strategy_cases:
    "list_all server_ok ss \<Longrightarrow> ss \<noteq> [] \<Longrightarrow> admissible ss \<Longrightarrow>
       (\<exists>i < length ss. strategy ss = Some (Ok i) \<and> is_alive (ss ! i)) \<or> strategy ss = Some (fallback ss)"
begin

lemma strategy_alive:
  assumes "list_all server_ok ss" and "ss \<noteq> []" and "admissible ss"
  shows "\<exists>i < length ss. strategy ss = Some (Ok i) \<and> ((\<exists>s \<in> set ss. is_alive s) \<longrightarrow> is_alive (ss ! i))"
proof -
  obtain j where "fallback ss = Ok j" "j < length ss" "(\<exists>s \<in> set ss. is_alive s) \<longrightarrow> is_alive (ss ! j)"
    using fallback_alive assms(1,2) by blast
  with strategy_cases [OF assms] show ?thesis by auto
qed

end

lemma etld_tries_cases:
  assumes "list_all server_ok ss" and "ss \<noteq> []" and "length ss \<le> 2 ^ 31"
  shows "(\<exists>i < length ss. etld_tries n ss key = Some (Ok i) \<and> is_alive (ss ! i)) \<or> etld_tries n ss key = Some (fallback ss)"
proof (induction n arbitrary: key)
  case (Suc n)
  obtain b where b: "jumphash key (int (length ss)) = Some b" "0 \<le> b" "nat b < length ss"
    using jumphash_range [of "int (length ss)" key] assms(2,3) by (auto simp: nat_less_iff)
  then have "alive (ss ! nat b) = Ok (is_alive (ss ! nat b))"
    using assms(1) by (intro alive_server_ok) (auto simp: list_all_length)
  then show ?case using b Suc.IH [of "key + 1"] by (cases "is_alive (ss ! nat b)") auto
qed simp

interpretation by_best: balancer "\<lambda>ss. Some (best \<lparr>servers = ss, best_index = b\<rparr>)" "\<lambda>ss. b < length ss" for b
proof
  fix ss assume "list_all server_ok ss" "ss \<noteq> []" "b < length ss"
  moreover from this have "alive (ss ! b) = Ok (is_alive (ss ! b))"
    by (intro alive_server_ok) (auto simp: list_all_length)
  ultimately show "(\<exists>i < length ss. Some (best \<lparr>servers = ss, best_index = b\<rparr>) = Some (Ok i) \<and> is_alive (ss ! i))
      \<or> Some (best \<lparr>servers = ss, best_index = b\<rparr>) = Some (fallback ss)"
    by (auto simp: best_def)
qed

interpretation by_hash: balancer "\<lambda>ss. etld_tries n ss key" "\<lambda>ss. length ss \<le> 2 ^ 31" for n key
  by unfold_locales (rule etld_tries_cases)

lemma pick_running:
  assumes "peers_ok (peers u)" and "servers (peers u) \<noteq> []" and "length (servers (peers u)) \<le> 2 ^ 31"
  shows "\<exists>i < length (servers (peers u)). pick etld1 u host = Some (Ok i)
    \<and> ((\<exists>s \<in> set (servers (peers u)). is_alive s) \<longrightarrow> is_alive (servers (peers u) ! i))"
proof -
  obtain ss b where p: "peers u = \<lparr>servers = ss, best_index = b\<rparr>" by (cases "peers u") auto
  then show ?thesis
    using assms by_best.strategy_alive [of ss b] by_hash.strategy_alive [of ss 5]
    by (cases "lb_type u") (simp_all add: pick_def by_etld_def peers_ok_def)
qed

lemma pick_empty: "servers (peers u) = [] \<Longrightarrow> pick etld1 u host = Some Panic"
proof -
  assume empty: "servers (peers u) = []"
  have "jump_loop key 0 (- 1) 0 = Some (- 1)" for key by (subst jump_loop.simps) simp
  then have "jumphash key 0 = Some (- 1)" for key by (simp add: jumphash_def)
  then have "etld_tries 5 [] key = Some Panic" for key by (simp add: numeral_eq_Suc)
  with empty show ?thesis by (simp add: pick_def best_def by_etld_def split: LoadBalanceType.split)
qed

section \<open>The best server\<close>

abbreviation cur :: "Server \<Rightarrow> u32" where
  "cur s \<equiv> lat_value (last (sv_latencies s))"

lemma best_loop_spec:
  assumes "list_all server_ok ss" and "best_loop k ss bi bl = Ok r"
  shows "r = bi \<and> (\<forall>s \<in> set ss. cur s = 0 \<or> bl \<le> cur s)
    \<or> (\<exists>j < length ss. r = k + j \<and> 0 < cur (ss ! j) \<and> cur (ss ! j) < bl
        \<and> (\<forall>s \<in> set ss. cur s = 0 \<or> cur (ss ! j) \<le> cur s))"
  using assms
proof (induction ss arbitrary: k bi bl)
  case (Cons s ss)
  have ok: "list_all server_ok ss" "latency s = Ok (cur s)" using Cons.prems by (auto simp: latency_server_ok)
  show ?case
  proof (cases "cur s \<noteq> 0 \<and> cur s < bl")
    case True
    then have "best_loop (Suc k) ss k (cur s) = Ok r" using Cons.prems ok by simp
    from Cons.IH [OF ok(1) this] show ?thesis
    proof (elim disjE conjE exE)
      assume "r = k" "\<forall>t \<in> set ss. cur t = 0 \<or> cur s \<le> cur t"
      then show ?thesis using True by (intro disjI2 exI [of _ 0]) (auto simp: word_neq_0_conv)
    next
      fix j assume "j < length ss" "r = Suc k + j" "0 < cur (ss ! j)" "cur (ss ! j) < cur s"
        "\<forall>t \<in> set ss. cur t = 0 \<or> cur (ss ! j) \<le> cur t"
      then show ?thesis using True by (intro disjI2 exI [of _ "Suc j"]) auto
    qed
  next
    case False
    then have "best_loop (Suc k) ss bi bl = Ok r" using Cons.prems ok by (auto split: if_splits)
    from Cons.IH [OF ok(1) this] show ?thesis
    proof (elim disjE conjE exE)
      assume "r = bi" "\<forall>t \<in> set ss. cur t = 0 \<or> bl \<le> cur t"
      then show ?thesis using False by auto
    next
      fix j assume "j < length ss" "r = Suc k + j" "0 < cur (ss ! j)" "cur (ss ! j) < bl"
        "\<forall>t \<in> set ss. cur t = 0 \<or> cur (ss ! j) \<le> cur t"
      then show ?thesis using False by (intro disjI2 exI [of _ "Suc j"]) auto
    qed
  qed
qed simp

lemma check_once_cur:
  assumes "servers p \<noteq> []" and "check_once checks p = Ok r"
    and "\<forall>s \<in> set (servers p). length (sv_latencies s) \<le> MAX_HISTORY"
  shows "length (servers r) = length (servers p)" and "list_all server_ok (servers r)"
    and "best_loop 0 (servers r) 0 (-1) = Ok (best_index r)"
    and "\<And>i. i < length (servers p) \<Longrightarrow> cur (servers r ! i) = check_score (snd (checks i))"
  using check_once_Ok(2) [OF assms(2,1)] assms(3)
  by (auto simp: select_best_def bind_res_eq_Ok list_all_iff intro!: push_latency_ok)

section \<open>Reading the subscription\<close>

lemma byte_lines_Cons:
  assumes "10 \<notin> set l" and "l = [] \<or> last l \<noteq> 13"
  shows "byte_lines (l @ 10 # rest) = l # byte_lines rest"
proof -
  have "\<forall>b \<in> set l. b \<noteq> 10" using assms(1) by auto
  then have "takeWhile (\<lambda>b. b \<noteq> 10) (l @ 10 # rest) = l" "dropWhile (\<lambda>b. b \<noteq> 10) (l @ 10 # rest) = 10 # rest"
    by (auto simp: takeWhile_append2 dropWhile_append2)
  then show ?thesis using assms(2) by (subst byte_lines.simps) (auto simp: strip_cr_def)
qed

definition url_line :: "string \<Rightarrow> bool" where
  "url_line u = (valid_utf8 (as_bytes u) \<and> 10 \<notin> set (as_bytes u) \<and> (u = [] \<or> last (as_bytes u) \<noteq> 13))"

lemma byte_lines_urls:
  "list_all url_line urls \<Longrightarrow>
   List.map_filter from_utf8 (byte_lines (concat (map (\<lambda>u. as_bytes u @ [10]) urls))) = urls"
proof (induction urls)
  case Nil
  then show ?case by (simp add: byte_lines.simps map_filter_simps)
next
  case (Cons u urls)
  then have "byte_lines (as_bytes u @ 10 # concat (map (\<lambda>u. as_bytes u @ [10]) urls)) =
      as_bytes u # byte_lines (concat (map (\<lambda>u. as_bytes u @ [10]) urls))"
    by (intro byte_lines_Cons) (auto simp: url_line_def as_bytes_def)
  with Cons show ?case by (simp add: map_filter_simps url_line_def)
qed

lemma collect_res_append:
  "list_all2 (\<lambda>x a. x = Some (Ok a)) xs as \<Longrightarrow>
   collect_res (xs @ ys) = map_option (map_ok ((@) as)) (collect_res ys)"
  by (induction rule: list_all2_induct) (auto simp: option.map_comp o_def option.map_ident)

text \<open>A concrete subscription of one server, for the witnesses.\<close>

definition demo_url :: string where "demo_url = ''ss://YWVzLTI1Ni1nY206cHc@h.io:443''"

definition demo_config :: ServerConfig where
  "demo_config = fresh_config demo_libs (DomainNameAddress ''h.io'' 443) ''pw'' AES_256_GCM"

definition demo_http :: http_lib where
  "demo_http = \<lparr>uri_parse = Inr, http_get = (\<lambda>u. Inr (200, \<lparr>body_bytes = [], body_error = None\<rparr>)),
     b64_decode = (\<lambda>b. Inr (as_bytes demo_url @ [10]))\<rparr>"

lemma demo_from_url: "from_url demo_libs demo_url = Some (Ok demo_config)"
proof -
  let ?u = "\<lparr>url_scheme = ''ss'', url_username = ''YWVzLTI1Ni1nY206cHc'', url_password = None,
             url_host = Some ''h.io'', url_port = Some 443, url_fragment = None\<rparr>"
  have "url_auth demo_libs ?u = Ok (CipherKind_fmt AES_256_GCM, ''pw'')"
    by (rule url_auth_sip002) (simp_all add: demo_libs_def valid_utf8_ascii is_ascii_def)
  moreover have "url_addr ?u = Ok (DomainNameAddress ''h.io'' 443)"
    using Address_from_str_domain [of "''h.io''" "[]" 443] by (simp add: url_addr_def is_digit_def)
  moreover have "url_parse demo_libs demo_url = Inr ?u" by (simp add: demo_libs_def demo_url_def)
  ultimately have "from_url demo_libs demo_url =
      url_config demo_libs ?u (CipherKind_fmt AES_256_GCM) ''pw'' (DomainNameAddress ''h.io'' 443)"
    by (subst from_url.simps) simp
  then show ?thesis
    using demo_libs_laws(1)
    by (simp add: url_config_def CipherKind_from_str_def ServerConfig_new_cases is_aead_def demo_config_def)
qed

lemma demo_url_line: "list_all url_line [demo_url]"
  by (simp add: url_line_def demo_url_def valid_utf8_ascii is_ascii_def as_bytes_def byte_of_char_def)

lemma demo_load: "load demo_libs demo_http e = Some (Ok [Server_new demo_config])"
  using byte_lines_urls [OF demo_url_line] demo_from_url
  by (simp add: load_def fetch_def fetch_body_def demo_http_def to_bytes_def)

lemma demo_running:
  obtains u where "running demo_libs demo_http u" and "length (servers (peers u)) = 1" and "lb_type u = lb"
    and "alive (servers (peers u) ! 0) = Ok True"
proof -
  let ?p = "Peers_new [Server_new demo_config]"
  let ?checks = "\<lambda>i. (0, Ok 42)"
  let ?config = "\<lparr>load_balance = lb, check = \<lparr>check_timeout = 0, check_interval = 0\<rparr>,
    provider = \<lparr>endpoint = [], provider_interval = 0\<rparr>\<rparr>"
  obtain r where "check_once ?checks ?p = Ok r" "length (servers r) = length (servers ?p)"
    using check_once_ok [of ?p ?checks] by (auto simp: Peers_new_def Server_new_def)
  moreover from this have "alive (servers r ! 0) = Ok True"
    using check_once_cur [of ?p ?checks r]
    by (auto simp: Peers_new_def Server_new_def alive_server_ok is_alive_def list_all_length check_score_def)
  moreover have "running demo_libs demo_http \<lparr>peers = r, lb_type = lb\<rparr>"
    using \<open>check_once ?checks ?p = Ok r\<close>
    by (intro running.started [of _ _ ?checks ?config]) (simp add: Upstream_new_def demo_load)
  ultimately show ?thesis by (intro that) (auto simp: Peers_new_def)
qed

section \<open>Properties\<close>

text \<open>
  C17: in every state of a running pool, however checks, failure reports and reloads interleave, each
  server has between one and ten latencies in its history and the index of the best server is in
  range unless there is no server.
\<close>

theorem running_pool_checked:
  assumes "running L H u"
  shows "(\<forall>s \<in> set (servers (peers u)). sv_latencies s \<noteq> [] \<and> length (sv_latencies s) \<le> 10)
    \<and> (servers (peers u) = [] \<or> best_index (peers u) < length (servers (peers u)))"
  using running_ok [OF assms] by (auto simp: peers_ok_def list_all_iff server_ok_def MAX_HISTORY_def)

theorem running_pool_checked_witness:
  "\<exists>u. running demo_libs demo_http u \<and> length (servers (peers u)) = 1 \<and> best_index (peers u) = 0
     \<and> length (sv_latencies (servers (peers u) ! 0)) \<le> 10"
proof -
  obtain u where u: "running demo_libs demo_http u" "length (servers (peers u)) = 1" by (rule demo_running)
  then have "servers (peers u) ! 0 \<in> set (servers (peers u))" "servers (peers u) \<noteq> []" by auto
  with running_pool_checked [OF u(1)] u show ?thesis by fastforce
qed

text \<open>
  C15: a running pool with servers, for each strategy and any host, picks a server of its list, and a
  live one if any is alive; a pool whose subscription lists no server panics on every pick.
\<close>

theorem pick_prefers_alive:
  assumes "running L H u" and "length (servers (peers u)) \<le> 2 ^ 31"
  shows "if servers (peers u) = [] then pick etld1 u host = Some Panic
    else \<exists>i < length (servers (peers u)). pick etld1 u host = Some (Ok i)
      \<and> ((\<exists>s \<in> set (servers (peers u)). alive s = Ok True) \<longrightarrow> alive (servers (peers u) ! i) = Ok True)"
proof -
  have ok: "peers_ok (peers u)" using assms(1) by (rule running_ok)
  then have "alive s = Ok (is_alive s)" if "s \<in> set (servers (peers u))" for s
    using that by (intro alive_server_ok) (auto simp: peers_ok_def list_all_iff)
  then show ?thesis using pick_running [OF ok _ assms(2)] pick_empty [of u] by (fastforce)
qed

theorem pick_prefers_alive_witness:
  "\<exists>u. running demo_libs demo_http u \<and> lb_type u = Etld \<and> pick (\<lambda>h. None) u ''example.com'' = Some (Ok 0)"
proof -
  obtain u where u: "running demo_libs demo_http u" "length (servers (peers u)) = 1" "lb_type u = Etld"
    by (rule demo_running)
  then have "servers (peers u) \<noteq> []" "length (servers (peers u)) \<le> 2 ^ 31" by auto
  with pick_prefers_alive [OF u(1), of "\<lambda>h. None" "''example.com''"] u show ?thesis by fastforce
qed

text \<open>
  C29: a round of checks records for every server its delay, or 0 if the check failed, and makes the best server
  one that answered with the least delay, provided some server answered (a delay of \<open>2^32 - 1\<close> is never
  chosen); it panics exactly if one of the checks does.
\<close>

theorem check_once_selects_fastest:
  assumes "servers p \<noteq> []" and "\<forall>s \<in> set (servers p). length (sv_latencies s) \<le> 10"
  shows "if \<exists>i < length (servers p). snd (checks i) = Panic then check_once checks p = Panic
    else \<exists>r. check_once checks p = Ok r \<and> length (servers r) = length (servers p)
    \<and> best_index r < length (servers p)
    \<and> (\<forall>i < length (servers p).
        latency (servers r ! i) = Ok (case snd (checks i) of Ok score \<Rightarrow> score | _ \<Rightarrow> 0))
    \<and> (\<forall>i < length (servers p). \<forall>l. latency (servers r ! i) = Ok l \<and> 0 < l \<and> l < -1 \<longrightarrow>
        (\<exists>b. latency (servers r ! best_index r) = Ok b \<and> 0 < b \<and> b \<le> l))"
proof (cases "\<exists>i < length (servers p). snd (checks i) = Panic")
  case True
  then show ?thesis using check_once_panics by auto
next
  case False
  have hist: "\<forall>s \<in> set (servers p). length (sv_latencies s) \<le> MAX_HISTORY"
    using assms(2) by (simp add: MAX_HISTORY_def)
  then obtain r where r: "check_once checks p = Ok r" "peers_ok r" using False by (auto elim: check_once_ok)
  note c = check_once_cur [OF assms(1) r(1) hist]
  have lat: "latency (servers r ! i) = Ok (cur (servers r ! i))" if "i < length (servers p)" for i
    using that c(1,2) by (intro latency_server_ok) (auto simp: list_all_length)
  have bi: "best_index r < length (servers p)" using r(2) c(1) assms(1) by (auto simp: peers_ok_def)
  have "0 < cur (servers r ! best_index r) \<and> cur (servers r ! best_index r) \<le> cur (servers r ! i)"
    if "i < length (servers p)" "0 < cur (servers r ! i)" "cur (servers r ! i) < -1" for i
  proof -
    have "servers r ! i \<in> set (servers r)" using that(1) c(1) by simp
    with best_loop_spec [OF c(2,3)] that show ?thesis by fastforce
  qed
  then have "\<exists>r. check_once checks p = Ok r \<and> length (servers r) = length (servers p)
    \<and> best_index r < length (servers p)
    \<and> (\<forall>i < length (servers p).
        latency (servers r ! i) = Ok (case snd (checks i) of Ok score \<Rightarrow> score | _ \<Rightarrow> 0))
    \<and> (\<forall>i < length (servers p). \<forall>l. latency (servers r ! i) = Ok l \<and> 0 < l \<and> l < -1 \<longrightarrow>
        (\<exists>b. latency (servers r ! best_index r) = Ok b \<and> 0 < b \<and> b \<le> l))"
    using r(1) c(1,4) bi lat by (intro exI [of _ r]) (simp add: check_score_def)
  with False show ?thesis by (simp only: if_False)
qed

theorem check_once_selects_fastest_witness:
  "\<exists>r b. check_once (\<lambda>i. (0, Ok (if i = 0 then 50 else 30))) (Peers_new [Server_new demo_config, Server_new demo_config]) = Ok r
     \<and> latency (servers r ! best_index r) = Ok b \<and> 0 < b \<and> b \<le> 30"
proof -
  let ?p = "Peers_new [Server_new demo_config, Server_new demo_config]" and ?checks = "\<lambda>i :: nat. (0 :: nat, Ok (if i = 0 then 50 else 30))"
  have p: "servers ?p \<noteq> []" "\<forall>s \<in> set (servers ?p). length (sv_latencies s) \<le> 10" "length (servers ?p) = 2"
    by (simp_all add: Peers_new_def Server_new_def)
  from check_once_selects_fastest [OF p(1,2), of ?checks] obtain r where r: "check_once ?checks ?p = Ok r"
    "latency (servers r ! 1) = Ok 30"
    "\<forall>i < 2. \<forall>l. latency (servers r ! i) = Ok l \<and> 0 < l \<and> l < -1 \<longrightarrow>
        (\<exists>b. latency (servers r ! best_index r) = Ok b \<and> 0 < b \<and> b \<le> l)"
    unfolding p(3) by auto
  from r(3) [rule_format, of 1 30] r(2) have "\<exists>b. latency (servers r ! best_index r) = Ok b \<and> 0 < b \<and> b \<le> 30" by simp
  with r(1) show ?thesis by blast
qed

text \<open>
  C33: the history of a server refines a queue of its ten latest measurements: after any sequence of
  pushes it holds the last ten values in order, and the current latency is the last one pushed.
\<close>

theorem history_is_last_ten:
  assumes "vs \<noteq> []"
  shows "map lat_value (sv_latencies (fold (\<lambda>(now, v). push_latency now v) vs (Server_new c)))
      = drop (length vs - 10) (map snd vs)
    \<and> latency (fold (\<lambda>(now, v). push_latency now v) vs (Server_new c)) = Ok (snd (last vs))"
proof -
  let ?s = "fold (\<lambda>(now, v). push_latency now v) vs (Server_new c)"
  have h: "map lat_value (sv_latencies ?s) = drop (length vs - 10) (map snd vs)"
    using push_all_latencies [of "Server_new c" vs] by (simp add: Server_new_def MAX_HISTORY_def keep_last_def)
  then have ne: "sv_latencies ?s \<noteq> []" using assms by (metis drop_eq_Nil2 length_map list.map_disc_iff not_le diff_less length_greater_0_conv zero_less_numeral)
  have "cur ?s = last (map lat_value (sv_latencies ?s))" using ne by (simp add: last_map)
  also have "\<dots> = snd (last vs)" using h assms by (simp add: last_drop last_map)
  finally show ?thesis using h ne by (simp add: latency_def)
qed

theorem history_is_last_ten_witness:
  "map lat_value (sv_latencies (fold (\<lambda>(now, v). push_latency now v)
      [(0, 1), (1, 2), (2, 3), (3, 4), (4, 5), (5, 6), (6, 7), (7, 8), (8, 9), (9, 10), (10, 11)] (Server_new demo_config)))
    = [2, 3, 4, 5, 6, 7, 8, 9, 10, 11]"
  using history_is_last_ten [of "[(0, 1), (1, 2), (2, 3), (3, 4), (4, 5), (5, 6), (6, 7), (7, 8), (8, 9), (9, 10), (10, 11)]" demo_config]
  by simp

text \<open>
  A subscription whose decoded body lists one URL per line, all of them valid, loads exactly the
  servers of these URLs, in order and with an empty history; one URL that does not parse makes the
  whole load fail with its error.
\<close>

lemma subscription_loads:
  assumes "uri_parse H e = Inr uri" and "http_get H uri = Inr (200, \<lparr>body_bytes = body, body_error = None\<rparr>)"
    and "b64_decode H body = Inr (concat (map (\<lambda>u. as_bytes u @ [10]) (urls @ others)))"
    and "list_all url_line (urls @ others)"
    and "list_all2 (\<lambda>u c. from_url L u = Some (Ok c)) urls cs"
  shows "(others = [] \<longrightarrow> load L H e = Some (Ok (map Server_new cs)))
    \<and> (\<forall>err. others \<noteq> [] \<and> from_url L (hd others) = Some (Err err) \<longrightarrow> load L H e = Some (Err (ServerUrl err)))"
proof -
  let ?f = "\<lambda>url. map_option (map_err ServerUrl) (from_url L url)"
  have "fetch L H e = collect_res (map ?f (urls @ others))"
    using assms(1-3) byte_lines_urls [OF assms(4)] by (simp add: fetch_def fetch_body_def to_bytes_def)
  moreover have "collect_res (map ?f (urls @ others)) =
      map_option (map_ok ((@) cs)) (collect_res (map ?f others))"
    using assms(5) unfolding map_append
    by (intro collect_res_append) (auto simp: list_all2_conv_all_nth)
  ultimately show ?thesis
    by (cases others) (auto simp: load_def)
qed

end
