(* ===== verification/CopyBuf.thy ===== *)
theory CopyBuf
  imports TcpAead2022
begin

text \<open>
  \<^verbatim>\<open>lib/shadowsocks/src/tcp/utils.rs\<close>: the future that copies a reader into a writer.  The
  source is generic in \<^verbatim>\<open>AsyncRead\<close> and \<^verbatim>\<open>AsyncWrite\<close>, and so is the model: the poll functions
  are arguments.  What the two traits promise is a locale each; the copy is proved correct once,
  for every reader and writer that keeps these promises.
\<close>

section \<open>The buffer\<close>

record CopyBuffer =
  read_done :: bool
  c_pos :: nat
  c_cap :: nat
  c_amt :: u64
  c_buf :: bytes

definition CopyBuffer_new :: "nat \<Rightarrow> CopyBuffer" where
  "CopyBuffer_new buffer_size =
     \<lparr>read_done = False, c_pos = 0, c_cap = 0, c_amt = 0, c_buf = replicate buffer_size 0\<rparr>"

type_synonym 'r reader = "nat \<Rightarrow> 'r \<Rightarrow> (io_error, bytes) poll \<times> 'r"
type_synonym 'w writer = "bytes \<Rightarrow> 'w \<Rightarrow> (io_error, nat) poll \<times> 'w"
type_synonym 'w flusher = "'w \<Rightarrow> (io_error, unit) poll \<times> 'w"

text \<open>
  The three parts of the loop's body: read if the buffer is empty, write what it holds, and
  flush at the end of the input.  A read overwrites a prefix of the buffer.
\<close>

definition fill_buffer :: "'r reader \<Rightarrow> CopyBuffer \<Rightarrow> 'r \<Rightarrow> (io_error, CopyBuffer) poll \<times> 'r" where
  "fill_buffer rd c r =
     (if c_pos c = c_cap c \<and> \<not> read_done c then
        (case rd (length (c_buf c)) r of
           (Pending, r') \<Rightarrow> (Pending, r')
         | (Ready (Err e), r') \<Rightarrow> (Ready (Err e), r')
         | (Ready Panic, r') \<Rightarrow> (Ready Panic, r')
         | (Ready (Ok bs), r') \<Rightarrow>
             (Ready (Ok (if bs = [] then c\<lparr>read_done := True\<rparr>
                         else c\<lparr>c_pos := 0, c_cap := length bs,
                                c_buf := bs @ drop (length bs) (c_buf c)\<rparr>)), r'))
      else (Ready (Ok c), r))"

definition write_zero :: io_error where
  "write_zero = IoError WriteZero ''write zero byte into writer''"

function drain :: "'w writer \<Rightarrow> CopyBuffer \<Rightarrow> 'w \<Rightarrow> (io_error, unit) poll \<times> CopyBuffer \<times> 'w" where
  "drain wr c w =
     (if c_pos c < c_cap c then
        (case wr (drop (c_pos c) (take (c_cap c) (c_buf c))) w of
           (Pending, w') \<Rightarrow> (Pending, c, w')
         | (Ready (Err e), w') \<Rightarrow> (Ready (Err e), c, w')
         | (Ready Panic, w') \<Rightarrow> (Ready Panic, c, w')
         | (Ready (Ok i), w') \<Rightarrow>
             if i = 0 then (Ready (Err write_zero), c, w')
             else drain wr (c\<lparr>c_pos := c_pos c + i, c_amt := c_amt c + of_nat i\<rparr>) w')
      else (Ready (Ok ()), c, w))"
  by pat_completeness auto
termination
  by (relation "measure (\<lambda>(wr, c, w). c_cap c - c_pos c)") auto

declare drain.simps [simp del]

text \<open>The loop itself; \<^const>\<open>None\<close> is a poll that never returns.\<close>

partial_function (option) poll_copy :: "'r reader \<Rightarrow> 'w writer \<Rightarrow> 'w flusher \<Rightarrow> CopyBuffer \<Rightarrow> 'r \<Rightarrow> 'w
    \<Rightarrow> ((io_error, u64) poll \<times> CopyBuffer \<times> 'r \<times> 'w) option" where
  "poll_copy rd wr fl c r w = (case fill_buffer rd c r of
     (Pending, r') \<Rightarrow> Some (Pending, c, r', w)
   | (Ready (Err e), r') \<Rightarrow> Some (Ready (Err e), c, r', w)
   | (Ready Panic, r') \<Rightarrow> Some (Ready Panic, c, r', w)
   | (Ready (Ok c1), r') \<Rightarrow> (case drain wr c1 w of
       (Pending, c2, w') \<Rightarrow> Some (Pending, c2, r', w')
     | (Ready (Err e), c2, w') \<Rightarrow> Some (Ready (Err e), c2, r', w')
     | (Ready Panic, c2, w') \<Rightarrow> Some (Ready Panic, c2, r', w')
     | (Ready (Ok _), c2, w') \<Rightarrow>
         if c_pos c2 = c_cap c2 \<and> read_done c2 then
           (case fl w' of
              (Pending, w'') \<Rightarrow> Some (Pending, c2, r', w'')
            | (Ready (Err e), w'') \<Rightarrow> Some (Ready (Err e), c2, r', w'')
            | (Ready Panic, w'') \<Rightarrow> Some (Ready Panic, c2, r', w'')
            | (Ready (Ok _), w'') \<Rightarrow> Some (Ready (Ok (c_amt c2)), c2, r', w''))
         else poll_copy rd wr fl c2 r' w'))"

text \<open>
  \<^verbatim>\<open>Copy { .. }.await\<close>: the executor polls the future until it is ready, here at most \<open>n\<close> times.
\<close>

fun copy_await :: "nat \<Rightarrow> 'r reader \<Rightarrow> 'w writer \<Rightarrow> 'w flusher \<Rightarrow> CopyBuffer \<Rightarrow> 'r \<Rightarrow> 'w
    \<Rightarrow> ((io_error, u64) res \<times> 'r \<times> 'w) option" where
  "copy_await 0 rd wr fl c r w = None"
| "copy_await (Suc n) rd wr fl c r w = (case poll_copy rd wr fl c r w of
     None \<Rightarrow> None
   | Some (Pending, c', r', w') \<Rightarrow> copy_await n rd wr fl c' r' w'
   | Some (Ready x, c', r', w') \<Rightarrow> Some (x, r', w'))"

text \<open>
  The two entry points differ in the size of the buffer.  The packet limit of AEAD-2022 is the
  constant of \<^verbatim>\<open>tcp/aead2022.rs\<close>.
\<close>

definition from_encrypted_size :: "CipherKind \<Rightarrow> ('e, nat) res" where
  "from_encrypted_size kind = (case category kind of
     Aead \<Rightarrow> map_ok ((+) MAX_PACKET_SIZE) (tag_len kind)
   | Aead2022 \<Rightarrow> map_ok ((+) AEAD2022_MAX_PACKET_SIZE) (tag_len kind))"

definition copy_from_encrypted :: "nat \<Rightarrow> CipherKind \<Rightarrow> 'r reader \<Rightarrow> 'w writer \<Rightarrow> 'w flusher \<Rightarrow> 'r \<Rightarrow> 'w
    \<Rightarrow> ((io_error, u64) res \<times> 'r \<times> 'w) option" where
  "copy_from_encrypted n kind rd wr fl r w = (case from_encrypted_size kind of
     Ok buf_size \<Rightarrow> copy_await n rd wr fl (CopyBuffer_new buf_size) r w
   | Err e \<Rightarrow> Some (Err e, r, w)
   | Panic \<Rightarrow> Some (Panic, r, w))"

definition to_encrypted_size :: "CipherKind \<Rightarrow> nat" where
  "to_encrypted_size kind = (case category kind of Aead \<Rightarrow> MAX_PACKET_SIZE | Aead2022 \<Rightarrow> AEAD2022_MAX_PACKET_SIZE)"

definition copy_to_encrypted :: "nat \<Rightarrow> CipherKind \<Rightarrow> 'r reader \<Rightarrow> 'w writer \<Rightarrow> 'w flusher \<Rightarrow> 'r \<Rightarrow> 'w
    \<Rightarrow> ((io_error, u64) res \<times> 'r \<times> 'w) option" where
  "copy_to_encrypted n kind rd wr fl r w = copy_await n rd wr fl (CopyBuffer_new (to_encrypted_size kind)) r w"

text \<open>A copy keeps what its reader's and its writer's polls keep.\<close>

lemma fill_buffer_keeps:
  assumes "\<And>n r. Q r \<Longrightarrow> Q (snd (rd n r))" and "Q r"
  shows "Q (snd (fill_buffer rd c r))"
  using assms(1) [OF assms(2), of "length (c_buf c)"] assms(2)
  by (auto simp: fill_buffer_def split: prod.splits poll.splits res.splits)

lemma drain_keeps:
  assumes "\<And>b w. Q w \<Longrightarrow> Q (snd (wr b w))" and "Q w"
  shows "Q (snd (snd (drain wr c w)))"
  using assms(2)
proof (induction "c_cap c - c_pos c" arbitrary: c w rule: less_induct)
  case less
  let ?b = "drop (c_pos c) (take (c_cap c) (c_buf c))"
  obtain p w1 where p: "wr ?b w = (p, w1)" by fastforce
  then have Q: "Q w1" using assms(1) [OF less.prems, of ?b] by simp
  then have "Q (snd (snd (drain wr (c\<lparr>c_pos := c_pos c + i, c_amt := c_amt c + of_nat i\<rparr>) w1)))"
    if "c_pos c < c_cap c" "i \<noteq> 0" for i
    using less.hyps that by simp
  with p Q less.prems show ?case by (subst drain.simps) (auto split: poll.splits res.splits)
qed

lemma poll_copy_keeps_reader:
  assumes "poll_copy rd wr fl c r w = Some y" and "\<And>n r. Q r \<Longrightarrow> Q (snd (rd n r))" and "Q r"
  shows "Q (fst (snd (snd y)))"
  using assms
proof (induction rule: poll_copy.raw_induct [rotated 1, consumes 1, case_names copy])
  case (copy pc rd wr fl c r w y)
  from fill_buffer_keeps [of Q rd r c, OF copy(3,4)] copy(2) show ?case
    by (auto split: prod.splits poll.splits res.splits if_splits intro: copy(1) [OF _ copy(3)])
qed

lemma poll_copy_keeps_writer:
  assumes "poll_copy rd wr fl c r w = Some y" and "\<And>b w. Q w \<Longrightarrow> Q (snd (wr b w))"
    and "\<And>w. Q w \<Longrightarrow> Q (snd (fl w))" and "Q w"
  shows "Q (snd (snd (snd y)))"
  using assms
proof (induction rule: poll_copy.raw_induct [rotated 1, consumes 1, case_names copy])
  case (copy pc rd wr fl c r w y)
  show ?case
  proof (cases "fill_buffer rd c r")
    case (Pair p r1)
    show ?thesis
    proof (cases "\<exists>c1. p = Ready (Ok c1)")
      case True
      then obtain c1 where p: "p = Ready (Ok c1)" by blast
      obtain q c2 w2 where q: "drain wr c1 w = (q, c2, w2)" by (metis prod_cases3)
      have Q: "Q w2" using drain_keeps [of Q wr w c1, OF copy(3,5)] q by simp
      from copy(2) Pair p q Q copy(4) [OF Q] show ?thesis
        by (auto split: prod.splits poll.splits res.splits if_splits intro: copy(1) [OF _ copy(3,4)])
    qed (use copy(2,5) Pair in \<open>auto split: poll.splits res.splits\<close>)
  qed
qed

section \<open>What the two traits promise\<close>

text \<open>
  \<open>holds r T\<close>: the reader \<open>r\<close> still has the bytes \<open>T\<close> to deliver.  A poll delivers a prefix
  of them, no bytes only at the end, or is pending; \<open>rdelay\<close> bounds how often it is pending.
\<close>

locale async_reader =
  fixes rd :: "'r reader" and holds :: "'r \<Rightarrow> bytes \<Rightarrow> bool" and rdelay :: "'r \<Rightarrow> nat"
  assumes rd_ok: "holds r T \<Longrightarrow> 0 < cap \<Longrightarrow> rd cap r = (p, r') \<Longrightarrow>
      (p = Pending \<and> holds r' T \<and> rdelay r' < rdelay r)
    \<or> (\<exists>b T'. p = Ready (Ok b) \<and> length b \<le> cap \<and> T = b @ T' \<and> (b = [] \<longrightarrow> T = []) \<and> holds r' T'
         \<and> rdelay r' \<le> rdelay r)"

text \<open>
  \<open>took w d T\<close>: the writer \<open>w\<close> has reported the bytes \<open>T\<close> as written and, if \<open>d\<close> is a buffer, is
  in the middle of writing it.  A pending write has to be repeated with the same buffer; buffers
  are no longer than \<open>room\<close>.
\<close>

locale async_writer =
  fixes wr :: "'w writer" and fl :: "'w flusher" and took :: "'w \<Rightarrow> bytes option \<Rightarrow> bytes \<Rightarrow> bool"
    and wdelay :: "'w \<Rightarrow> nat" and room :: nat
  assumes wr_ok: "took w d T \<Longrightarrow> d = None \<or> d = Some b \<Longrightarrow> b \<noteq> [] \<Longrightarrow> length b \<le> room \<Longrightarrow> wr b w = (p, w') \<Longrightarrow>
      (p = Pending \<and> took w' (Some b) T \<and> wdelay w' < wdelay w)
    \<or> (\<exists>n. p = Ready (Ok n) \<and> 0 < n \<and> n \<le> length b \<and> took w' None (T @ take n b) \<and> wdelay w' \<le> wdelay w)"
  and fl_ok: "took w None T \<Longrightarrow> fl w = (q, w') \<Longrightarrow>
    took w' None T \<and> (q = Pending \<and> wdelay w' < wdelay w \<or> q = Ready (Ok ()) \<and> wdelay w' \<le> wdelay w)"

section \<open>Copying\<close>

definition unwritten :: "CopyBuffer \<Rightarrow> bytes" where
  "unwritten c = drop (c_pos c) (take (c_cap c) (c_buf c))"

definition buf_ok :: "nat \<Rightarrow> CopyBuffer \<Rightarrow> bool" where
  "buf_ok room c \<longleftrightarrow> c_pos c \<le> c_cap c \<and> c_cap c \<le> length (c_buf c) \<and> 0 < length (c_buf c) \<and> length (c_buf c) \<le> room"

text \<open>What was read so far, \<open>X\<close>, is what the writer has taken and what the buffer still holds.\<close>

definition midway :: "('w \<Rightarrow> bytes option \<Rightarrow> bytes \<Rightarrow> bool) \<Rightarrow> CopyBuffer \<Rightarrow> 'w \<Rightarrow> bytes \<Rightarrow> bool" where
  "midway took c w X \<longleftrightarrow> (\<exists>T d. took w d T \<and> X = T @ unwritten c \<and> c_amt c = of_nat (length T)
     \<and> (d = None \<or> d = Some (unwritten c) \<and> unwritten c \<noteq> []))"

lemma unwritten_Nil [simp]: "c_pos c = c_cap c \<Longrightarrow> unwritten c = []"
  by (simp add: unwritten_def)

lemma unwritten_facts:
  assumes "buf_ok room c"
  shows "length (unwritten c) = c_cap c - c_pos c" "length (unwritten c) \<le> room"
  using assms by (auto simp: unwritten_def buf_ok_def)

lemma advance_buffer:
  assumes "buf_ok room c" and "n \<le> length (unwritten c)"
  shows "buf_ok room (c\<lparr>c_pos := c_pos c + n, c_amt := a\<rparr>)"
    and "unwritten (c\<lparr>c_pos := c_pos c + n, c_amt := a\<rparr>) = drop n (unwritten c)"
  using assms by (auto simp: unwritten_def buf_ok_def add.commute)

lemma midway_done: "midway took c w X \<Longrightarrow> c_pos c = c_cap c \<Longrightarrow> took w None X \<and> c_amt c = of_nat (length X)"
  by (auto simp: midway_def)

text \<open>The whole input \<open>Z\<close> is what was read and what the reader still holds.\<close>

definition progress :: "('r \<Rightarrow> bytes \<Rightarrow> bool) \<Rightarrow> ('w \<Rightarrow> bytes option \<Rightarrow> bytes \<Rightarrow> bool) \<Rightarrow> nat \<Rightarrow> CopyBuffer \<Rightarrow> 'r \<Rightarrow> 'w
    \<Rightarrow> bytes \<Rightarrow> bool" where
  "progress holds took room c r w Z \<longleftrightarrow> (\<exists>X U. Z = X @ U \<and> holds r U \<and> midway took c w X \<and> buf_ok room c
     \<and> (read_done c \<longrightarrow> U = []))"

lemma progressI:
  "Z = X @ U \<Longrightarrow> holds r U \<Longrightarrow> midway took c w X \<Longrightarrow> buf_ok room c \<Longrightarrow> (read_done c \<Longrightarrow> U = [])
    \<Longrightarrow> progress holds took room c r w Z"
  by (auto simp: progress_def)

lemma progress_new:
  assumes "holds r Z" and "took w None []" and "0 < sz" and "sz \<le> room"
  shows "progress holds took room (CopyBuffer_new sz) r w Z"
  using assms by (intro progressI [where X = "[]" and U = Z])
    (auto simp: midway_def CopyBuffer_new_def buf_ok_def unwritten_def)

locale async_copy = async_reader rd holds rdelay + async_writer wr fl took wdelay room
  for rd :: "'r reader" and holds :: "'r \<Rightarrow> bytes \<Rightarrow> bool" and rdelay :: "'r \<Rightarrow> nat"
    and wr :: "'w writer" and fl :: "'w flusher" and took :: "'w \<Rightarrow> bytes option \<Rightarrow> bytes \<Rightarrow> bool"
    and wdelay :: "'w \<Rightarrow> nat" and room :: nat
begin

lemma drain_ok:
  assumes "midway took c w X" and "buf_ok room c" and "drain wr c w = (p, c', w')"
  shows "midway took c' w' X \<and> buf_ok room c' \<and> read_done c' = read_done c
    \<and> (p = Pending \<and> wdelay w' < wdelay w \<or> p = Ready (Ok ()) \<and> wdelay w' \<le> wdelay w \<and> c_pos c' = c_cap c')"
  using assms
proof (induction "c_cap c - c_pos c" arbitrary: c w rule: less_induct)
  case less
  show ?case
  proof (cases "c_pos c < c_cap c")
    case True
    from less.prems(1) obtain T d where t: "took w d T" "X = T @ unwritten c" "c_amt c = of_nat (length T)"
      "d = None \<or> d = Some (unwritten c)" by (auto simp: midway_def)
    note len = unwritten_facts [OF less.prems(2)]
    have ne: "unwritten c \<noteq> []" using len(1) True by auto
    obtain q w1 where q: "wr (unwritten c) w = (q, w1)" by fastforce
    from wr_ok [OF t(1,4) ne len(2) q] show ?thesis
    proof (elim disjE exE conjE)
      assume "q = Pending" "took w1 (Some (unwritten c)) T" "wdelay w1 < wdelay w"
      with less.prems(2,3) True q t(2,3) ne show ?thesis
        by (auto simp: drain.simps [of wr c w] midway_def unwritten_def [symmetric])
    next
      fix n
      assume n: "q = Ready (Ok n)" "0 < n" "n \<le> length (unwritten c)" "took w1 None (T @ take n (unwritten c))"
        "wdelay w1 \<le> wdelay w"
      let ?c = "c\<lparr>c_pos := c_pos c + n, c_amt := c_amt c + of_nat n\<rparr>"
      note adv = advance_buffer [OF less.prems(2) n(3), of "c_amt c + of_nat n"]
      have "midway took ?c w1 X" using n(3,4) t(2,3) adv(2)
        by (auto simp: midway_def intro!: exI [of _ "T @ take n (unwritten c)"])
      moreover have "drain wr ?c w1 = (p, c', w')"
        using less.prems(3) True q n(1,2) by (simp add: drain.simps [of wr c w] unwritten_def [symmetric])
      moreover have "c_cap ?c - c_pos ?c < c_cap c - c_pos c" using True n(2) by simp
      ultimately show ?thesis using less.hyps [of ?c w1] adv(1) n(5) by fastforce
    qed
  next
    case False
    with less.prems show ?thesis by (auto simp: drain.simps [of wr c w] buf_ok_def)
  qed
qed

lemma fill_ok:
  assumes "holds r U" and "midway took c w X" and "buf_ok room c" and "read_done c \<longrightarrow> U = []"
    and "fill_buffer rd c r = (p, r')"
  shows "p = Pending \<and> holds r' U \<and> rdelay r' < rdelay r
    \<or> (\<exists>c1 X1 U1. p = Ready (Ok c1) \<and> holds r' U1 \<and> rdelay r' \<le> rdelay r \<and> midway took c1 w X1 \<and> buf_ok room c1
        \<and> X1 @ U1 = X @ U \<and> (read_done c1 \<longrightarrow> U1 = []) \<and> length U1 \<le> length U
        \<and> (\<not> read_done c1 \<longrightarrow> length U1 < length U \<or> c_pos c < c_cap c))"
proof (cases "c_pos c = c_cap c \<and> \<not> read_done c")
  case True
  note fin = midway_done [OF assms(2) conjunct1 [OF True]]
  obtain q r1 where q: "rd (length (c_buf c)) r = (q, r1)" by fastforce
  have "0 < length (c_buf c)" using assms(3) by (simp add: buf_ok_def)
  from rd_ok [OF assms(1) this q] show ?thesis
  proof (elim disjE exE conjE)
    assume "q = Pending" "holds r1 U" "rdelay r1 < rdelay r"
    with True q assms(5) show ?thesis by (auto simp: fill_buffer_def)
  next
    fix b T'
    assume b: "q = Ready (Ok b)" "length b \<le> length (c_buf c)" "U = b @ T'" "b = [] \<longrightarrow> U = []" "holds r1 T'"
      "rdelay r1 \<le> rdelay r"
    show ?thesis
    proof (cases "b = []")
      case nil: True
      have "midway took (c\<lparr>read_done := True\<rparr>) w X" "buf_ok room (c\<lparr>read_done := True\<rparr>)"
        using assms(2,3) by (auto simp: midway_def buf_ok_def unwritten_def)
      with nil b True q assms(5) show ?thesis by (auto simp: fill_buffer_def)
    next
      case False
      let ?c = "c\<lparr>c_pos := 0, c_cap := length b, c_buf := b @ drop (length b) (c_buf c)\<rparr>"
      have "unwritten ?c = b" by (simp add: unwritten_def)
      then have "midway took ?c w (X @ b)" using fin by (auto simp: midway_def)
      moreover have "buf_ok room ?c" using assms(3) b(2) by (auto simp: buf_ok_def)
      moreover have "p = Ready (Ok ?c)" "r' = r1" using False b(1) True q assms(5) by (auto simp: fill_buffer_def)
      moreover have "X @ U = (X @ b) @ T'" "length T' < length U" using False b(3) by auto
      ultimately show ?thesis using True b(5,6)
        by (intro disjI2 exI [of _ ?c] exI [of _ "X @ b"] exI [of _ T']) simp
    qed
  qed
next
  case False
  then have "p = Ready (Ok c)" "r' = r" using assms(5) by (auto simp: fill_buffer_def split: if_splits)
  moreover have "\<not> read_done c \<longrightarrow> c_pos c < c_cap c" using False assms(3) by (auto simp: buf_ok_def)
  ultimately show ?thesis using assms(1-4) by blast
qed

lemma poll_copy_ok:
  assumes "holds r U" and "midway took c w X" and "buf_ok room c" and "read_done c \<longrightarrow> U = []"
  shows "\<exists>p c' r' w'. poll_copy rd wr fl c r w = Some (p, c', r', w') \<and>
    (p = Pending \<and> rdelay r' + wdelay w' < rdelay r + wdelay w \<and> progress holds took room c' r' w' (X @ U)
     \<or> p = Ready (Ok (of_nat (length (X @ U)))) \<and> took w' None (X @ U) \<and> holds r' [])"
  using assms
proof (induction "2 * length U + (if c_pos c < c_cap c then 1 else 0)" arbitrary: c r w U X rule: less_induct)
  case less
  obtain p r1 where p: "fill_buffer rd c r = (p, r1)" by fastforce
  from fill_ok [OF less.prems p] show ?case
  proof (elim disjE exE conjE)
    assume "p = Pending" "holds r1 U" "rdelay r1 < rdelay r"
    with p less.prems show ?thesis by (subst poll_copy.simps) (auto simp: progress_def)
  next
    fix c1 X1 U1
    assume f: "p = Ready (Ok c1)" "holds r1 U1" "rdelay r1 \<le> rdelay r" "midway took c1 w X1" "buf_ok room c1"
      "X1 @ U1 = X @ U" "read_done c1 \<longrightarrow> U1 = []" "length U1 \<le> length U"
      "\<not> read_done c1 \<longrightarrow> length U1 < length U \<or> c_pos c < c_cap c"
    obtain q c2 w2 where q: "drain wr c1 w = (q, c2, w2)" by (metis prod_cases3)
    note d = drain_ok [OF f(4,5) q]
    show ?thesis
    proof (cases "q = Pending")
      case True
      with d f(3) have "rdelay r1 + wdelay w2 < rdelay r + wdelay w" by auto
      moreover have "progress holds took room c2 r1 w2 (X @ U)"
        unfolding progress_def using d f(2,6,7) by metis
      ultimately show ?thesis using p f(1) q True by (subst poll_copy.simps) simp
    next
      case ready: False
      with d have d2: "q = Ready (Ok ())" "wdelay w2 \<le> wdelay w" "c_pos c2 = c_cap c2" "midway took c2 w2 X1"
        "buf_ok room c2" "read_done c2 = read_done c1" by auto
      show ?thesis
      proof (cases "read_done c2")
        case True
        with f(6,7) d2(6) have X: "X1 = X @ U" "U1 = []" by auto
        from midway_done [OF d2(4,3)] X have t: "took w2 None (X @ U)" "c_amt c2 = of_nat (length (X @ U))" by auto
        obtain y w3 where y: "fl w2 = (y, w3)" by fastforce
        from fl_ok [OF t(1) y] show ?thesis
        proof (elim conjE disjE)
          assume "took w3 None (X @ U)" "y = Pending" "wdelay w3 < wdelay w2"
          moreover have "progress holds took room c2 r1 w3 (X @ U)" using calculation(1) t(2) d2(3,5) f(2) X(2)
            by (intro progressI [where X = "X @ U" and U = "[]"]) (auto simp: midway_def)
          ultimately show ?thesis using p f(1,3) q d2(1-3) y True by (subst poll_copy.simps) auto
        next
          assume "took w3 None (X @ U)" "y = Ready (Ok ())"
          then show ?thesis using p f(1,2) q d2(1,3) y True t(2) X(2) by (subst poll_copy.simps) auto
        qed
      next
        case False
        then have "2 * length U1 + (if c_pos c2 < c_cap c2 then 1 else 0)
          < 2 * length U + (if c_pos c < c_cap c then 1 else 0)" using f(8,9) d2(3,6) by auto
        from less.hyps [OF this f(2) d2(4,5)] f(6,7) d2(6) obtain p' c' r' w' where
          "poll_copy rd wr fl c2 r1 w2 = Some (p', c', r', w')"
          "p' = Pending \<and> rdelay r' + wdelay w' < rdelay r1 + wdelay w2 \<and> progress holds took room c' r' w' (X @ U)
           \<or> p' = Ready (Ok (of_nat (length (X @ U)))) \<and> took w' None (X @ U) \<and> holds r' []" by auto
        moreover have "poll_copy rd wr fl c r w = poll_copy rd wr fl c2 r1 w2"
          using p f(1) q d2(1) False by (subst poll_copy.simps) simp
        ultimately show ?thesis using f(3) d2(2) by auto
      qed
    qed
  qed
qed

lemma poll_copy_progress:
  assumes "progress holds took room c r w Z"
  obtains (pending) c' r' w' where "poll_copy rd wr fl c r w = Some (Pending, c', r', w')"
      "rdelay r' + wdelay w' < rdelay r + wdelay w" "progress holds took room c' r' w' Z"
  | (ready) c' r' w' where "poll_copy rd wr fl c r w = Some (Ready (Ok (of_nat (length Z))), c', r', w')"
      "took w' None Z" "holds r' []"
proof -
  from assms obtain X U where "Z = X @ U" "holds r U" "midway took c w X" "buf_ok room c" "read_done c \<longrightarrow> U = []"
    by (auto simp: progress_def)
  with poll_copy_ok [of r U c w X] show thesis by (metis pending ready)
qed

lemma copy_await_ok:
  assumes "progress holds took room c r w Z" and "rdelay r + wdelay w < n"
  shows "\<exists>r' w'. copy_await n rd wr fl c r w = Some (Ok (of_nat (length Z)), r', w') \<and> took w' None Z \<and> holds r' []"
  using assms
proof (induction n arbitrary: c r w)
  case (Suc n)
  from Suc.prems(1) show ?case
  proof (cases rule: poll_copy_progress)
    case (pending c' r' w')
    with Suc.IH [of c' r' w'] Suc.prems(2) show ?thesis by auto
  qed simp
qed simp

end

section \<open>Sockets keep the promises\<close>

text \<open>Flushing a TCP socket does nothing.\<close>

definition poll_flush :: "wsocket flusher" where
  "poll_flush s = (Ready (Ok ()), s)"

lemma sock_read_good:
  assumes "good_events es" and "0 < cap" and "poll_read cap es = (p, es')"
  shows "good_events es' \<and> (p = Pending \<and> stream_data es' = stream_data es \<and> length es' < length es
    \<or> (\<exists>b. p = Ready (Ok b) \<and> length b \<le> cap \<and> stream_data es = b @ stream_data es' \<and> (b = [] \<longrightarrow> stream_data es = [])
         \<and> length es' \<le> length es))"
  using assms by (cases "(cap, es)" rule: poll_read.cases) (auto simp: good_events_def split: if_splits)

interpretation sock_reader: async_reader poll_read "\<lambda>es T. good_events es \<and> stream_data es = T" length
  by unfold_locales (use sock_read_good in blast)

interpretation sock_writer: async_writer poll_write poll_flush "\<lambda>s d T. good_grants s \<and> sent s = T"
    "\<lambda>s. length (grants s)" room for room
proof (unfold_locales, goal_cases)
  case (1 w d T b p w')
  then show ?case using poll_write_good [of w b p w'] poll_write_grants [of b w p w'] by auto
qed (auto simp: poll_flush_def)

interpretation sock_copy: async_copy poll_read "\<lambda>es T. good_events es \<and> stream_data es = T" length
    poll_write poll_flush "\<lambda>s d T. good_grants s \<and> sent s = T" "\<lambda>s. length (grants s)" room for room
  by unfold_locales

end
