(* ===== verification/TcpProxy.thy ===== *)
theory TcpProxy
  imports CopyBuf Address SsConfig SysNet
begin

text \<open>
  \<^verbatim>\<open>lib/shadowsocks/src/tcp/crypto.rs\<close> and \<^verbatim>\<open>tcp/proxy.rs\<close>: the two-way encrypted stream and the
  client's connection to a shadowsocks server on top of it.  \<^verbatim>\<open>CryptoStream::from_stream\<close> asks for
  the salt length first, which panics for the AEAD-2022 methods, so a stream that exists uses the reader
  and the writer of \<^verbatim>\<open>tcp/aead.rs\<close>.  The clock is a function of the state of the socket, which every poll
  changes; shutting the socket down is a parameter.
\<close>

section \<open>The encrypted stream\<close>

datatype TcpProtocolError = ProtocolIo io_error | ProtocolAead TcpAeadError | ProtocolAead2022 TcpAead2022Error

fun TcpProtocolError_into_io :: "TcpProtocolError \<Rightarrow> io_error" where
  "TcpProtocolError_into_io (ProtocolIo e) = e"
| "TcpProtocolError_into_io (ProtocolAead e) = TcpAeadError_into_io e"
| "TcpProtocolError_into_io (ProtocolAead2022 e) = TcpAead2022Error_into_io e"

fun poll_err :: "('e \<Rightarrow> 'f) \<Rightarrow> ('e, 'a) poll \<Rightarrow> ('f, 'a) poll" where
  "poll_err h Pending = Pending"
| "poll_err h (Ready x) = Ready (map_err h x)"

lemma poll_err_Ready [simp]:
  "poll_err h p = Ready (Ok b) \<longleftrightarrow> p = Ready (Ok b)" "poll_err h p = Pending \<longleftrightarrow> p = Pending"
  by (cases p; auto)+

datatype TcpDecryptedReader = DecAead DecryptedReader | DecAead2022 DecryptedReader_2022

definition TcpDecryptedReader_new :: "CipherKind \<Rightarrow> bytes \<Rightarrow> ('e, TcpDecryptedReader) res" where
  "TcpDecryptedReader_new kind key = (case category kind of
     Aead \<Rightarrow> map_ok DecAead (DecryptedReader_new kind key)
   | Aead2022 \<Rightarrow> Ok (DecAead2022 (DecryptedReader_2022_new kind key)))"

fun user_key :: "TcpDecryptedReader \<Rightarrow> bytes option" where
  "user_key (DecAead r) = None"
| "user_key (DecAead2022 r) = d_user_key r"

fun request_nonce :: "TcpDecryptedReader \<Rightarrow> bytes option" where
  "request_nonce (DecAead r) = None"
| "request_nonce (DecAead2022 r) = request_salt_2022 r"

fun dec_poll_read :: "crypto_prims \<Rightarrow> u64 \<Rightarrow> nat \<Rightarrow> TcpDecryptedReader \<Rightarrow> read_event list
    \<Rightarrow> (TcpProtocolError, bytes) poll \<times> TcpDecryptedReader \<times> read_event list" where
  "dec_poll_read P now cap (DecAead r) es = (case poll_read_decrypted P cap r es of
     (p, r, es) \<Rightarrow> (poll_err ProtocolAead p, DecAead r, es))"
| "dec_poll_read P now cap (DecAead2022 r) es = (case poll_read_decrypted_2022 P now cap r es of
     (p, r, es) \<Rightarrow> (poll_err ProtocolAead2022 p, DecAead2022 r, es))"

fun dec_handshaked :: "TcpDecryptedReader \<Rightarrow> bool" where
  "dec_handshaked (DecAead r) = r_handshaked r"
| "dec_handshaked (DecAead2022 r) = d_handshaked r"

datatype TcpEncryptedWriter = EncAead EncryptedWriter | EncAead2022 EncryptedWriter_2022

definition TcpEncryptedWriter_new :: "crypto_prims \<Rightarrow> block_prims \<Rightarrow> CipherKind \<Rightarrow> bytes \<Rightarrow> bytes \<Rightarrow> bytes list
    \<Rightarrow> ('e, TcpEncryptedWriter) res" where
  "TcpEncryptedWriter_new P B kind key iv identity_keys = (case category kind of
     Aead \<Rightarrow> map_ok EncAead (EncryptedWriter_new P kind key iv)
   | Aead2022 \<Rightarrow> map_ok EncAead2022 (with_identity P B kind key iv identity_keys))"

fun enc_nonce :: "TcpEncryptedWriter \<Rightarrow> bytes" where
  "enc_nonce (EncAead w) = w_salt w"
| "enc_nonce (EncAead2022 w) = e_salt w"

fun reset_cipher_with_key :: "crypto_prims \<Rightarrow> TcpEncryptedWriter \<Rightarrow> bytes \<Rightarrow> ('e, TcpEncryptedWriter) res" where
  "reset_cipher_with_key P (EncAead2022 w) key = map_ok EncAead2022 (reset_cipher_with_key_2022 P key w)"
| "reset_cipher_with_key P (EncAead w) key = Panic"

fun enc_poll_write :: "crypto_prims \<Rightarrow> u64 \<Rightarrow> TcpEncryptedWriter \<Rightarrow> wsocket \<Rightarrow> bytes
    \<Rightarrow> (TcpProtocolError, nat) poll \<times> TcpEncryptedWriter \<times> wsocket" where
  "enc_poll_write P now (EncAead w) s buf = (case poll_write_encrypted P w s buf of
     (p, w, s) \<Rightarrow> (poll_err ProtocolIo p, EncAead w, s))"
| "enc_poll_write P now (EncAead2022 w) s buf = (case poll_write_encrypted_2022 P now w s buf of
     (p, w, s) \<Rightarrow> (poll_err ProtocolIo p, EncAead2022 w, s))"

record CryptoStream =
  cs_in :: "read_event list"
  cs_out :: wsocket
  cs_dec :: TcpDecryptedReader
  cs_enc :: TcpEncryptedWriter
  cs_kind :: CipherKind
  cs_handshaked :: bool

type_synonym clock = "read_event list \<times> wsocket \<Rightarrow> u64"

abbreviation now_at :: "clock \<Rightarrow> CryptoStream \<Rightarrow> u64" where
  "now_at clk cs \<equiv> clk (cs_in cs, cs_out cs)"

definition current_data_chunk_remaining :: "CryptoStream \<Rightarrow> ('e, u64 \<times> nat) res" where
  "current_data_chunk_remaining cs = (case cs_dec cs of
     DecAead2022 dec \<Rightarrow> Ok (current_data_chunk_remaining_2022 dec)
   | DecAead _ \<Rightarrow> Panic)"

definition sent_nonce :: "CryptoStream \<Rightarrow> bytes" where
  "sent_nonce cs = enc_nonce (cs_enc cs)"

definition received_request_nonce :: "CryptoStream \<Rightarrow> bytes option" where
  "received_request_nonce cs = request_nonce (cs_dec cs)"

text \<open>
  The salt is drawn from the random source, from its \<open>j\<close>-th draw on; \<^const>\<open>None\<close> stands for a
  source that gives zeros forever.
\<close>

definition from_stream :: "crypto_prims \<Rightarrow> block_prims \<Rightarrow> (nat \<Rightarrow> nat \<Rightarrow> bytes) \<Rightarrow> nat \<Rightarrow> read_event list \<times> wsocket
    \<Rightarrow> CipherKind \<Rightarrow> bytes \<Rightarrow> ('e, CryptoStream) res option" where
  "from_stream P B rng j stream kind key = (case salt_len kind of
     Ok prev_len \<Rightarrow> (case generate_nonce rng j kind (replicate prev_len 0) of
        None \<Rightarrow> None
      | Some iv \<Rightarrow> Some (
          bind_res (TcpDecryptedReader_new kind key) (\<lambda>dec.
          bind_res (TcpEncryptedWriter_new P B kind key iv []) (\<lambda>enc.
          Ok \<lparr>cs_in = fst stream, cs_out = snd stream, cs_dec = dec, cs_enc = enc, cs_kind = kind,
              cs_handshaked = False\<rparr>))))
   | Err e \<Rightarrow> Some (Err e)
   | Panic \<Rightarrow> Some Panic)"

definition CryptoStream_poll_read :: "crypto_prims \<Rightarrow> clock \<Rightarrow> nat \<Rightarrow> CryptoStream
    \<Rightarrow> (TcpProtocolError, bytes) poll \<times> CryptoStream" where
  "CryptoStream_poll_read P clk cap cs = (case dec_poll_read P (now_at clk cs) cap (cs_dec cs) (cs_in cs) of
     (Pending, r, es) \<Rightarrow> (Pending, cs\<lparr>cs_dec := r, cs_in := es\<rparr>)
   | (Ready (Err e), r, es) \<Rightarrow> (Ready (Err e), cs\<lparr>cs_dec := r, cs_in := es\<rparr>)
   | (Ready Panic, r, es) \<Rightarrow> (Ready Panic, cs\<lparr>cs_dec := r, cs_in := es\<rparr>)
   | (Ready (Ok b), r, es) \<Rightarrow>
       (let cs = cs\<lparr>cs_dec := r, cs_in := es\<rparr> in
        if \<not> cs_handshaked cs \<and> dec_handshaked r then
          (let cs = cs\<lparr>cs_handshaked := True\<rparr> in
           case user_key r of
             Some key \<Rightarrow> (case reset_cipher_with_key P (cs_enc cs) key of
                Ok enc \<Rightarrow> (Ready (Ok b), cs\<lparr>cs_enc := enc\<rparr>)
              | Err e \<Rightarrow> (Ready (Err e), cs)
              | Panic \<Rightarrow> (Ready Panic, cs))
           | None \<Rightarrow> (Ready (Ok b), cs))
        else (Ready (Ok b), cs)))"

definition CryptoStream_poll_write :: "crypto_prims \<Rightarrow> clock \<Rightarrow> CryptoStream \<Rightarrow> bytes
    \<Rightarrow> (TcpProtocolError, nat) poll \<times> CryptoStream" where
  "CryptoStream_poll_write P clk cs buf = (case enc_poll_write P (now_at clk cs) (cs_enc cs) (cs_out cs) buf of
     (p, w, s) \<Rightarrow> (p, cs\<lparr>cs_enc := w, cs_out := s\<rparr>))"

definition CryptoStream_poll_flush :: "CryptoStream \<Rightarrow> (TcpProtocolError, unit) poll \<times> CryptoStream" where
  "CryptoStream_poll_flush cs = (case poll_flush (cs_out cs) of
     (p, s) \<Rightarrow> (poll_err ProtocolIo p, cs\<lparr>cs_out := s\<rparr>))"

definition CryptoStream_poll_shutdown :: "(wsocket \<Rightarrow> (io_error, unit) poll \<times> wsocket) \<Rightarrow> CryptoStream
    \<Rightarrow> (TcpProtocolError, unit) poll \<times> CryptoStream" where
  "CryptoStream_poll_shutdown shut cs = (case shut (cs_out cs) of
     (p, s) \<Rightarrow> (poll_err ProtocolIo p, cs\<lparr>cs_out := s\<rparr>))"

section \<open>The client's stream\<close>

datatype WriteState = WConnect Address | WConnecting bytes | WConnected

datatype ReadState = Established | CheckRequestNonce

record ProxyStream =
  ps_stream :: CryptoStream
  ps_read :: ReadState
  ps_write :: WriteState

text \<open>
  \<^verbatim>\<open>advance_mut\<close> exposes padding bytes without writing them; they are the argument \<open>junk\<close>.
\<close>

definition make_first_packet_buffer :: "nat \<Rightarrow> (nat \<Rightarrow> bytes) \<Rightarrow> CipherKind \<Rightarrow> Address \<Rightarrow> bytes \<Rightarrow> ('e, bytes) res" where
  "make_first_packet_buffer rnd junk kind addr buf =
     (let padding_size = get_aead_2022_padding_size rnd buf in
      bind_res (write_to_buf addr []) (\<lambda>buffer.
      let buffer = (if is_aead2022 kind
            then buffer @ be16 (of_nat padding_size) @ (if padding_size > 0 then junk padding_size else [])
            else buffer) in
      Ok (buffer @ buf)))"

definition dial :: "kernel \<Rightarrow> (SocketAddr \<Rightarrow> read_event list \<times> wsocket) \<Rightarrow> (string \<Rightarrow> u16 \<Rightarrow> (io_error, SocketAddr) res)
    \<Rightarrow> ServerConfig \<Rightarrow> ConnectOpts \<Rightarrow> (io_error, read_event list \<times> wsocket) res" where
  "dial sys peer resolve conf opts =
     bind_res (case sc_addr conf of
         SocketAddress addr \<Rightarrow> Ok addr
       | DomainNameAddress domain port \<Rightarrow> resolve domain port)
     (\<lambda>addr. map_ok (\<lambda>_. peer addr) (fst (connect_server_with_opts sys addr opts [])))"

definition connect :: "crypto_prims \<Rightarrow> block_prims \<Rightarrow> (nat \<Rightarrow> nat \<Rightarrow> bytes) \<Rightarrow> nat \<Rightarrow> kernel
    \<Rightarrow> (SocketAddr \<Rightarrow> read_event list \<times> wsocket) \<Rightarrow> (string \<Rightarrow> u16 \<Rightarrow> (io_error, SocketAddr) res)
    \<Rightarrow> ServerConfig \<Rightarrow> Address \<Rightarrow> ConnectOpts \<Rightarrow> (io_error, ProxyStream) res option" where
  "connect P B rng j sys peer resolve conf target_addr opts =
     (case dial sys peer resolve conf opts of
        Ok stream \<Rightarrow> map_option (map_ok (\<lambda>cs.
            \<lparr>ps_stream = cs,
             ps_read = (if is_aead2022 (sc_method conf) then CheckRequestNonce else Established),
             ps_write = WConnect target_addr\<rparr>))
          (from_stream P B rng j stream (sc_method conf) (sc_enc_key conf))
      | Err e \<Rightarrow> Some (Err e)
      | Panic \<Rightarrow> Some Panic)"

definition nonce_mismatch :: io_error where
  "nonce_mismatch = IoError Other ''received TCP response header with unmatched salt''"

definition ProxyStream_poll_read :: "crypto_prims \<Rightarrow> clock \<Rightarrow> ProxyStream reader" where
  "ProxyStream_poll_read P clk cap ps = (case CryptoStream_poll_read P clk cap (ps_stream ps) of
     (Pending, cs) \<Rightarrow> (Pending, ps\<lparr>ps_stream := cs\<rparr>)
   | (Ready (Err e), cs) \<Rightarrow> (Ready (Err (TcpProtocolError_into_io e)), ps\<lparr>ps_stream := cs\<rparr>)
   | (Ready Panic, cs) \<Rightarrow> (Ready Panic, ps\<lparr>ps_stream := cs\<rparr>)
   | (Ready (Ok b), cs) \<Rightarrow> (case ps_read ps of
       Established \<Rightarrow> (Ready (Ok b), ps\<lparr>ps_stream := cs\<rparr>)
     | CheckRequestNonce \<Rightarrow> (case current_data_chunk_remaining cs of
         Ok (data_chunk_count, _) \<Rightarrow>
           if data_chunk_count > 0 then
             (let sent = (if sent_nonce cs = [] then None else Some (sent_nonce cs)) in
              if sent \<noteq> received_request_nonce cs then (Ready (Err nonce_mismatch), ps\<lparr>ps_stream := cs\<rparr>)
              else (Ready (Ok b), ps\<lparr>ps_stream := cs, ps_read := Established\<rparr>))
           else (Ready (Ok b), ps\<lparr>ps_stream := cs\<rparr>)
       | Err e \<Rightarrow> (Ready (Err e), ps\<lparr>ps_stream := cs\<rparr>)
       | Panic \<Rightarrow> (Ready Panic, ps\<lparr>ps_stream := cs\<rparr>))))"

text \<open>
  The loop of \<^verbatim>\<open>poll_write\<close> goes from \<^verbatim>\<open>Connect\<close> to \<^verbatim>\<open>Connecting\<close> without leaving, so a second
  round is its last.
\<close>

definition write_round :: "crypto_prims \<Rightarrow> clock \<Rightarrow> ProxyStream \<Rightarrow> bytes \<Rightarrow> bytes \<Rightarrow> (io_error, nat) poll \<times> ProxyStream" where
  "write_round P clk ps buffer buf = (case CryptoStream_poll_write P clk (ps_stream ps) buffer of
     (Pending, cs) \<Rightarrow> (Pending, ps\<lparr>ps_stream := cs\<rparr>)
   | (Ready (Err e), cs) \<Rightarrow> (Ready (Err (TcpProtocolError_into_io e)), ps\<lparr>ps_stream := cs\<rparr>)
   | (Ready Panic, cs) \<Rightarrow> (Ready Panic, ps\<lparr>ps_stream := cs\<rparr>)
   | (Ready (Ok n), cs) \<Rightarrow> (Ready (Ok (length buf)), ps\<lparr>ps_stream := cs, ps_write := WConnected\<rparr>))"

definition ProxyStream_poll_write :: "crypto_prims \<Rightarrow> clock \<Rightarrow> nat \<Rightarrow> (nat \<Rightarrow> bytes) \<Rightarrow> ProxyStream writer" where
  "ProxyStream_poll_write P clk rnd junk buf ps = (case ps_write ps of
     WConnect addr \<Rightarrow> (case make_first_packet_buffer rnd junk (cs_kind (ps_stream ps)) addr buf of
        Ok buffer \<Rightarrow> write_round P clk (ps\<lparr>ps_write := WConnecting buffer\<rparr>) buffer buf
      | Err e \<Rightarrow> (Ready (Err e), ps)
      | Panic \<Rightarrow> (Ready Panic, ps))
   | WConnecting buffer \<Rightarrow> write_round P clk ps buffer buf
   | WConnected \<Rightarrow> (case CryptoStream_poll_write P clk (ps_stream ps) buf of
        (Pending, cs) \<Rightarrow> (Pending, ps\<lparr>ps_stream := cs\<rparr>)
      | (Ready x, cs) \<Rightarrow> (Ready (map_err TcpProtocolError_into_io x), ps\<lparr>ps_stream := cs\<rparr>)))"

definition ProxyStream_poll_flush :: "ProxyStream flusher" where
  "ProxyStream_poll_flush ps = (case CryptoStream_poll_flush (ps_stream ps) of
     (Pending, cs) \<Rightarrow> (Pending, ps\<lparr>ps_stream := cs\<rparr>)
   | (Ready x, cs) \<Rightarrow> (Ready (map_err TcpProtocolError_into_io x), ps\<lparr>ps_stream := cs\<rparr>))"

definition ProxyStream_poll_shutdown :: "(wsocket \<Rightarrow> (io_error, unit) poll \<times> wsocket) \<Rightarrow> ProxyStream flusher" where
  "ProxyStream_poll_shutdown shut ps = (case CryptoStream_poll_shutdown shut (ps_stream ps) of
     (p, cs) \<Rightarrow> (poll_err TcpProtocolError_into_io p, ps\<lparr>ps_stream := cs\<rparr>))"

text \<open>
  \<^verbatim>\<open>proxy\<close>: both directions are copied, each polled in turn, until the first of them is done.
  The two halves of the stream share its state.
\<close>

fun proxy_select :: "nat \<Rightarrow> crypto_prims \<Rightarrow> clock \<Rightarrow> nat \<Rightarrow> (nat \<Rightarrow> bytes) \<Rightarrow> CopyBuffer \<Rightarrow> CopyBuffer \<Rightarrow> read_event list \<Rightarrow> ProxyStream
    \<Rightarrow> wsocket \<Rightarrow> ((io_error, unit) res \<times> read_event list \<times> ProxyStream \<times> wsocket) option" where
  "proxy_select 0 P clk rnd junk l2p p2l lr ps lw = None"
| "proxy_select (Suc n) P clk rnd junk l2p p2l lr ps lw =
     (case poll_copy poll_read (ProxyStream_poll_write P clk rnd junk) ProxyStream_poll_flush l2p lr ps of
        None \<Rightarrow> None
      | Some (Ready x, l2p, lr, ps) \<Rightarrow> Some (map_ok (\<lambda>_. ()) x, lr, ps, lw)
      | Some (Pending, l2p, lr, ps) \<Rightarrow>
          (case poll_copy (ProxyStream_poll_read P clk) poll_write poll_flush p2l ps lw of
             None \<Rightarrow> None
           | Some (Ready x, p2l, ps, lw) \<Rightarrow> Some (map_ok (\<lambda>_. ()) x, lr, ps, lw)
           | Some (Pending, p2l, ps, lw) \<Rightarrow> proxy_select n P clk rnd junk l2p p2l lr ps lw))"

definition proxy :: "nat \<Rightarrow> crypto_prims \<Rightarrow> clock \<Rightarrow> nat \<Rightarrow> (nat \<Rightarrow> bytes) \<Rightarrow> ProxyStream \<Rightarrow> read_event list \<Rightarrow> wsocket
    \<Rightarrow> ((io_error, unit) res \<times> read_event list \<times> ProxyStream \<times> wsocket) option" where
  "proxy n P clk rnd junk ps lr lw =
     (let kind = cs_kind (ps_stream ps) in
      case (to_encrypted_size kind, from_encrypted_size kind) of
        (up, Ok down) \<Rightarrow> proxy_select n P clk rnd junk (CopyBuffer_new up) (CopyBuffer_new down) lr ps lw
      | (up, Err e) \<Rightarrow> Some (Err e, lr, ps, lw)
      | (up, Panic) \<Rightarrow> Some (Panic, lr, ps, lw))"

section \<open>The writing half\<close>

text \<open>
  What the encrypting writer \<open>w\<close> with socket \<open>s\<close> has done: the packets \<open>ds\<close> are finished and, if
  \<open>d\<close> is a buffer, the packet for it is on its way.
\<close>

fun enc_inv :: "crypto_prims \<Rightarrow> Cipher \<Rightarrow> bytes \<Rightarrow> EncryptedWriter \<Rightarrow> wsocket \<Rightarrow> bytes option \<Rightarrow> bytes list \<Rightarrow> bool" where
  "enc_inv P ci salt w s None ds \<longleftrightarrow> good_grants s \<and> packets ds \<and> w_state w = AssemblePacket
     \<and> w_cipher w = after_frames ci ds \<and> sent s @ w_buffer w = salt @ frames P ci ds"
| "enc_inv P ci salt w s (Some b) ds \<longleftrightarrow> good_grants s \<and> packets ds
     \<and> w_cipher w = after_frames ci (ds @ [b])
     \<and> (\<exists>pos. w_state w = Writing pos \<and> pos \<le> length (w_buffer w)
         \<and> sent s @ drop pos (w_buffer w) = salt @ frames P ci (ds @ [take MAX_PACKET_SIZE b]))"

lemma finish_write_inv:
  assumes "good_grants s" and "packets ds" and "w_cipher w = after_frames ci (ds @ [b])" and "pos \<le> length (w_buffer w)"
    and "sent s @ drop pos (w_buffer w) = salt @ frames P ci (ds @ [take MAX_PACKET_SIZE b])"
    and "finish_write w s buf pos = (p, w', s')"
  shows "p = Pending \<and> enc_inv P ci salt w' s' (Some b) ds \<and> length (grants s') < length (grants s)
    \<or> p = Ready (Ok (length buf)) \<and> enc_inv P ci salt w' s' None (ds @ [take MAX_PACKET_SIZE b])
       \<and> w_buffer w' = [] \<and> length (grants s') \<le> length (grants s)"
proof -
  obtain q pos' s1 where l: "write_loop (w_buffer w) pos s = (q, pos', s1)" by (metis prod_cases3)
  note g = write_loop_good [OF assms(1,4) l] and gr = write_loop_grants [OF l]
  show ?thesis
  proof (cases "q = Pending")
    case True
    with l assms(6) have "p = Pending" "w' = w\<lparr>w_state := Writing pos'\<rparr>" "s' = s1" by (auto simp: finish_write_def)
    with g gr True assms(2,3,5) show ?thesis by auto
  next
    case False
    with g have "q = Ready (Ok ())" by blast
    with l assms(6) have "p = Ready (Ok (length buf))" "w' = w\<lparr>w_state := AssemblePacket, w_buffer := []\<rparr>" "s' = s1"
      by (auto simp: finish_write_def)
    with g gr False assms(2,3,5) show ?thesis by (auto simp: packets_def after_frames_append)
  qed
qed

lemma poll_write_encrypted_inv:
  assumes "aead_law P" and "cipher_wf ci" and "enc_inv P ci salt w s d ds" and "d = None \<or> d = Some b"
    and "poll_write_encrypted P w s b = (p, w', s')"
  shows "p = Pending \<and> enc_inv P ci salt w' s' (Some b) ds \<and> length (grants s') < length (grants s)
    \<or> p = Ready (Ok (min (length b) MAX_PACKET_SIZE)) \<and> enc_inv P ci salt w' s' None (ds @ [take MAX_PACKET_SIZE b])
       \<and> w_buffer w' = [] \<and> length (grants s') \<le> length (grants s)"
proof -
  let ?b = "take MAX_PACKET_SIZE b"
  have cut: "(if length b > MAX_PACKET_SIZE then take MAX_PACKET_SIZE b else b) = ?b" by simp
  show ?thesis
  proof (cases d)
    case None
    with assms(3) have inv: "good_grants s" "packets ds" "w_state w = AssemblePacket" "w_cipher w = after_frames ci ds"
      "sent s @ w_buffer w = salt @ frames P ci ds" by auto
    let ?w = "w\<lparr>w_cipher := increase_nonce (increase_nonce (w_cipher w)),
      w_buffer := w_buffer w @ frame P (w_cipher w) ?b, w_state := Writing 0\<rparr>"
    have "cipher_wf (w_cipher w)" using inv(4) after_frames_wf [OF assms(2)] by simp
    then have "assemble_packet P w ?b = Ok ?w" using assemble_packet_frame [OF assms(1)] by simp
    with assms(5) inv(3) have f: "finish_write ?w s ?b 0 = (p, w', s')"
      by (simp add: poll_write_encrypted_def Let_def cut del: take_all_iff)
    have "sent s @ drop 0 (w_buffer ?w) = salt @ frames P ci (ds @ [?b])"
      using inv(4,5) by (simp add: frames_append flip: append_assoc)
    with finish_write_inv [OF inv(1,2) _ _ this f] inv(4) show ?thesis by (simp add: after_frames_append min.commute)
  next
    case (Some x)
    with assms(3,4) obtain pos where inv: "good_grants s" "packets ds" "w_cipher w = after_frames ci (ds @ [b])"
      "pos \<le> length (w_buffer w)" "sent s @ drop pos (w_buffer w) = salt @ frames P ci (ds @ [?b])"
      "w_state w = Writing pos" by auto
    from assms(5) inv(6) have "finish_write w s ?b pos = (p, w', s')"
      by (simp add: poll_write_encrypted_def Let_def cut del: take_all_iff)
    from finish_write_inv [OF inv(1-5) this] show ?thesis by (simp add: min.commute)
  qed
qed

declare enc_inv.simps [simp del]

end
