(* ===== verification/ProxyFlow.thy ===== *)
theory ProxyFlow
  imports TcpProxy
begin

text \<open>
  What the client's connection to a shadowsocks server delivers.  Both halves of
  \<^verbatim>\<open>ProxyStream\<close> keep the promises of \<^verbatim>\<open>CopyBuf\<close>'s reader and writer, each without disturbing the
  other, so the copies in the two directions are correct and so is running them together.
\<close>

section \<open>The writing half of the stream\<close>

text \<open>
  \<open>proxy_took P ci salt addr room ps d T\<close>: the bytes \<open>T\<close> were reported as written.  Nothing was sent
  yet, or the first packet is on its way, or it is out: it starts with the target's address, is
  cut at the packet limit, and the packets after it follow.  Buffers are no longer than \<open>room\<close>.
\<close>

definition first_packet :: "Address \<Rightarrow> bytes \<Rightarrow> bytes" where
  "first_packet addr b = take MAX_PACKET_SIZE (addr_bytes addr @ b)"

definition proxy_took :: "crypto_prims \<Rightarrow> Cipher \<Rightarrow> bytes \<Rightarrow> Address \<Rightarrow> nat \<Rightarrow> ProxyStream \<Rightarrow> bytes option \<Rightarrow> bytes \<Rightarrow> bool" where
  "proxy_took P ci salt addr room ps d T \<longleftrightarrow> aead_law P \<and> cipher_wf ci \<and> addr_wf addr \<and> is_aead (cs_kind (ps_stream ps)) \<and>
     (\<exists>w. cs_enc (ps_stream ps) = EncAead w \<and> (let s = cs_out (ps_stream ps) in case ps_write ps of
        WConnect a \<Rightarrow> a = addr \<and> d = None \<and> T = [] \<and> sent s = [] \<and> enc_inv P ci salt w s None []
      | WConnecting buffer \<Rightarrow> (\<exists>b. d = Some b \<and> length b \<le> room \<and> T = [] \<and> buffer = addr_bytes addr @ b \<and> enc_inv P ci salt w s (Some buffer) [])
      | WConnected \<Rightarrow> (\<exists>b ds. T = b @ concat ds \<and> length b \<le> room \<and> enc_inv P ci salt w s d (first_packet addr b # ds)
          \<and> (d = None \<longrightarrow> w_buffer w = []))))"

lemma took_connected:
  assumes "aead_law P" and "cipher_wf ci" and "addr_wf addr" and "is_aead (cs_kind (ps_stream ps))"
    and "ps_write ps = WConnected" and "T = b @ concat ds" and "length b \<le> room"
    and "cs_enc (ps_stream ps) = EncAead w" and "enc_inv P ci salt w (cs_out (ps_stream ps)) d (first_packet addr b # ds)"
    and "d = None \<Longrightarrow> w_buffer w = []"
  shows "proxy_took P ci salt addr room ps d T"
  using assms by (auto simp: proxy_took_def Let_def)

abbreviation out_delay :: "ProxyStream \<Rightarrow> nat" where
  "out_delay ps \<equiv> length (grants (cs_out (ps_stream ps)))"

lemma max_packet_pos [simp]: "0 < MAX_PACKET_SIZE"
  by (simp add: MAX_PACKET_SIZE_def)

lemma first_packet_buffer:
  assumes "is_aead k" and "addr_wf addr"
  shows "make_first_packet_buffer rnd junk k addr b = Ok (addr_bytes addr @ b)"
  using assms by (auto simp: make_first_packet_buffer_def write_to_buf_addr_bytes is_aead_def is_aead2022_def Let_def)

lemma write_round_took:
  assumes "aead_law P" and "cipher_wf ci" and "addr_wf addr" and "is_aead (cs_kind (ps_stream ps))"
    and "enc_inv P ci salt w0 (cs_out (ps_stream ps)) d []" and "d = None \<or> d = Some (addr_bytes addr @ b)"
    and "ps_write ps = WConnecting (addr_bytes addr @ b)" and "length b \<le> room"
    and "write_round P clk ps (addr_bytes addr @ b) b = (p, ps')" and "cs_enc (ps_stream ps) = EncAead w0"
  shows "p = Pending \<and> proxy_took P ci salt addr room ps' (Some b) [] \<and> out_delay ps' < out_delay ps
    \<or> p = Ready (Ok (length b)) \<and> proxy_took P ci salt addr room ps' None b \<and> out_delay ps' \<le> out_delay ps"
proof -
  obtain q w s where q: "poll_write_encrypted P w0 (cs_out (ps_stream ps)) (addr_bytes addr @ b) = (q, w, s)"
    by (metis prod_cases3)
  from poll_write_encrypted_inv [OF assms(1,2,5,6) q] show ?thesis
  proof (elim disjE conjE)
    assume "q = Pending" "enc_inv P ci salt w s (Some (addr_bytes addr @ b)) []"
      "length (grants s) < out_delay ps"
    with q assms show ?thesis
      by (auto simp: write_round_def CryptoStream_poll_write_def proxy_took_def Let_def)
  next
    assume "q = Ready (Ok (min (length (addr_bytes addr @ b)) MAX_PACKET_SIZE))" "w_buffer w = []"
      "enc_inv P ci salt w s None ([] @ [take MAX_PACKET_SIZE (addr_bytes addr @ b)])" "length (grants s) \<le> out_delay ps"
    with q assms(1-4,8-10) show ?thesis
      by (auto simp: write_round_def CryptoStream_poll_write_def first_packet_def [symmetric] simp del: take_append
          intro!: took_connected [where b = b and ds = "[]"])
  qed
qed

lemma poll_write_took:
  assumes "proxy_took P ci salt addr room ps d T" and "d = None \<or> d = Some b" and "b \<noteq> []" and "length b \<le> room"
    and "ProxyStream_poll_write P clk rnd junk b ps = (p, ps')"
  shows "p = Pending \<and> proxy_took P ci salt addr room ps' (Some b) T \<and> out_delay ps' < out_delay ps
    \<or> (\<exists>n. p = Ready (Ok n) \<and> 0 < n \<and> n \<le> length b \<and> proxy_took P ci salt addr room ps' None (T @ take n b)
         \<and> out_delay ps' \<le> out_delay ps)"
proof -
  from assms(1) have laws: "aead_law P" "cipher_wf ci" "addr_wf addr" "is_aead (cs_kind (ps_stream ps))"
    by (simp_all add: proxy_took_def)
  from assms(1) obtain w where enc: "cs_enc (ps_stream ps) = EncAead w" by (auto simp: proxy_took_def)
  show ?thesis
  proof (cases "ps_write ps")
    case (WConnect a)
    let ?ps = "ps\<lparr>ps_write := WConnecting (addr_bytes addr @ b)\<rparr>"
    from assms(1) WConnect have w: "a = addr" "T = []" "enc_inv P ci salt w (cs_out (ps_stream ps)) None []"
      using enc by (simp_all add: proxy_took_def Let_def)
    with assms(5) WConnect have "write_round P clk ?ps (addr_bytes addr @ b) b = (p, ps')"
      by (simp add: ProxyStream_poll_write_def first_packet_buffer [OF laws(4,3)])
    with write_round_took [OF laws(1-3), of ?ps salt w None b room clk p ps'] laws w enc assms(3,4) show ?thesis by auto
  next
    case (WConnecting buffer)
    from assms(1,2) WConnecting have w: "buffer = addr_bytes addr @ b" "T = []"
      "enc_inv P ci salt w (cs_out (ps_stream ps)) (Some (addr_bytes addr @ b)) []"
      using enc by (auto simp: proxy_took_def Let_def)
    with assms(5) WConnecting have "write_round P clk ps (addr_bytes addr @ b) b = (p, ps')"
      by (simp add: ProxyStream_poll_write_def)
    with write_round_took [OF laws w(3), of b room clk p ps'] WConnecting enc w(1,2) assms(3,4) show ?thesis by auto
  next
    case WConnected
    from assms(1) WConnected obtain b0 ds where w: "T = b0 @ concat ds" "length b0 \<le> room"
      "enc_inv P ci salt w (cs_out (ps_stream ps)) d (first_packet addr b0 # ds)"
      using enc by (auto simp: proxy_took_def Let_def)
    obtain q w' s where q: "poll_write_encrypted P w (cs_out (ps_stream ps)) b = (q, w', s)"
      by (metis prod_cases3)
    from poll_write_encrypted_inv [OF laws(1,2) w(3) assms(2) q] show ?thesis
    proof (elim disjE conjE)
      assume "q = Pending" "enc_inv P ci salt w' s (Some b) (first_packet addr b0 # ds)" "length (grants s) < out_delay ps"
      with q assms(5) laws enc w(1,2) WConnected show ?thesis
        by (auto simp: ProxyStream_poll_write_def CryptoStream_poll_write_def
            intro!: took_connected [where b = b0 and ds = ds])
    next
      assume "q = Ready (Ok (min (length b) MAX_PACKET_SIZE))" "w_buffer w' = []" "length (grants s) \<le> out_delay ps"
        "enc_inv P ci salt w' s None ((first_packet addr b0 # ds) @ [take MAX_PACKET_SIZE b])"
      with q assms(3,5) laws enc w(1,2) WConnected show ?thesis
        by (auto simp: ProxyStream_poll_write_def CryptoStream_poll_write_def min_def
            intro!: took_connected [where b = b0 and ds = "ds @ [take MAX_PACKET_SIZE b]"])
    qed
  qed
qed

lemma poll_flush_same: "ProxyStream_poll_flush ps = (Ready (Ok ()), ps)"
  by (simp add: ProxyStream_poll_flush_def CryptoStream_poll_flush_def poll_flush_def)

interpretation proxy_writer: async_writer "ProxyStream_poll_write P clk rnd junk" ProxyStream_poll_flush
    "proxy_took P ci salt addr room" out_delay room for P clk rnd junk ci salt addr room
  by unfold_locales (use poll_write_took in blast, auto simp: poll_flush_same)

section \<open>The reading half of the stream\<close>

definition proxy_holds :: "crypto_prims \<Rightarrow> CipherKind \<Rightarrow> ProxyStream \<Rightarrow> bytes \<Rightarrow> bool" where
  "proxy_holds P k ps T \<longleftrightarrow> aead_laws P \<and> is_aead k \<and> ps_read ps = Established
     \<and> good_events (cs_in (ps_stream ps)) \<and> (\<exists>r. cs_dec (ps_stream ps) = DecAead r \<and> rd_inv P k r (cs_in (ps_stream ps)) T)"

abbreviation in_delay :: "ProxyStream \<Rightarrow> nat" where
  "in_delay ps \<equiv> length (cs_in (ps_stream ps))"

lemma step_then_Ok: "step_then x f = Inl (Ready (Ok b), r', es') \<Longrightarrow> \<exists>y s t. f y s t = Inl (Ready (Ok b), r', es')"
  by (cases "(x, f)" rule: step_then.cases) auto

lemma reserve_tag_Ok: "reserve_tag n r es \<noteq> Inl (Ready (Ok b), r', es')"
  by (simp add: reserve_tag_def split: res.splits)

lemma read_step_cap: "read_step P cap r es = Inl (Ready (Ok b), r', es') \<Longrightarrow> length b \<le> cap"
  by (auto simp: read_step_def Let_def reserve_tag_Ok split: DecryptReadState.splits if_splits option.splits
      dest!: step_then_Ok)

lemma poll_read_decrypted_cap: "poll_read_decrypted P cap r es = (Ready (Ok b), r', es') \<Longrightarrow> length b \<le> cap"
proof (induction P cap r es rule: poll_read_decrypted.induct)
  case (1 P cap r es)
  then show ?case
    by (subst (asm) (2) poll_read_decrypted.simps) (auto split: sum.splits prod.splits dest: read_step_cap)
qed

lemma CryptoStream_poll_read_eq:
  assumes "cs_dec cs = DecAead r0"
  shows "CryptoStream_poll_read P clk cap cs = (case poll_read_decrypted P cap r0 (cs_in cs) of
     (p, r, es) \<Rightarrow> (poll_err ProtocolAead p,
       cs\<lparr>cs_dec := DecAead r, cs_in := es, cs_handshaked :=
         cs_handshaked cs \<or> r_handshaked r \<and> (\<exists>b. p = Ready (Ok b))\<rparr>))"
  using assms by (cases cs) (auto simp: CryptoStream_poll_read_def Let_def split: prod.splits poll.splits res.splits)

lemma poll_read_holds:
  assumes "proxy_holds P k ps T" and "0 < cap" and "ProxyStream_poll_read P clk cap ps = (p, ps')"
  shows "p = Pending \<and> proxy_holds P k ps' T \<and> in_delay ps' < in_delay ps
    \<or> (\<exists>b T'. p = Ready (Ok b) \<and> length b \<le> cap \<and> T = b @ T' \<and> (b = [] \<longrightarrow> T = []) \<and> proxy_holds P k ps' T'
         \<and> in_delay ps' \<le> in_delay ps)"
proof -
  from assms(1) obtain r0 where h: "aead_laws P" "is_aead k" "ps_read ps = Established" "good_events (cs_in (ps_stream ps))"
    "rd_inv P k r0 (cs_in (ps_stream ps)) T" and dec: "cs_dec (ps_stream ps) = DecAead r0" by (auto simp: proxy_holds_def)
  obtain q r es where q: "poll_read_decrypted P cap r0 (cs_in (ps_stream ps)) = (q, r, es)" by (metis prod_cases3)
  from poll_read_decrypted_ok [OF h(1,2) assms(2) h(4,5)] q
  have ok: "step_ok P k (cs_in (ps_stream ps)) T (Inl (q, r, es))" by simp
  show ?thesis
  proof (cases "q = Pending")
    case True
    with ok assms(3) h(1-3) q show ?thesis
      by (auto simp: step_ok_def ProxyStream_poll_read_def CryptoStream_poll_read_eq [OF dec] proxy_holds_def)
  next
    case False
    with ok obtain b where "q = Ready (Ok b)" by (auto simp: step_ok_def split: poll.splits res.splits)
    with ok assms(3) h(1-3) q poll_read_decrypted_cap [of P cap _ _ b r es] show ?thesis
      by (auto simp: step_ok_def ProxyStream_poll_read_def CryptoStream_poll_read_eq [OF dec] proxy_holds_def)
  qed
qed

interpretation proxy_reader: async_reader "ProxyStream_poll_read P clk" "proxy_holds P k" in_delay for P clk k
  by unfold_locales (use poll_read_holds in blast)

interpretation upload: async_copy poll_read "\<lambda>es T. good_events es \<and> stream_data es = T" length
    "ProxyStream_poll_write P clk rnd junk" ProxyStream_poll_flush "proxy_took P ci salt addr room" out_delay room
    for P clk rnd junk ci salt addr room
  by unfold_locales

interpretation download: async_copy "ProxyStream_poll_read P clk" "proxy_holds P k" in_delay
    poll_write poll_flush "\<lambda>s d T. good_grants s \<and> sent s = T" "\<lambda>s. length (grants s)" room for P clk k room
  by unfold_locales

section \<open>The halves do not disturb each other\<close>

text \<open>Reading changes only the reading half of the state and writing only the other.\<close>

abbreviation reads_aead :: "ProxyStream \<Rightarrow> bool" where
  "reads_aead ps \<equiv> \<exists>r. cs_dec (ps_stream ps) = DecAead r"

lemma poll_read_writes:
  assumes "reads_aead ps"
  shows "ps_write (snd (ProxyStream_poll_read P clk cap ps)) = ps_write ps"
    "cs_out (ps_stream (snd (ProxyStream_poll_read P clk cap ps))) = cs_out (ps_stream ps)"
    "cs_enc (ps_stream (snd (ProxyStream_poll_read P clk cap ps))) = cs_enc (ps_stream ps)"
    "cs_kind (ps_stream (snd (ProxyStream_poll_read P clk cap ps))) = cs_kind (ps_stream ps)"
    "reads_aead (snd (ProxyStream_poll_read P clk cap ps))"
proof -
  from assms obtain r where "cs_dec (ps_stream ps) = DecAead r" by blast
  note eq = CryptoStream_poll_read_eq [OF this]
  show "ps_write (snd (ProxyStream_poll_read P clk cap ps)) = ps_write ps"
    "cs_out (ps_stream (snd (ProxyStream_poll_read P clk cap ps))) = cs_out (ps_stream ps)"
    "cs_enc (ps_stream (snd (ProxyStream_poll_read P clk cap ps))) = cs_enc (ps_stream ps)"
    "cs_kind (ps_stream (snd (ProxyStream_poll_read P clk cap ps))) = cs_kind (ps_stream ps)"
    "reads_aead (snd (ProxyStream_poll_read P clk cap ps))"
    by (auto simp: ProxyStream_poll_read_def eq current_data_chunk_remaining_def
        split: prod.splits poll.splits res.splits ReadState.splits)
qed

lemma poll_read_took:
  "reads_aead ps \<Longrightarrow> proxy_took P' ci salt addr room (snd (ProxyStream_poll_read P clk cap ps)) = proxy_took P' ci salt addr room ps"
  by (intro ext) (simp add: proxy_took_def poll_read_writes)

lemma write_round_reads:
  "ps_read (snd (write_round P clk ps a b)) = ps_read ps"
  "cs_in (ps_stream (snd (write_round P clk ps a b))) = cs_in (ps_stream ps)"
  "cs_dec (ps_stream (snd (write_round P clk ps a b))) = cs_dec (ps_stream ps)"
  by (auto simp: write_round_def CryptoStream_poll_write_def split: prod.splits poll.splits res.splits)

lemma poll_write_reads:
  "ps_read (snd (ProxyStream_poll_write P clk rnd junk b ps)) = ps_read ps"
  "cs_in (ps_stream (snd (ProxyStream_poll_write P clk rnd junk b ps))) = cs_in (ps_stream ps)"
  "cs_dec (ps_stream (snd (ProxyStream_poll_write P clk rnd junk b ps))) = cs_dec (ps_stream ps)"
  by (auto simp: ProxyStream_poll_write_def CryptoStream_poll_write_def write_round_reads
      split: WriteState.splits prod.splits poll.splits res.splits)

lemma progress_prefix:
  "progress holds (\<lambda>s d T. good_grants s \<and> sent s = T) room c r w Z \<Longrightarrow> prefix (sent w) Z"
  by (auto simp: progress_def midway_def)

section \<open>Both directions together\<close>

abbreviation sock_holds :: "read_event list \<Rightarrow> bytes \<Rightarrow> bool" where
  "sock_holds es T \<equiv> good_events es \<and> stream_data es = T"

abbreviation sock_took :: "wsocket \<Rightarrow> bytes option \<Rightarrow> bytes \<Rightarrow> bool" where
  "sock_took s d T \<equiv> good_grants s \<and> sent s = T"

lemma upload_keeps_reader:
  assumes "poll_copy poll_read (ProxyStream_poll_write P clk rnd junk) ProxyStream_poll_flush c r ps = Some (p, c', r', ps')"
  shows "proxy_holds P' k ps' = proxy_holds P' k ps" "in_delay ps' = in_delay ps"
proof -
  let ?Q = "\<lambda>x. ps_read x = ps_read ps \<and> cs_in (ps_stream x) = cs_in (ps_stream ps) \<and> cs_dec (ps_stream x) = cs_dec (ps_stream ps)"
  have "?Q (snd (snd (snd (p, c', r', ps'))))"
    by (rule poll_copy_keeps_writer [OF assms]) (auto simp: poll_write_reads poll_flush_same)
  then show "proxy_holds P' k ps' = proxy_holds P' k ps" "in_delay ps' = in_delay ps"
    by (auto simp: proxy_holds_def)
qed

lemma download_keeps_writer:
  assumes "poll_copy (ProxyStream_poll_read P clk) poll_write poll_flush c ps w = Some (p, c', ps', w')" and "reads_aead ps"
  shows "proxy_took P' ci salt addr room ps' = proxy_took P' ci salt addr room ps" "out_delay ps' = out_delay ps"
proof -
  let ?Q = "\<lambda>x. reads_aead x \<and> proxy_took P' ci salt addr room x = proxy_took P' ci salt addr room ps \<and> out_delay x = out_delay ps"
  have "?Q (fst (snd (snd (p, c', ps', w'))))"
    by (rule poll_copy_keeps_reader [OF assms(1)]) (use assms(2) in \<open>auto simp: poll_read_took poll_read_writes\<close>)
  then show "proxy_took P' ci salt addr room ps' = proxy_took P' ci salt addr room ps" "out_delay ps' = out_delay ps" by simp_all
qed

lemma progress_reads_aead: "progress (proxy_holds P k) took room c ps w Z \<Longrightarrow> reads_aead ps"
  by (auto simp: progress_def proxy_holds_def)

lemma proxy_select_ok:
  assumes "progress sock_holds (proxy_took P ci salt addr up) up c1 lr ps Z"
    and "progress (proxy_holds P k) sock_took down c2 ps lw Y"
    and "length lr + out_delay ps + in_delay ps + length (grants lw) < n"
  shows "\<exists>lr' ps' lw'. proxy_select n P clk rnd junk c1 c2 lr ps lw = Some (Ok (), lr', ps', lw') \<and> prefix (sent lw') Y
    \<and> (sent lw' = Y \<or> proxy_took P ci salt addr up ps' None Z)"
  using assms
proof (induction n arbitrary: c1 c2 lr ps lw)
  case (Suc n)
  from Suc.prems(1) show ?case
  proof (cases rule: upload.poll_copy_progress [where clk = clk and rnd = rnd and junk = junk])
    case (ready c' r' w')
    with progress_prefix [OF Suc.prems(2)] show ?thesis by simp
  next
    case (pending c1' lr' ps1)
    note keep = upload_keeps_reader [OF pending(1)]
    have "progress (proxy_holds P k) sock_took down c2 ps1 lw Y"
      using Suc.prems(2) keep(1) by (simp add: progress_def)
    note aead = progress_reads_aead [OF this]
    from \<open>progress (proxy_holds P k) sock_took down c2 ps1 lw Y\<close> show ?thesis
    proof (cases rule: download.poll_copy_progress [where clk = clk])
      case (ready c' ps2 lw')
      with pending(1) show ?thesis by auto
    next
      case down: (pending c2' ps2 lw')
      note keep2 = download_keeps_writer [OF down(1) aead]
      have "progress sock_holds (proxy_took P ci salt addr up) up c1' lr' ps2 Z"
        using pending(3) keep2(1) by (simp add: progress_def midway_def)
      with Suc.IH [OF _ down(3)] pending down keep(2) keep2(2) Suc.prems(3) show ?thesis by simp
    qed
  qed
qed simp

section \<open>From the connection to the server\<close>

text \<open>
  \<open>server_gets P r wire D\<close>: a reader \<open>r\<close> at the other end, to which the bytes \<open>wire\<close> come in any
  portions and with any delays, decrypts them to \<open>D\<close>.
\<close>

definition server_gets :: "crypto_prims \<Rightarrow> DecryptedReader \<Rightarrow> bytes \<Rightarrow> bytes \<Rightarrow> bool" where
  "server_gets P r wire D \<longleftrightarrow> (\<forall>es cap m. good_events es \<longrightarrow> stream_data es = wire \<longrightarrow> 0 < cap \<longrightarrow>
     length D + length es < m \<longrightarrow> read_to_end m P cap r es = Some (Ok D))"

lemma frames_readable:
  assumes "aead_laws P" and "DecryptedReader_new k key = Ok r" and "length key = kind_key_size k"
    and "length salt = kind_key_size k" and "packets ds" and "wire = salt @ frames P (fresh_cipher P k key salt) ds"
  shows "server_gets P r wire (concat ds)"
proof -
  note r = new_reader [OF assms(2)]
  have "rd_inv P k r es (concat ds)" if "stream_data es = wire" for es
    using that r assms(3-6) by (intro wait_salt [where key = key and salt = salt]) simp_all
  then show ?thesis using read_to_end_ok [OF assms(1) r(1)] by (auto simp: server_gets_def)
qed

lemma took_delivered:
  assumes "proxy_took P (fresh_cipher P k key salt) salt addr room ps None T" and "T \<noteq> []"
    and "aead_laws P" and "DecryptedReader_new k key = Ok r" and "length key = kind_key_size k"
    and "length salt = kind_key_size k"
  shows "\<exists>first rest. T = first @ rest \<and> length first \<le> room \<and> server_gets P r (sent (cs_out (ps_stream ps))) (first_packet addr first @ rest)"
proof -
  from assms(1,2) obtain b ds w where t: "T = b @ concat ds" "length b \<le> room" "w_buffer w = []"
    and inv: "enc_inv P (fresh_cipher P k key salt) salt w (cs_out (ps_stream ps)) None
      (first_packet addr b # ds)"
    by (cases "ps_write ps") (auto simp: proxy_took_def Let_def)
  from inv t(3) have "packets (first_packet addr b # ds)"
    "sent (cs_out (ps_stream ps)) = salt @ frames P (fresh_cipher P k key salt) (first_packet addr b # ds)"
    by (simp_all add: enc_inv.simps del: frames.simps)
  from frames_readable [OF assms(3-6) this] t(1,2) show ?thesis by auto
qed

lemma generate_nonce_length:
  assumes "\<And>j n. length (rng j n) = n" and "generate_nonce rng j kind b = Some salt"
  shows "length salt = length b"
  using assms random_loop_nonzero [of rng j "length b" salt]
  by (auto simp: generate_nonce_def random_iv_or_salt_def split: if_splits)

text \<open>A connection that was made is ready to write the first packet and to read the answer.\<close>

lemma connect_fresh:
  assumes "aead_laws P" and "\<And>j n. length (rng j n) = n" and "addr_wf target"
    and "k = sc_method conf" and "key = sc_enc_key conf" and "length key = kind_key_size k"
    and "good_grants (snd stream)" and "sent (snd stream) = []" and "dial sys peer resolve conf opts = Ok stream"
    and "connect P B rng j sys peer resolve conf target opts = Some (Ok ps)"
  obtains salt where "length salt = kind_key_size k" "proxy_took P (fresh_cipher P k key salt) salt target room ps None []"
    "is_aead k" "ps_read ps = Established" "cs_kind (ps_stream ps) = k" "cs_in (ps_stream ps) = fst stream"
    "cs_out (ps_stream ps) = snd stream" "TcpDecryptedReader_new k key = (Ok (cs_dec (ps_stream ps)) :: (io_error, _) res)"
proof -
  from assms(10) obtain cs where cs: "from_stream P B rng j stream k key = (Some (Ok cs) :: (io_error, _) res option)"
    and ps: "ps = \<lparr>ps_stream = cs, ps_read = (if is_aead2022 k then CheckRequestNonce else Established),
      ps_write = WConnect target\<rparr>"
    unfolding connect_def assms(4,5,9) by (auto simp: map_ok_eq_Ok)
  from cs obtain n iv dec enc where f: "salt_len k = (Ok n :: (io_error, _) res)"
    "generate_nonce rng j k (replicate n 0) = Some iv"
    "TcpDecryptedReader_new k key = (Ok dec :: (io_error, _) res)"
    "TcpEncryptedWriter_new P B k key iv [] = (Ok enc :: (io_error, _) res)"
    "cs = \<lparr>cs_in = fst stream, cs_out = snd stream, cs_dec = dec, cs_enc = enc, cs_kind = k, cs_handshaked = False\<rparr>"
    by (auto simp: from_stream_def bind_res_eq_Ok split: res.splits option.splits)
  obtain dec0 enc0 where d: "DecryptedReader_new k key = (Ok dec0 :: (io_error, _) res)" "dec = DecAead dec0"
    "EncryptedWriter_new P k key iv = (Ok enc0 :: (io_error, _) res)" "enc = EncAead enc0"
    using f(1,3,4) by (cases k; auto simp: TcpDecryptedReader_new_def TcpEncryptedWriter_new_def salt_len_def map_ok_eq_Ok)
  note r = new_reader [OF d(1)]
  have laws: "hkdf_law P" "aead_law P" using assms(1) by (simp_all add: aead_laws_def)
  have len: "length iv = kind_key_size k"
    using generate_nonce_length [OF assms(2) f(2)] f(1) by (simp add: aead_lens(2) [OF r(1)])
  have w: "w_cipher enc0 = fresh_cipher P k key iv" "w_buffer enc0 = iv" "w_state enc0 = AssemblePacket"
    using d(3) by (auto simp: EncryptedWriter_new_def Cipher_new_fresh(1) [OF laws(1) r(1) assms(6)])
  have "proxy_took P (fresh_cipher P k key iv) iv target room ps None []"
    using laws(2) Cipher_new_fresh(2) [OF laws(1) r(1) assms(6), of iv] assms(3,7,8) r(1) w ps f(5) d(4)
    by (simp add: proxy_took_def enc_inv.simps packets_def after_frames_def)
  moreover have "\<not> is_aead2022 k" using r(1) by (auto simp: is_aead_def is_aead2022_def)
  ultimately show thesis using that [OF len] r(1) f(3,5) ps by simp
qed

text \<open>A connection that was dialled goes to the peer at some address.\<close>

lemma connect_dialled:
  assumes "connect P B rng j sys peer resolve conf target opts = Some (Ok ps)"
  obtains a where "dial sys peer resolve conf opts = Ok (peer a)"
proof -
  from assms obtain stream where "dial sys peer resolve conf opts = Ok stream"
    by (auto simp: connect_def split: res.splits)
  moreover from this obtain a where "stream = peer a"
    by (auto simp: dial_def bind_res_eq_Ok map_ok_eq_Ok)
  ultimately show thesis using that by blast
qed

text \<open>Connecting succeeds when dialling does, unless the random source gives zeros forever.\<close>

lemma connect_ok:
  assumes "aead_laws P" and "is_aead (sc_method conf)" and "length (sc_enc_key conf) = kind_key_size (sc_method conf)"
    and "\<exists>i \<ge> j. \<not> list_all (\<lambda>x. x = 0) (rng i (kind_key_size (sc_method conf)))"
    and "dial sys peer resolve conf opts = Ok stream"
  shows "\<exists>ps. connect P B rng j sys peer resolve conf target opts = Some (Ok ps)"
proof -
  let ?k = "sc_method conf" and ?key = "sc_enc_key conf"
  have laws: "hkdf_law P" using assms(1) by (simp add: aead_laws_def)
  from assms(4) obtain i where "\<not> list_all (\<lambda>x. x = 0) (rng (j + i) (kind_key_size ?k))" by (auto simp: le_iff_add)
  then have "\<exists>iv. random_loop rng j (kind_key_size ?k) = Some iv" by (rule random_loop_Some)
  moreover have "kind_key_size ?k \<noteq> 0" using assms(2) by (auto simp: is_aead_def)
  ultimately obtain iv where iv: "generate_nonce rng j ?k (replicate (kind_key_size ?k) 0) = Some iv"
    by (auto simp: generate_nonce_def random_iv_or_salt_def)
  have c: "Cipher_new P ?k ?key iv = (Ok (fresh_cipher P ?k ?key iv) :: (io_error, _) res)"
    by (rule Cipher_new_fresh(1) [OF laws assms(2,3)])
  have "salt_len ?k = (Ok (kind_key_size ?k) :: (io_error, _) res)" by (rule aead_lens(2) [OF assms(2)])
  with iv c assms(2,5) show ?thesis
    by (auto simp: connect_def from_stream_def TcpDecryptedReader_new_def TcpEncryptedWriter_new_def DecryptedReader_new_def
      EncryptedWriter_new_def is_aead_def)
qed

text \<open>
  The connection to a server that accepts what is sent and answers with the packets \<open>answer\<close>, encrypted with
  the key of its configuration.
\<close>

definition honest :: "crypto_prims \<Rightarrow> ServerConfig \<Rightarrow> bytes list \<Rightarrow> read_event list \<times> wsocket \<Rightarrow> bool" where
  "honest P conf answer stream \<longleftrightarrow> good_grants (snd stream) \<and> sent (snd stream) = [] \<and> good_events (fst stream) \<and> packets answer
     \<and> (\<exists>salt. length salt = kind_key_size (sc_method conf) \<and> stream_data (fst stream)
         = salt @ frames P (fresh_cipher P (sc_method conf) (sc_enc_key conf) salt) answer)"

lemma connect_ready:
  assumes "aead_laws P" and "\<And>j m. length (rng j m) = m" and "addr_wf target"
    and "length (sc_enc_key conf) = kind_key_size (sc_method conf)"
    and "dial sys peer resolve conf opts = Ok stream" and "honest P conf answer stream"
    and "connect P B rng j sys peer resolve conf target opts = Some (Ok ps)"
  obtains iv where "length iv = kind_key_size (sc_method conf)" "is_aead (sc_method conf)" "cs_kind (ps_stream ps) = sc_method conf"
    "proxy_took P (fresh_cipher P (sc_method conf) (sc_enc_key conf) iv) iv target room ps None []"
    "proxy_holds P (sc_method conf) ps (concat answer)" "cs_in (ps_stream ps) = fst stream" "cs_out (ps_stream ps) = snd stream"
proof -
  let ?k = "sc_method conf" and ?key = "sc_enc_key conf"
  from assms(6) obtain salt where ok: "good_grants (snd stream)" "sent (snd stream) = []" "good_events (fst stream)" "packets answer"
    "length salt = kind_key_size ?k" "stream_data (fst stream) = salt @ frames P (fresh_cipher P ?k ?key salt) answer"
    by (auto simp: honest_def)
  from connect_fresh [OF assms(1-3) refl refl assms(4) ok(1,2) assms(5,7)]
  obtain iv where c: "length iv = kind_key_size ?k"
    "proxy_took P (fresh_cipher P ?k ?key iv) iv target room ps None []"
    "is_aead ?k" "ps_read ps = Established" "cs_kind (ps_stream ps) = ?k" "cs_in (ps_stream ps) = fst stream"
    "cs_out (ps_stream ps) = snd stream"
    "TcpDecryptedReader_new ?k ?key = (Ok (cs_dec (ps_stream ps)) :: (io_error, _) res)" by blast
  from c(3,8) obtain r where dec: "DecryptedReader_new ?k ?key = (Ok r :: (io_error, _) res)" "cs_dec (ps_stream ps) = DecAead r"
    by (auto simp: is_aead_def TcpDecryptedReader_new_def map_ok_eq_Ok)
  note r = new_reader [OF dec(1)]
  have "rd_inv P ?k r (cs_in (ps_stream ps)) (concat answer)"
    using r assms(4) ok(4-6) c(6) by (intro wait_salt [where key = ?key and salt = salt]) simp_all
  then have "proxy_holds P ?k ps (concat answer)"
    using assms(1) ok(3) c(3,4,6) dec(2) by (simp add: proxy_holds_def)
  with c that show thesis by blast
qed

lemma proxy_dialled:
  assumes "aead_laws P" and "\<And>j m. length (rng j m) = m" and "addr_wf target"
    and "length (sc_enc_key conf) = kind_key_size (sc_method conf)"
    and "dial sys peer resolve conf opts = Ok stream" and "honest P conf answer stream"
    and "connect P B rng j sys peer resolve conf target opts = Some (Ok ps)"
    and "DecryptedReader_new (sc_method conf) (sc_enc_key conf) = Ok server"
    and "good_events lr" and "good_grants lw" and "sent lw = []"
    and "length lr + length (grants (snd stream)) + length (fst stream) + length (grants lw) < n"
  shows "\<exists>lr' ps' lw'. proxy n P clk rnd junk ps lr lw = Some (Ok (), lr', ps', lw')
    \<and> prefix (sent lw') (concat answer)
    \<and> (sent lw' = concat answer \<or> stream_data lr = []
       \<or> (\<exists>first rest. stream_data lr = first @ rest \<and> length first \<le> MAX_PACKET_SIZE
           \<and> server_gets P server (sent (cs_out (ps_stream ps')))
               (take MAX_PACKET_SIZE (addr_bytes target @ first) @ rest)))"
proof -
  let ?k = "sc_method conf" and ?key = "sc_enc_key conf"
  from connect_ready [OF assms(1-7)] obtain iv where c: "length iv = kind_key_size ?k" "is_aead ?k" "cs_kind (ps_stream ps) = ?k"
    "proxy_took P (fresh_cipher P ?k ?key iv) iv target MAX_PACKET_SIZE ps None []" and h: "proxy_holds P ?k ps (concat answer)"
    and io: "cs_in (ps_stream ps) = fst stream" "cs_out (ps_stream ps) = snd stream" by blast
  obtain down where sz: "to_encrypted_size ?k = MAX_PACKET_SIZE" "from_encrypted_size ?k = (Ok down :: (io_error, _) res)" "0 < down"
    using c(2) by (auto simp: is_aead_def to_encrypted_size_def from_encrypted_size_def MAX_PACKET_SIZE_def)
  have u: "progress sock_holds (proxy_took P (fresh_cipher P ?k ?key iv) iv target MAX_PACKET_SIZE) MAX_PACKET_SIZE
      (CopyBuffer_new MAX_PACKET_SIZE) lr ps (stream_data lr)"
    using assms(9) c(4) by (intro progress_new) simp_all
  have v: "progress (proxy_holds P ?k) sock_took down (CopyBuffer_new down) ps lw (concat answer)"
    using h assms(10,11) sz(3) by (intro progress_new) simp_all
  have "length lr + length (grants (cs_out (ps_stream ps))) + length (cs_in (ps_stream ps)) + length (grants lw) < n"
    using assms(12) io by simp
  from proxy_select_ok [OF u v this, of clk rnd junk] obtain lr' ps' lw' where "proxy n P clk rnd junk ps lr lw = Some (Ok (), lr', ps', lw')"
    "prefix (sent lw') (concat answer)"
    and d: "sent lw' = concat answer \<or> proxy_took P (fresh_cipher P ?k ?key iv) iv target MAX_PACKET_SIZE ps' None (stream_data lr)"
    by (auto simp: proxy_def c(3) sz Let_def)
  moreover note took_delivered [OF _ _ assms(1,8,4) c(1), of target MAX_PACKET_SIZE ps' "stream_data lr"]
  ultimately show ?thesis by (auto simp: first_packet_def)
qed

text \<open>
  The loss is real: when the local peer's first chunk fills the copy's buffer, the first packet
  is shorter than the address and the chunk together, by the length of the address.
\<close>

lemma first_chunk_loss:
  assumes "length b = MAX_PACKET_SIZE" and "addr_wf addr" and "serialized_len addr \<le> MAX_PACKET_SIZE"
  shows "first_packet addr b = addr_bytes addr @ take (MAX_PACKET_SIZE - serialized_len addr) b"
    and "length (first_packet addr b) + serialized_len addr = length (addr_bytes addr @ b)"
    and "make_first_packet_buffer rnd junk AES_128_GCM addr b = (Ok (addr_bytes addr @ b) :: ('e, bytes) res)"
  using assms by (auto simp: first_packet_def length_addr_bytes first_packet_buffer is_aead_def)

definition demo_conf :: ServerConfig where
  "demo_conf = \<lparr>sc_addr = SocketAddress (V4 (Ipv4Addr 10 0 0 1) 8388), sc_password = ''pw'', sc_method = AES_128_GCM,
     sc_enc_key = replicate 16 1, sc_timeout = None, sc_identity_keys = [], sc_remarks = None, sc_id = None,
     sc_mode = TcpOnly, sc_weight = ServerWeight_new\<rparr>"

text \<open>A server whose answer is one packet, delivered in two portions.\<close>

definition demo_wire :: bytes where
  "demo_wire = replicate 16 2 @ frames null_prims (fresh_cipher null_prims AES_128_GCM (replicate 16 1) (replicate 16 2)) [[7, 8, 9]]"

definition demo_peer :: "SocketAddr \<Rightarrow> read_event list \<times> wsocket" where
  "demo_peer a = ([RData (take 5 demo_wire), RPending, RData (drop 5 demo_wire)],
     \<lparr>grants = [WAccept 3, WPending], sent = []\<rparr>)"

lemma demo_connect:
  obtains ps where "connect null_prims null_block (\<lambda>j m. replicate m 3) 0 (\<lambda>h op. Ok ()) demo_peer (\<lambda>d p. Err write_zero) demo_conf
      (DomainNameAddress ''a.b'' 443) ConnectOpts_default = Some (Ok ps)"
    "cs_out (ps_stream ps) = \<lparr>grants = [WAccept 3, WPending], sent = []\<rparr>"
    "cs_in (ps_stream ps) = fst (demo_peer undefined)"
proof -
  have k: "is_aead AES_128_GCM" "length (replicate 16 (1 :: byte)) = kind_key_size AES_128_GCM"
    by (simp_all add: is_aead_def)
  have c: "Cipher_new null_prims AES_128_GCM (replicate 16 1) salt
      = (Ok (fresh_cipher null_prims AES_128_GCM (replicate 16 1) salt) :: (io_error, _) res)" for salt
    by (rule Cipher_new_fresh(1) [OF _ k]) (use null_prims_laws in \<open>simp add: aead_laws_def\<close>)
  have g: "generate_nonce (\<lambda>j m. replicate m 3) 0 AES_128_GCM (replicate 16 0) = Some (replicate 16 3)"
    by (simp add: generate_nonce_def random_iv_or_salt_def random_loop.simps list_all_iff)
  show thesis
    by (rule that, simp add: connect_def dial_def demo_conf_def ConnectOpts_default_def TcpSocketOpts_default_def
      connect_runs_plan connect_plan_def local_bind_def then_sock_def sock_call_def from_stream_def salt_len_def g
      TcpDecryptedReader_new_def TcpEncryptedWriter_new_def DecryptedReader_new_def EncryptedWriter_new_def c demo_peer_def is_aead2022_def)
      (simp_all add: demo_peer_def)
qed

lemma demo_peer_good:
  "good_grants (snd (demo_peer a))" "sent (snd (demo_peer a)) = []" "good_events (fst (demo_peer a))"
  "stream_data (fst (demo_peer a)) = demo_wire"
proof -
  have "length demo_wire > 5" by (simp add: demo_wire_def)
  then have "take 5 demo_wire \<noteq> []" "drop 5 demo_wire \<noteq> []" by auto
  then show "good_events (fst (demo_peer a))" by (simp add: demo_peer_def good_events_def)
qed (simp_all add: demo_peer_def good_grants_def)

section \<open>Properties\<close>

text \<open>
  C3: uploading.  Copying a local socket into a fresh connection returns with the number of bytes
  the local peer sent, however the two sockets deliver, accept and delay.  The server decrypts the
  target's address followed by these bytes, except that the packet that carries the address is cut
  at the packet limit: what of the first chunk does not fit behind the address is lost, although
  it was reported as written.  A chunk is at most as long as the copy's buffer, so at most the
  length of the address is lost.
\<close>

theorem upload_delivers:
  assumes "aead_laws P" and "\<And>j m. length (rng j m) = m" and "addr_wf target"
    and "length (sc_enc_key conf) = kind_key_size (sc_method conf)"
    and "\<And>a. good_grants (snd (peer a)) \<and> sent (snd (peer a)) = []"
    and "connect P B rng j sys peer resolve conf target opts = Some (Ok ps)"
    and "DecryptedReader_new (sc_method conf) (sc_enc_key conf) = Ok server"
    and "good_events lr" and "length lr + length (grants (cs_out (ps_stream ps))) < n"
  shows "\<exists>lr' ps'. copy_to_encrypted n (sc_method conf) poll_read (ProxyStream_poll_write P clk rnd junk) ProxyStream_poll_flush lr ps
      = Some (Ok (of_nat (length (stream_data lr))), lr', ps')
    \<and> (stream_data lr \<noteq> [] \<longrightarrow> (\<exists>first rest. stream_data lr = first @ rest \<and> length first \<le> MAX_PACKET_SIZE
        \<and> server_gets P server (sent (cs_out (ps_stream ps')))
            (take MAX_PACKET_SIZE (addr_bytes target @ first) @ rest)))"
proof -
  let ?k = "sc_method conf" and ?key = "sc_enc_key conf"
  obtain a where "dial sys peer resolve conf opts = Ok (peer a)" by (rule connect_dialled [OF assms(6)])
  from connect_fresh [OF assms(1-3) refl refl assms(4) _ _ this assms(6)] assms(5)
  obtain salt where c: "length salt = kind_key_size ?k" "proxy_took P (fresh_cipher P ?k ?key salt) salt target MAX_PACKET_SIZE ps None []"
    "is_aead ?k" by metis
  have sz: "0 < to_encrypted_size ?k" "to_encrypted_size ?k \<le> MAX_PACKET_SIZE"
    using c(3) by (auto simp: is_aead_def to_encrypted_size_def MAX_PACKET_SIZE_def)
  from upload.copy_await_ok [OF progress_new [where took = "proxy_took P (fresh_cipher P ?k ?key salt) salt target MAX_PACKET_SIZE",
    OF _ c(2) sz] assms(9), of "stream_data lr" clk rnd junk] assms(8)
  obtain lr' ps' where d: "copy_to_encrypted n ?k poll_read (ProxyStream_poll_write P clk rnd junk) ProxyStream_poll_flush lr ps
      = Some (Ok (of_nat (length (stream_data lr))), lr', ps')"
    "proxy_took P (fresh_cipher P ?k ?key salt) salt target MAX_PACKET_SIZE ps' None (stream_data lr)"
    unfolding copy_to_encrypted_def by auto
  with took_delivered [OF d(2) _ assms(1,7,4) c(1)] show ?thesis by (auto simp: first_packet_def)
qed

theorem upload_delivers_witness:
  "\<exists>ps server lr' ps' first rest. connect null_prims null_block (\<lambda>j m. replicate m 3) 0 (\<lambda>h op. Ok ()) demo_peer (\<lambda>d p. Err write_zero)
      demo_conf (DomainNameAddress ''a.b'' 443) ConnectOpts_default = Some (Ok ps)
    \<and> copy_to_encrypted 6 AES_128_GCM poll_read (ProxyStream_poll_write null_prims (\<lambda>_. 0) 0 (\<lambda>n. replicate n 0)) ProxyStream_poll_flush
      [RData [1, 2], RPending, RData [3]] ps = Some (Ok 3, lr', ps')
    \<and> [1, 2, 3] = first @ rest
    \<and> server_gets null_prims server (sent (cs_out (ps_stream ps')))
        (take MAX_PACKET_SIZE (addr_bytes (DomainNameAddress ''a.b'' 443) @ first) @ rest)"
proof (rule demo_connect)
  fix ps
  assume ps: "connect null_prims null_block (\<lambda>j m. replicate m 3) 0 (\<lambda>h op. Ok ()) demo_peer (\<lambda>d p. Err write_zero) demo_conf
      (DomainNameAddress ''a.b'' 443) ConnectOpts_default = Some (Ok ps)"
    and out: "cs_out (ps_stream ps) = \<lparr>grants = [WAccept 3, WPending], sent = []\<rparr>"
  obtain r where r: "DecryptedReader_new (sc_method demo_conf) (sc_enc_key demo_conf) = (Ok r :: (unit, _) res)"
    by (simp add: DecryptedReader_new_def salt_len_def demo_conf_def)
  have a: "addr_wf (DomainNameAddress ''a.b'' 443)" by (simp add: valid_utf8_ascii is_ascii_def)
  from upload_delivers [OF null_prims_laws _ a _ _ ps r, of "[RData [1, 2], RPending, RData [3]]" 6 "\<lambda>_. 0" 0 "\<lambda>n. replicate n 0"]
    ps out demo_peer_good show ?thesis
    by (fastforce simp: demo_conf_def good_events_def)
qed

text \<open>
  C5: the proxied connection as a whole.  With a server that answers with a well-formed encrypted
  stream, forwarding in both directions returns without an error, however the four sockets deliver,
  accept and delay.  The local peer has then received a prefix of the server's answer and nothing
  else, and one of the directions is complete: all of the answer has arrived, or all of what
  the local peer sent was sent to the server, as for an upload alone.
\<close>

theorem proxy_completes:
  assumes "aead_laws P" and "\<And>j m. length (rng j m) = m" and "addr_wf target"
    and "length (sc_enc_key conf) = kind_key_size (sc_method conf)"
    and "\<And>a. good_grants (snd (peer a)) \<and> sent (snd (peer a)) = []"
    and "connect P B rng j sys peer resolve conf target opts = Some (Ok ps)"
    and "DecryptedReader_new (sc_method conf) (sc_enc_key conf) = Ok server"
    and "length salt = kind_key_size (sc_method conf)" and "\<forall>d \<in> set answer. length d \<le> MAX_PACKET_SIZE"
    and "\<And>a. good_events (fst (peer a)) \<and> stream_data (fst (peer a))
      = salt @ frames P (fresh_cipher P (sc_method conf) (sc_enc_key conf) salt) answer"
    and "good_events lr" and "good_grants lw" and "sent lw = []"
    and "length lr + length (grants (cs_out (ps_stream ps))) + length (cs_in (ps_stream ps)) + length (grants lw) < n"
  shows "\<exists>lr' ps' lw'. proxy n P clk rnd junk ps lr lw = Some (Ok (), lr', ps', lw')
    \<and> prefix (sent lw') (concat answer)
    \<and> (sent lw' = concat answer \<or> stream_data lr = []
       \<or> (\<exists>first rest. stream_data lr = first @ rest \<and> length first \<le> MAX_PACKET_SIZE
           \<and> server_gets P server (sent (cs_out (ps_stream ps')))
               (take MAX_PACKET_SIZE (addr_bytes target @ first) @ rest)))"
proof -
  obtain a where a: "dial sys peer resolve conf opts = Ok (peer a)" by (rule connect_dialled [OF assms(6)])
  have h: "honest P conf answer (peer a)"
    using assms(5,8,9,10) by (auto simp: honest_def packets_def)
  from assms(5) have "good_grants (snd (peer a))" "sent (snd (peer a)) = []" by blast+
  from connect_fresh [OF assms(1-3) refl refl assms(4) this a assms(6)]
  have "cs_in (ps_stream ps) = fst (peer a)" "cs_out (ps_stream ps) = snd (peer a)" by blast+
  then have "length lr + length (grants (snd (peer a))) + length (fst (peer a)) + length (grants lw) < n"
    using assms(14) by simp
  then show ?thesis by (rule proxy_dialled [OF assms(1-4) a h assms(6,7,11-13)])
qed

theorem proxy_completes_witness:
  "\<exists>ps lr' ps' lw'. connect null_prims null_block (\<lambda>j m. replicate m 3) 0 (\<lambda>h op. Ok ()) demo_peer (\<lambda>d p. Err write_zero)
      demo_conf (DomainNameAddress ''a.b'' 443) ConnectOpts_default = Some (Ok ps)
    \<and> proxy 10 null_prims (\<lambda>_. 0) 0 (\<lambda>n. replicate n 0) ps [RPending, RPending] \<lparr>grants = [WPending], sent = []\<rparr>
      = Some (Ok (), lr', ps', lw')
    \<and> prefix (sent lw') [7, 8, 9]"
proof (rule demo_connect)
  fix ps
  assume ps: "connect null_prims null_block (\<lambda>j m. replicate m 3) 0 (\<lambda>h op. Ok ()) demo_peer (\<lambda>d p. Err write_zero) demo_conf
      (DomainNameAddress ''a.b'' 443) ConnectOpts_default = Some (Ok ps)"
    and io: "cs_out (ps_stream ps) = \<lparr>grants = [WAccept 3, WPending], sent = []\<rparr>"
      "cs_in (ps_stream ps) = fst (demo_peer undefined)"
  obtain r where r: "DecryptedReader_new (sc_method demo_conf) (sc_enc_key demo_conf) = (Ok r :: (unit, _) res)"
    by (simp add: DecryptedReader_new_def salt_len_def demo_conf_def)
  have a: "addr_wf (DomainNameAddress ''a.b'' 443)" by (simp add: valid_utf8_ascii is_ascii_def)
  have "\<exists>lr' ps' lw'. proxy 10 null_prims (\<lambda>_. 0) 0 (\<lambda>n. replicate n 0) ps [RPending, RPending] \<lparr>grants = [WPending], sent = []\<rparr>
      = Some (Ok (), lr', ps', lw') \<and> prefix (sent lw') (concat [[7, 8, 9]])"
    using proxy_completes [OF null_prims_laws _ a _ _ ps r, of "replicate 16 2" "[[7, 8, 9]]" "[RPending, RPending]"
        "\<lparr>grants = [WPending], sent = []\<rparr>" 10 "\<lambda>_. 0" 0 "\<lambda>n. replicate n 0"] io demo_peer_good
    by (fastforce simp: demo_conf_def good_events_def good_grants_def demo_wire_def demo_peer_def MAX_PACKET_SIZE_def)
  with ps show ?thesis by auto
qed

end
