(* ===== verification/ThpServer.thy ===== *)
theory ThpServer
  imports Sniffing Upstream ProxyFlow
begin

text \<open>
  \<^verbatim>\<open>src/relay/thp/server.rs\<close>: the transparent proxy.  A listener accepts connections; the task of a connection
  finds its destination, picks an upstream server, connects to it and forwards in both directions, with five
  tries.  Here the sniffer, the pool and the shadowsocks stream come together.

  The network is a parameter, one \<open>relay_env\<close> for each try: the random source, the kernel, the peers and the resolver
  that \<^const>\<open>connect\<close> uses, and the clocks.  The functions of the crates are the fields of \<open>thp_libs\<close>.
\<close>

section \<open>The task of a connection\<close>

record relay_env =
  re_rng :: "nat \<Rightarrow> nat \<Rightarrow> bytes"
  re_draw :: nat
  re_sys :: kernel
  re_peer :: "SocketAddr \<Rightarrow> read_event list \<times> wsocket"
  re_resolve :: "string \<Rightarrow> u16 \<Rightarrow> (io_error, SocketAddr) res"
  re_clock :: clock
  re_rnd :: nat
  re_junk :: "nat \<Rightarrow> bytes"
  re_now :: nat

record thp_libs =
  tl_sniff :: sniff_lib
  tl_prims :: crypto_prims
  tl_block :: block_prims
  tl_etld1 :: "string \<Rightarrow> string option"

text \<open>
  \<^verbatim>\<open>TcpStream::peek\<close> waits for the first data and leaves it in the socket: what it sees, and the events that are
  still to come.
\<close>

fun peek :: "nat \<Rightarrow> read_event list \<Rightarrow> (io_error + bytes) \<times> read_event list" where
  "peek n [] = (Inr [], [])"
| "peek n (RPending # es) = peek n es"
| "peek n (RError e # es) = (Inl e, es)"
| "peek n (RData b # es) = (Inr (take n b), RData b # es)"

text \<open>
  \<open>Wrapped e\<close> is \<^verbatim>\<open>io::Error::new(ErrorKind::Other, e)\<close>.  The result of a task is its outcome, the server that was
  reached with the stream to it, the local connection and the pool.
\<close>

datatype conn_error = Wrapped SniffError | ConnIo io_error

type_synonym local_conn = "read_event list \<times> wsocket"

type_synonym conn_result = "(conn_error, unit) res \<times> (nat \<times> ProxyStream) option \<times> local_conn \<times> Upstream"

definition mark_failed :: "nat \<Rightarrow> nat \<Rightarrow> Upstream \<Rightarrow> Upstream" where
  "mark_failed now i u = u\<lparr>peers := (peers u)\<lparr>servers :=
     (servers (peers u))[i := report_failure now (servers (peers u) ! i)]\<rparr>\<rparr>"

definition connect_upstream :: "thp_libs \<Rightarrow> relay_env \<Rightarrow> ServerConfig \<Rightarrow> Address \<Rightarrow> (io_error, ProxyStream) res option" where
  "connect_upstream T E conf target =
     connect (tl_prims T) (tl_block T) (re_rng E) (re_draw E) (re_sys E) (re_peer E) (re_resolve E) conf target ConnectOpts_default"

fun try_servers :: "nat \<Rightarrow> thp_libs \<Rightarrow> (nat \<Rightarrow> relay_env) \<Rightarrow> string \<Rightarrow> u16 \<Rightarrow> local_conn \<Rightarrow> nat \<Rightarrow> Upstream \<Rightarrow> conn_result option" where
  "try_servers fuel T env host port local 0 u = Some (Err (ConnIo (IoError NotConnected ''no available proxy'')), None, local, u)"
| "try_servers fuel T env host port local (Suc n) u = (case pick (tl_etld1 T) u host of
     None \<Rightarrow> None
   | Some (Ok i) \<Rightarrow>
       (let E = env n; target = DomainNameAddress host port in
        case connect_upstream T E (sv_config (servers (peers u) ! i)) target of
          None \<Rightarrow> None
        | Some (Ok ps) \<Rightarrow>
            (case proxy fuel (tl_prims T) (re_clock E) (re_rnd E) (re_junk E) ps (fst local) (snd local) of
               None \<Rightarrow> None
             | Some (Ok _, lr, ps, lw) \<Rightarrow> Some (Ok (), Some (i, ps), (lr, lw), u)
             | Some (Err e, lr, ps, lw) \<Rightarrow> Some (Ok (), Some (i, ps), (lr, lw), mark_failed (re_now E) i u)
             | Some (Panic, lr, ps, lw) \<Rightarrow> Some (Panic, Some (i, ps), (lr, lw), u))
        | Some (Err e) \<Rightarrow> try_servers fuel T env host port local n (mark_failed (re_now E) i u)
        | Some Panic \<Rightarrow> Some (Panic, None, local, u))
   | Some _ \<Rightarrow> Some (Panic, None, local, u))"

definition handle_connection :: "nat \<Rightarrow> thp_libs \<Rightarrow> (nat \<Rightarrow> relay_env) \<Rightarrow> local_conn \<Rightarrow> Upstream \<Rightarrow> conn_result option" where
  "handle_connection fuel T env local u =
     (let (peeked, lr) = peek 1024 (fst local); local = (lr, snd local) in
      case destination_addr (tl_sniff T) peeked of
        None \<Rightarrow> None
      | Some (Ok (host, port)) \<Rightarrow> try_servers fuel T env host port local 5 u
      | Some (Err e) \<Rightarrow> Some (Err (Wrapped e), None, local, u)
      | Some Panic \<Rightarrow> Some (Panic, None, local, u))"

section \<open>The listeners\<close>

text \<open>
  What happens at a listener, in order.  Its task spawns the task of every connection and ends only by the panic of
  \<^verbatim>\<open>expect\<close> when accepting fails; the flag says that it has ended.
\<close>

datatype 'c accept_event = Accepted 'c SocketAddr | AcceptFailed io_error

fun accept_loop :: "'c accept_event list \<Rightarrow> 'c list \<times> bool" where
  "accept_loop [] = ([], False)"
| "accept_loop (Accepted local src # es) = (let (cs, ended) = accept_loop es in (local # cs, ended))"
| "accept_loop (AcceptFailed e # es) = ([], True)"

record thp_Config =
  thp_listen :: "SocketAddr list"

text \<open>
  The addresses that were bound and the first failure.  The task of a bound listener is spawned at once and goes on
  when a later address cannot be bound.
\<close>

fun bind_listeners :: "(SocketAddr \<Rightarrow> (io_error, unit) res) \<Rightarrow> SocketAddr list \<Rightarrow> SocketAddr list \<times> (io_error, unit) res" where
  "bind_listeners bind_tcp [] = ([], Ok ())"
| "bind_listeners bind_tcp (addr # addrs) = (case bind_tcp addr of
     Ok _ \<Rightarrow> (let (bound, r) = bind_listeners bind_tcp addrs in (addr # bound, r))
   | Err e \<Rightarrow> ([], Err e)
   | Panic \<Rightarrow> ([], Panic))"

text \<open>The connections that each bound listener hands to a task, and the result of \<^verbatim>\<open>serve\<close>, if it has returned.\<close>

definition thp_serve :: "(SocketAddr \<Rightarrow> (io_error, unit) res) \<Rightarrow> (SocketAddr \<Rightarrow> 'c accept_event list) \<Rightarrow> thp_Config
    \<Rightarrow> (SocketAddr \<times> 'c list) list \<times> (io_error, unit) res option" where
  "thp_serve bind_tcp arrivals config =
     (let (bound, r) = bind_listeners bind_tcp (thp_listen config);
          tasks = map (\<lambda>addr. accept_loop (arrivals addr)) bound in
      (zip bound (map fst tasks),
       case r of Ok _ \<Rightarrow> if list_all snd tasks then Some (Ok ()) else None | x \<Rightarrow> Some x))"

section \<open>Retrying\<close>

lemma is_alive_report_failure [simp]: "\<not> is_alive (report_failure now s)"
  by (simp add: is_alive_def report_failure_def)

lemma mark_failed_ok:
  "peers_ok (peers u) \<Longrightarrow> i < length (servers (peers u)) \<Longrightarrow> peers_ok (peers (mark_failed now i u))"
  by (auto simp: mark_failed_def report_failure_def server_ok_def intro!: peers_ok_update push_latency_ok)

definition alive_set :: "Upstream \<Rightarrow> nat set" where
  "alive_set u = {i. i < length (servers (peers u)) \<and> is_alive (servers (peers u) ! i)}"

lemma alive_set_mark_failed:
  "i < length (servers (peers u)) \<Longrightarrow> alive_set (mark_failed now i u) = alive_set u - {i}"
  by (auto simp: alive_set_def mark_failed_def nth_list_update split: if_splits)

lemma length_mark_failed [simp]: "length (servers (peers (mark_failed now i u))) = length (servers (peers u))"
  by (simp add: mark_failed_def)

lemma finite_alive_set [simp]: "finite (alive_set u)"
  by (simp add: alive_set_def)


lemma mark_failed_configs [simp]:
  "map sv_config (servers (peers (mark_failed now i u))) = map sv_config (servers (peers u))"
  by (simp add: mark_failed_def map_config_update report_failure_def)

lemma mark_failed_running: "running L H u \<Longrightarrow> i < length (servers (peers u)) \<Longrightarrow> running L H (mark_failed now i u)"
  unfolding mark_failed_def by (rule failed)

text \<open>
  \<open>Q i ps lw\<close> is what relaying through server \<open>i\<close> achieves; the servers in \<open>down\<close> cannot be reached.
\<close>

lemma try_servers_succeeds:
  assumes "running L H u" and "length (servers (peers u)) \<le> 2 ^ 31" and "confs = map sv_config (servers (peers u))"
    and relays: "\<And>k i. i < length confs \<Longrightarrow> i \<notin> down \<Longrightarrow> \<exists>ps0 lr ps lw.
      connect_upstream T (env k) (confs ! i) (DomainNameAddress host port) = Some (Ok ps0)
      \<and> proxy fuel (tl_prims T) (re_clock (env k)) (re_rnd (env k)) (re_junk (env k)) ps0 (fst local) (snd local)
          = Some (Ok (), lr, ps, lw) \<and> Q i ps lw"
    and refuses: "\<And>k i. i < length confs \<Longrightarrow> i \<in> down \<Longrightarrow>
      \<exists>e. connect_upstream T (env k) (confs ! i) (DomainNameAddress host port) = Some (Err e)"
    and "g \<in> alive_set u" and "g \<notin> down" and "card (alive_set u \<inter> down) < n"
  shows "\<exists>i ps lr lw u'. try_servers fuel T env host port local n u = Some (Ok (), Some (i, ps), (lr, lw), u')
    \<and> i \<in> alive_set u \<and> i \<notin> down \<and> Q i ps lw \<and> running L H u'"
  using assms(1-3,6-8)
proof (induction n arbitrary: u)
  case (Suc n)
  have "servers (peers u) \<noteq> []" "\<exists>s \<in> set (servers (peers u)). is_alive s"
    using Suc.prems(4) by (auto simp: alive_set_def)
  then obtain i where i: "i \<in> alive_set u" "pick (tl_etld1 T) u host = Some (Ok i)"
    using pick_running [OF running_ok [OF Suc.prems(1)] _ Suc.prems(2)] by (auto simp: alive_set_def)
  then have il: "i < length (servers (peers u))" by (simp add: alive_set_def)
  then have conf: "sv_config (servers (peers u) ! i) = confs ! i" "i < length confs" using Suc.prems(3) by simp_all
  show ?case
  proof (cases "i \<in> down")
    case True
    let ?u = "mark_failed (re_now (env n)) i u"
    have "alive_set ?u \<inter> down = alive_set u \<inter> down - {i}" by (auto simp: alive_set_mark_failed [OF il])
    moreover have "0 < card (alive_set u \<inter> down)" using i(1) True by (auto simp: card_gt_0_iff)
    ultimately have "card (alive_set ?u \<inter> down) < n" using Suc.prems(6) i(1) True by simp
    moreover have "g \<in> alive_set ?u" using Suc.prems(4,5) True by (auto simp: alive_set_mark_failed [OF il])
    ultimately have "\<exists>k ps lr lw u'. try_servers fuel T env host port local n ?u = Some (Ok (), Some (k, ps), (lr, lw), u')
        \<and> k \<in> alive_set ?u \<and> k \<notin> down \<and> Q k ps lw \<and> running L H u'"
      using Suc.prems by (intro Suc.IH) (auto intro: mark_failed_running [OF _ il])
    with refuses [OF conf(2) True, of n] show ?thesis
      using i conf by (fastforce simp: alive_set_mark_failed [OF il] Let_def)
  next
    case False
    from relays [OF conf(2) False, of n] obtain ps0 lr ps lw where
      "connect_upstream T (env n) (confs ! i) (DomainNameAddress host port) = Some (Ok ps0)"
      "proxy fuel (tl_prims T) (re_clock (env n)) (re_rnd (env n)) (re_junk (env n)) ps0 (fst local) (snd local)
          = Some (Ok (), lr, ps, lw)" "Q i ps lw" by blast
    with i conf False Suc.prems(1) show ?thesis by (simp add: Let_def)
  qed
qed simp

section \<open>What a connection sees\<close>

lemma peek_keeps:
  assumes "good_events es" and "peek n es = (p, es')"
  shows "good_events es'" "stream_data es' = stream_data es" "length es' \<le> length es" "p = Inr [] \<or> stream_data es \<noteq> []"
  using assms by (induction n es rule: peek.induct) (auto simp: good_events_def)

lemma nothing_peeked: "destination_addr S (Inr []) = Some (Err UnknownProtocol)"
proof -
  have "hd (replicate 1024 (0 :: byte)) = 0" by (rule hd_replicate) simp
  then show ?thesis by (simp add: destination_addr_def Let_def byte_of_char_def)
qed

text \<open>A random source of the right lengths that does not give zeros forever.\<close>

definition rng_ok :: "(nat \<Rightarrow> nat \<Rightarrow> bytes) \<Rightarrow> bool" where
  "rng_ok rng \<longleftrightarrow> (\<forall>j m. length (rng j m) = m) \<and> (\<forall>j m. 0 < m \<longrightarrow> (\<exists>i \<ge> j. \<not> list_all (\<lambda>x. x = 0) (rng i m)))"

definition reach :: "relay_env \<Rightarrow> ServerConfig \<Rightarrow> (io_error, read_event list \<times> wsocket) res" where
  "reach E conf = dial (re_sys E) (re_peer E) (re_resolve E) conf ConnectOpts_default"

text \<open>
  \<open>relayed P conf target D answer wire got\<close>: the local peer has \<open>got\<close> a prefix of the answer, and one direction is
  complete: \<open>got\<close> is the answer, or what is on the wire to the server is decrypted there to the target's address and the
  data \<open>D\<close>, up to the cut of the first packet.
\<close>

definition relayed :: "crypto_prims \<Rightarrow> ServerConfig \<Rightarrow> Address \<Rightarrow> bytes \<Rightarrow> bytes \<Rightarrow> bytes \<Rightarrow> bytes \<Rightarrow> bool" where
  "relayed P conf target D answer wire got \<longleftrightarrow> prefix got answer \<and> (got = answer
     \<or> (\<exists>server first rest. DecryptedReader_new (sc_method conf) (sc_enc_key conf) = (Ok server :: (unit, _) res)
         \<and> D = first @ rest \<and> length first \<le> MAX_PACKET_SIZE
         \<and> server_gets P server wire (take MAX_PACKET_SIZE (addr_bytes target @ first) @ rest)))"

lemma reached_connects:
  assumes "aead_laws (tl_prims T)" and "rng_ok (re_rng E)" and "config_ok L conf" and "reach E conf = Ok stream"
  obtains ps where "connect (tl_prims T) (tl_block T) (re_rng E) (re_draw E) (re_sys E) (re_peer E) (re_resolve E) conf target
      ConnectOpts_default = Some (Ok ps)"
proof -
  have k: "is_aead (sc_method conf)" "length (sc_enc_key conf) = kind_key_size (sc_method conf)"
    using assms(3) unfolding config_ok_def by blast+
  then have "0 < kind_key_size (sc_method conf)" by (auto simp: is_aead_def)
  then have r: "\<exists>i \<ge> re_draw E. \<not> list_all (\<lambda>x. x = 0) (re_rng E i (kind_key_size (sc_method conf)))"
    using assms(2) by (simp add: rng_ok_def)
  from connect_ok [where rng = "re_rng E", OF assms(1) k r assms(4) [unfolded reach_def], of "tl_block T" target] that
  show thesis by blast
qed

lemma server_reader:
  assumes "is_aead k"
  obtains server where "DecryptedReader_new k key = (Ok server :: (unit, _) res)"
  using assms that by (auto simp: DecryptedReader_new_def is_aead_def salt_len_def)

lemma reached_relays:
  assumes "aead_laws (tl_prims T)" and "rng_ok (re_rng E)" and "addr_wf target" and "config_ok L conf"
    and "reach E conf = Ok stream" and "honest (tl_prims T) conf answer stream"
    and "good_events lr" and "good_grants lw" and "sent lw = []" and "stream_data lr \<noteq> []"
    and "length lr + length (grants (snd stream)) + length (fst stream) + length (grants lw) < fuel"
  shows "\<exists>ps0 lr' ps lw'. connect_upstream T E conf target = Some (Ok ps0)
    \<and> proxy fuel (tl_prims T) (re_clock E) (re_rnd E) (re_junk E) ps0 lr lw = Some (Ok (), lr', ps, lw')
    \<and> relayed (tl_prims T) conf target (stream_data lr) (concat answer) (sent (cs_out (ps_stream ps))) (sent lw')"
proof -
  have k: "is_aead (sc_method conf)" "length (sc_enc_key conf) = kind_key_size (sc_method conf)"
    using assms(4) unfolding config_ok_def by blast+
  from reached_connects [OF assms(1,2,4,5), of target] obtain ps0 where
    c: "connect (tl_prims T) (tl_block T) (re_rng E) (re_draw E) (re_sys E) (re_peer E) (re_resolve E) conf target
      ConnectOpts_default = Some (Ok ps0)" by blast
  obtain server where s: "DecryptedReader_new (sc_method conf) (sc_enc_key conf) = (Ok server :: (unit, _) res)"
    using server_reader [OF k(1)] by blast
  have "\<And>j m. length (re_rng E j m) = m" using assms(2) by (simp add: rng_ok_def)
  from proxy_dialled [OF assms(1) this assms(3) k(2) assms(5) [unfolded reach_def] assms(6) c s assms(7-9,11),
      of "re_clock E" "re_rnd E" "re_junk E"]
  obtain lr' ps lw' where p: "proxy fuel (tl_prims T) (re_clock E) (re_rnd E) (re_junk E) ps0 lr lw = Some (Ok (), lr', ps, lw')"
    "prefix (sent lw') (concat answer)"
    "sent lw' = concat answer \<or> stream_data lr = [] \<or> (\<exists>first rest. stream_data lr = first @ rest \<and> length first \<le> MAX_PACKET_SIZE
       \<and> server_gets (tl_prims T) server (sent (cs_out (ps_stream ps))) (take MAX_PACKET_SIZE (addr_bytes target @ first) @ rest))"
    by (elim exE conjE)
  have "relayed (tl_prims T) conf target (stream_data lr) (concat answer) (sent (cs_out (ps_stream ps))) (sent lw')"
    using p(2,3) assms(10) s unfolding relayed_def by blast
  with p(1) c show ?thesis unfolding connect_upstream_def by blast
qed

section \<open>Properties\<close>

text \<open>
  C1: the transparent proxy as a whole.  A client opens a connection and sends data from which the destination is
  found.  If some live server of the pool can be reached and fewer than five live servers cannot, the task of the
  connection ends without an error: one of the five tries reaches a server, with either strategy of the pool, because
  every failed try takes its server out of the choice.  The client has then received a prefix of the answer of that server,
  and the answer is complete, or the server has received and can decrypt the destination and all that the client
  sent, including the bytes that were looked at, up to the cut of the first packet.
\<close>

theorem connection_served:
  assumes "running L H u" and "md5_law L" and "url_law L" and "length (servers (peers u)) \<le> 2 ^ 31"
    and "aead_laws (tl_prims T)" and "\<And>k. rng_ok (re_rng (env k))"
    and "good_events (fst local)" and "good_grants (snd local)" and "sent (snd local) = []"
    and "destination_addr (tl_sniff T) (fst (peek 1024 (fst local))) = Some (Ok (host, port))"
    and "addr_wf (DomainNameAddress host port)"
    and "confs = map sv_config (servers (peers u))"
    and "\<And>k i. i < length confs \<Longrightarrow> i \<notin> down \<Longrightarrow> \<exists>stream. reach (env k) (confs ! i) = Ok stream
      \<and> honest (tl_prims T) (confs ! i) (answer i) stream
      \<and> length (fst local) + length (grants (snd stream)) + length (fst stream) + length (grants (snd local)) < fuel"
    and "\<And>k i. i < length confs \<Longrightarrow> i \<in> down \<Longrightarrow> \<exists>e. reach (env k) (confs ! i) = Err e"
    and "g < length confs" and "alive (servers (peers u) ! g) = Ok True" and "g \<notin> down"
    and "card {i \<in> down. i < length confs \<and> alive (servers (peers u) ! i) = Ok True} < 5"
  shows "\<exists>i ps lr lw u'. handle_connection fuel T env local u = Some (Ok (), Some (i, ps), (lr, lw), u')
    \<and> i < length confs \<and> alive (servers (peers u) ! i) = Ok True \<and> i \<notin> down
    \<and> relayed (tl_prims T) (confs ! i) (DomainNameAddress host port) (stream_data (fst local)) (concat (answer i))
        (sent (cs_out (ps_stream ps))) (sent lw)
    \<and> running L H u'"
proof -
  have len: "length confs = length (servers (peers u))" using assms(12) by simp
  have alive: "i < length (servers (peers u)) \<Longrightarrow> alive (servers (peers u) ! i) = Ok (is_alive (servers (peers u) ! i))" for i
    using running_ok [OF assms(1)] by (intro alive_server_ok) (auto simp: peers_ok_def list_all_length)
  then have "alive_set u \<inter> down = {i \<in> down. i < length confs \<and> alive (servers (peers u) ! i) = Ok True}"
    by (auto simp: alive_set_def len)
  with assms(18) have bad: "card (alive_set u \<inter> down) < 5" by simp
  have g: "g \<in> alive_set u" using assms(15,16) alive by (simp add: alive_set_def len)
  obtain p lr where pk: "peek 1024 (fst local) = (p, lr)" by fastforce
  note lr = peek_keeps [OF assms(7) pk]
  have "p \<noteq> Inr []" using assms(10) nothing_peeked [of "tl_sniff T"] pk by auto
  then have data: "stream_data lr \<noteq> []" using lr(2,4) by simp
  have "\<forall>c \<in> set confs. config_ok L c"
    unfolding assms(12) by (rule running_configs [OF assms(1)]) (rule load_usable [OF assms(2,3)])
  then have ok: "config_ok L (confs ! i)" if "i < length confs" for i using that by simp
  let ?Q = "\<lambda>i ps lw. relayed (tl_prims T) (confs ! i) (DomainNameAddress host port) (stream_data (fst local)) (concat (answer i))
        (sent (cs_out (ps_stream ps))) (sent lw)"
  have relays: "\<exists>ps0 lr' ps lw. connect_upstream T (env k) (confs ! i) (DomainNameAddress host port) = Some (Ok ps0)
      \<and> proxy fuel (tl_prims T) (re_clock (env k)) (re_rnd (env k)) (re_junk (env k)) ps0 (fst (lr, snd local)) (snd (lr, snd local))
          = Some (Ok (), lr', ps, lw) \<and> ?Q i ps lw" if "i < length confs" "i \<notin> down" for k i
  proof -
    from assms(13) [OF that, of k] obtain stream where s: "reach (env k) (confs ! i) = Ok stream"
      "honest (tl_prims T) (confs ! i) (answer i) stream"
      "length (fst local) + length (grants (snd stream)) + length (fst stream) + length (grants (snd local)) < fuel"
      by (elim exE conjE)
    have "length lr + length (grants (snd stream)) + length (fst stream) + length (grants (snd local)) < fuel"
      using s(3) lr(3) by simp
    from reached_relays [OF assms(5) assms(6) assms(11) ok [OF that(1)] s(1,2) lr(1) assms(8,9) data this]
    show ?thesis unfolding lr(2) fst_conv snd_conv .
  qed
  have refuses: "\<exists>e. connect_upstream T (env k) (confs ! i) (DomainNameAddress host port) = Some (Err e)"
    if "i < length confs" "i \<in> down" for k i
    using assms(14) [OF that, of k] by (auto simp: connect_upstream_def connect_def reach_def)
  have "\<exists>i ps lr' lw u'. try_servers fuel T env host port (lr, snd local) 5 u = Some (Ok (), Some (i, ps), (lr', lw), u')
      \<and> i \<in> alive_set u \<and> i \<notin> down \<and> ?Q i ps lw \<and> running L H u'"
    by (rule try_servers_succeeds [where Q = ?Q, OF assms(1,4,12) _ _ g assms(17) bad]) (erule relays refuses, assumption)+
  then obtain i ps lr' lw u' where t: "try_servers fuel T env host port (lr, snd local) 5 u = Some (Ok (), Some (i, ps), (lr', lw), u')"
    "i \<in> alive_set u" "i \<notin> down" "?Q i ps lw" "running L H u'" by (elim exE conjE)
  have "handle_connection fuel T env local u = Some (Ok (), Some (i, ps), (lr', lw), u')"
    using t(1) assms(10) pk by (simp add: handle_connection_def)
  moreover have "i < length confs" "alive (servers (peers u) ! i) = Ok True"
    using t(2) alive by (simp_all add: alive_set_def len)
  ultimately show ?thesis using t(3-5) by blast
qed

text \<open>The pool of one server, which answers with one packet.\<close>

definition demo_answer :: bytes where
  "demo_answer = replicate 32 2
     @ frames null_prims (fresh_cipher null_prims AES_256_GCM (sc_enc_key demo_config) (replicate 32 2)) [[7]]"

definition demo_relay :: relay_env where
  "demo_relay = \<lparr>re_rng = (\<lambda>j m. replicate m 3), re_draw = 0, re_sys = (\<lambda>h op. Ok ()),
     re_peer = (\<lambda>a. ([RData demo_answer], \<lparr>grants = [], sent = []\<rparr>)), re_resolve = (\<lambda>d p. Ok (V4 (Ipv4Addr 10 0 0 1) p)),
     re_clock = (\<lambda>s. 0), re_rnd = 0, re_junk = (\<lambda>n. replicate n 0), re_now = 0\<rparr>"

definition demo_thp :: thp_libs where
  "demo_thp = \<lparr>tl_sniff = ref_sniff, tl_prims = null_prims, tl_block = null_block, tl_etld1 = (\<lambda>h. None)\<rparr>"

lemma demo_reach: "reach demo_relay demo_config = Ok ([RData demo_answer], \<lparr>grants = [], sent = []\<rparr>)"
  by (simp add: reach_def dial_def demo_relay_def demo_config_def fresh_config_def ConnectOpts_default_def
    TcpSocketOpts_default_def connect_runs_plan connect_plan_def local_bind_def then_sock_def sock_call_def)

lemma demo_honest: "honest null_prims demo_config [[7]] ([RData demo_answer], \<lparr>grants = [], sent = []\<rparr>)"
proof -
  have "sc_method demo_config = AES_256_GCM" by (simp add: demo_config_def fresh_config_def)
  moreover have "demo_answer \<noteq> []" by (simp add: demo_answer_def)
  ultimately show ?thesis
    by (auto simp: honest_def good_grants_def good_events_def packets_def MAX_PACKET_SIZE_def demo_answer_def
      intro!: exI [of _ "replicate 32 2"])
qed

theorem connection_served_witness:
  "\<exists>u i ps lr lw u'. running demo_libs demo_http u
    \<and> handle_connection 9 demo_thp (\<lambda>k. demo_relay) ([RPending, RData (encode_hello demo_hello)], \<lparr>grants = [], sent = []\<rparr>) u
        = Some (Ok (), Some (i, ps), (lr, lw), u')
    \<and> relayed null_prims demo_config (DomainNameAddress ''a.example'' 443) (encode_hello demo_hello) [7]
        (sent (cs_out (ps_stream ps))) (sent lw)"
proof -
  obtain u where u: "running demo_libs demo_http u" "length (servers (peers u)) = 1" "alive (servers (peers u) ! 0) = Ok True"
    by (rule demo_running)
  let ?local = "([RPending, RData (encode_hello demo_hello)], \<lparr>grants = [], sent = []\<rparr>)"
  let ?confs = "map sv_config (servers (peers u))"
  have "\<forall>c \<in> set ?confs. c = demo_config"
    by (rule running_configs [OF u(1)]) (auto simp: demo_load Server_new_def)
  then have conf: "?confs ! 0 = demo_config" using u(2) by simp
  have len: "length (encode_hello demo_hello) \<le> 1024" "encode_hello demo_hello \<noteq> []"
    by (simp_all add: encode_hello_def demo_hello_def encode_ext_def)
  have dst: "destination_addr (tl_sniff demo_thp) (fst (peek 1024 (fst ?local))) = Some (Ok (''a.example'', 443))"
    using demo_hello_sniffed len(1) by (simp add: demo_thp_def)
  have wf: "addr_wf (DomainNameAddress ''a.example'' 443)" by (simp add: valid_utf8_ascii is_ascii_def)
  have rng: "rng_ok (re_rng demo_relay)" by (auto simp: rng_ok_def demo_relay_def list_all_iff)
  have laws: "aead_laws (tl_prims demo_thp)" using null_prims_laws by (simp add: demo_thp_def)
  have up: "\<exists>stream. reach demo_relay (?confs ! i) = Ok stream \<and> honest (tl_prims demo_thp) (?confs ! i) [[7]] stream
      \<and> length (fst ?local) + length (grants (snd stream)) + length (fst stream) + length (grants (snd ?local)) < 9"
    if "i < length ?confs" for i
    using that conf demo_reach demo_honest u(2) by (simp add: demo_thp_def)
  have l: "good_events (fst ?local)" "good_grants (snd ?local)" "sent (snd ?local) = []" "length (servers (peers u)) \<le> 2 ^ 31"
    "0 < length ?confs"
    using len(2) u(2) by (simp_all add: good_events_def good_grants_def)
  have "\<exists>i ps lr lw u'. handle_connection 9 demo_thp (\<lambda>k. demo_relay) ?local u = Some (Ok (), Some (i, ps), (lr, lw), u')
      \<and> i < length ?confs \<and> alive (servers (peers u) ! i) = Ok True \<and> i \<notin> {}
      \<and> relayed (tl_prims demo_thp) (?confs ! i) (DomainNameAddress ''a.example'' 443) (stream_data (fst ?local)) (concat [[7]])
          (sent (cs_out (ps_stream ps))) (sent lw) \<and> running demo_libs demo_http u'"
    by (rule connection_served [where down = "{}" and answer = "\<lambda>i. [[7]]", OF u(1) demo_libs_laws l(4) laws rng l(1-3) dst wf refl _ _ l(5) u(3)])
      (use up in simp_all)
  then obtain i ps lr lw u' where "handle_connection 9 demo_thp (\<lambda>k. demo_relay) ?local u = Some (Ok (), Some (i, ps), (lr, lw), u')"
    "i < 1" "relayed (tl_prims demo_thp) (?confs ! i) (DomainNameAddress ''a.example'' 443) (stream_data (fst ?local)) (concat [[7]])
          (sent (cs_out (ps_stream ps))) (sent lw)" using u(2) by auto
  with u(1) conf have "running demo_libs demo_http u
    \<and> handle_connection 9 demo_thp (\<lambda>k. demo_relay) ?local u = Some (Ok (), Some (i, ps), (lr, lw), u')
    \<and> relayed null_prims demo_config (DomainNameAddress ''a.example'' 443) (encode_hello demo_hello) [7]
        (sent (cs_out (ps_stream ps))) (sent lw)" by (simp add: demo_thp_def)
  then show ?thesis by blast
qed

text \<open>A request whose Host header names a host of 300 letters.\<close>

definition long_request :: bytes where
  "long_request = as_bytes ''GET / HTTP/1.1'' @ 10 # host_field @ as_bytes (replicate 300 (CHR ''a'')) @ [10]"

lemma long_request_sniffed:
  "destination_addr ref_sniff (Inr long_request) = Some (Ok (replicate 300 (CHR ''a''), 80))" "length long_request \<le> 1024"
proof -
  let ?h = "replicate 300 (CHR ''a'')"
  have l: "list_all header_line [as_bytes ''GET / HTTP/1.1'']"
    by (simp add: header_line_def as_bytes_def byte_of_char_def host_field_def)
  have v: "10 \<notin> set (as_bytes ?h)" by (simp add: as_bytes_def byte_of_char_def)
  have u: "from_utf8 (as_bytes ?h) = Some ?h" by (intro from_utf8_as_bytes valid_utf8_ascii) (simp add: is_ascii_def)
  have d: "long_request = concat (map (\<lambda>l. l @ [10]) [as_bytes ''GET / HTTP/1.1'']) @ host_field @ as_bytes ?h @ 10 # []"
    by (simp add: long_request_def)
  show n: "length long_request \<le> 1024" by (simp add: long_request_def)
  have h: "hd long_request \<in> byte_of_char ` set ''GPDHCOT''" by (simp add: long_request_def as_bytes_def)
  have "trim ?h = ?h" by (rule trim_graphic) (simp_all add: graphic_def)
  with request_destination [OF ref_sniff_law l v u d n h]
  show "destination_addr ref_sniff (Inr long_request) = Some (Ok (?h, 80))" by simp
qed

text \<open>
  C6: the type of what is sniffed.  Whatever the first bytes of a connection are, a host name that is found is valid
  UTF-8 of at most 1024 bytes and the port is 443 or 80.  With the host it is a well-formed target address exactly if
  the name has at most 255 bytes; a stream to a longer one panics with the first write, which ends the task of the
  connection.
\<close>

theorem sniffed_target_typed:
  assumes "sniff_law L" and "length data \<le> 1024" and "destination_addr L (Inr data) = Some (Ok (host, port))"
  shows "valid_utf8 (as_bytes host) \<and> length host \<le> 1024 \<and> (port = 443 \<or> port = 80)
    \<and> (addr_wf (DomainNameAddress host port) \<longleftrightarrow> length host \<le> 255)
    \<and> (ps_write ps = WConnect (DomainNameAddress host port) \<longrightarrow> length host > 255 \<longrightarrow>
         ProxyStream_poll_write P clk rnd junk buf ps = (Ready Panic, ps))"
  using destination_text [OF assms]
  by (simp add: ProxyStream_poll_write_def make_first_packet_buffer_def)

theorem sniffed_target_typed_witness:
  "destination_addr ref_sniff (Inr long_request) = Some (Ok (replicate 300 (CHR ''a''), 80))
   \<and> \<not> addr_wf (DomainNameAddress (replicate 300 (CHR ''a'')) 80)
   \<and> valid_utf8 (as_bytes (replicate 300 (CHR ''a'')))"
  using sniffed_target_typed [OF ref_sniff_law long_request_sniffed(2,1)] long_request_sniffed(1) by (simp del: replicate_Suc)

end
