(* ===== verification/HealthCheck.thy ===== *)
theory HealthCheck
  imports ThpServer
begin

text \<open>
  \<^verbatim>\<open>src/upstream/checker.rs\<close>: the check of a server.  A page is requested through the server, over the stream of
  \<^verbatim>\<open>ProxyStream::connect\<close>, and the time until its status line arrives is the server's latency.

  \<^verbatim>\<open>AsyncWriteExt::write_all\<close> and \<^verbatim>\<open>AsyncBufReadExt::read_until\<close> belong to the crate \<^verbatim>\<open>tokio\<close>: they are fields of
  \<open>tokio_io\<close>, and what they do with a stream is stated by \<open>write_all_law\<close> and \<open>read_until_law\<close>.  A value \<open>None\<close> is a call that
  never returns.
\<close>

section \<open>The request\<close>

record tokio_io =
  io_write_all :: "bytes \<Rightarrow> ProxyStream \<Rightarrow> ((io_error, unit) res \<times> ProxyStream) option"
  io_read_until :: "byte \<Rightarrow> bytes \<Rightarrow> ProxyStream \<Rightarrow> ((io_error, bytes) res \<times> ProxyStream) option"

definition crlf :: string where "crlf = [CHR 0x0D, CHR 0x0A]"

definition GET_BODY :: bytes where
  "GET_BODY = as_bytes (''GET /success.txt HTTP/1.1'' @ crlf @ ''Host: detectportal.firefox.com'' @ crlf
     @ ''Connection: close'' @ crlf @ ''Accept: */*'' @ crlf @ crlf)"

definition EXPECTED_HTTP_STATUS_LINE :: bytes where
  "EXPECTED_HTTP_STATUS_LINE = as_bytes (''HTTP/1.1 200 OK'' @ crlf)"

definition check_target :: Address where
  "check_target = DomainNameAddress ''detectportal.firefox.com'' 80"

text \<open>The result, and the stream at the end, if there is one.\<close>

definition check_request_tcp_firefox :: "tokio_io \<Rightarrow> thp_libs \<Rightarrow> relay_env \<Rightarrow> ServerConfig
    \<Rightarrow> ((io_error, unit) res \<times> ProxyStream option) option" where
  "check_request_tcp_firefox X T E conf = (case connect_upstream T E conf check_target of
     None \<Rightarrow> None
   | Some (Err e) \<Rightarrow> Some (Err e, None)
   | Some Panic \<Rightarrow> Some (Panic, None)
   | Some (Ok stream) \<Rightarrow> (case io_write_all X GET_BODY stream of
       None \<Rightarrow> None
     | Some (Err e, stream) \<Rightarrow> Some (Err e, Some stream)
     | Some (Panic, stream) \<Rightarrow> Some (Panic, Some stream)
     | Some (Ok _, stream) \<Rightarrow> (case io_read_until X 10 [] stream of
         None \<Rightarrow> None
       | Some (Err e, stream) \<Rightarrow> Some (Err e, Some stream)
       | Some (Panic, stream) \<Rightarrow> Some (Panic, Some stream)
       | Some (Ok buf, stream) \<Rightarrow>
           Some (if buf \<noteq> EXPECTED_HTTP_STATUS_LINE
                 then Err (IoError InvalidData ''unexpected response from http://detectportal.firefox.com/success.txt'')
                 else Ok (), Some stream))))"

text \<open>
  \<^verbatim>\<open>check_update_score\<close> of a checker: \<open>in_time\<close> tells whether the request ended before the timeout.
\<close>

definition check_server :: "tokio_io \<Rightarrow> thp_libs \<Rightarrow> relay_env \<Rightarrow> bool \<Rightarrow> nat \<Rightarrow> nat \<Rightarrow> nat \<Rightarrow> Server
    \<Rightarrow> (unit, Server) res" where
  "check_server X T E in_time secs millis now s =
     (let result = (if in_time then map_option fst (check_request_tcp_firefox X T E (sv_config s)) else None) in
      check_update_score now (check_delay secs millis result) s)"

section \<open>Writing all and reading a line\<close>

text \<open>
  \<^verbatim>\<open>write_all\<close> writes until nothing is left; a write of no bytes is an error.  \<^verbatim>\<open>read_until\<close> of a buffered
  reader appends portions of at most \<open>cap\<close> bytes until one contains the delimiter or is empty, and keeps the bytes after it.
\<close>

definition write_all_law :: "'w writer \<Rightarrow> (bytes \<Rightarrow> 'w \<Rightarrow> ((io_error, unit) res \<times> 'w) option) \<Rightarrow> bool" where
  "write_all_law wr writes \<longleftrightarrow> (\<forall>b w. writes b w =
     (if b = [] then Some (Ok (), w)
      else case wr b w of
        (Pending, w) \<Rightarrow> writes b w
      | (Ready (Ok n), w) \<Rightarrow> if n = 0 then Some (Err write_zero, w) else writes (drop n b) w
      | (Ready (Err e), w) \<Rightarrow> Some (Err e, w)
      | (Ready Panic, w) \<Rightarrow> Some (Panic, w)))"

definition read_until_law :: "'r reader \<Rightarrow> nat \<Rightarrow> (byte \<Rightarrow> bytes \<Rightarrow> 'r \<Rightarrow> ((io_error, bytes) res \<times> 'r) option) \<Rightarrow> bool" where
  "read_until_law rd cap reads \<longleftrightarrow> (\<forall>d acc r. reads d acc r =
     (case rd cap r of
        (Pending, r) \<Rightarrow> reads d acc r
      | (Ready (Ok b), r) \<Rightarrow> if b = [] then Some (Ok acc, r) else if d \<in> set b then Some (Ok (acc @ read_until d b), r) else reads d (acc @ b) r
      | (Ready (Err e), r) \<Rightarrow> Some (Err e, r)
      | (Ready Panic, r) \<Rightarrow> Some (Panic, r)))"

definition tokio_law :: "thp_libs \<Rightarrow> relay_env \<Rightarrow> tokio_io \<Rightarrow> bool" where
  "tokio_law T E X \<longleftrightarrow>
     write_all_law (ProxyStream_poll_write (tl_prims T) (re_clock E) (re_rnd E) (re_junk E)) (io_write_all X)
   \<and> (\<exists>cap > 0. read_until_law (ProxyStream_poll_read (tl_prims T) (re_clock E)) cap (io_read_until X))"

lemma read_until_append_absent: "d \<notin> set b \<Longrightarrow> read_until d (b @ T) = b @ read_until d T"
  by (induction b) auto

lemma read_until_append_present: "d \<in> set b \<Longrightarrow> read_until d (b @ T) = read_until d b"
  by (induction b) auto

context async_writer
begin

lemma write_all_ok:
  assumes "write_all_law wr writes" and "took w d T" and "d = None \<or> d = Some b" and "b = [] \<Longrightarrow> d = None" and "length b \<le> room"
    and "Q w" and "\<And>b w. Q w \<Longrightarrow> Q (snd (wr b w))"
  shows "\<exists>w'. writes b w = Some (Ok (), w') \<and> took w' None (T @ b) \<and> Q w'"
  using assms(2-6)
proof (induction "length b + wdelay w" arbitrary: b w d T rule: less_induct)
  case less
  note eq = assms(1) [unfolded write_all_law_def, rule_format, of b w]
  show ?case
  proof (cases "b = []")
    case True
    with less.prems eq show ?thesis by auto
  next
    case False
    obtain p w1 where w1: "wr b w = (p, w1)" by fastforce
    with assms(7) [OF less.prems(5), of b] have q: "Q w1" by simp
    from wr_ok [OF less.prems(1,2) False less.prems(4) w1] show ?thesis
    proof (elim disjE conjE exE)
      assume p: "p = Pending" "took w1 (Some b) T" "wdelay w1 < wdelay w"
      then have "length b + wdelay w1 < length b + wdelay w" by simp
      from less.hyps [OF this p(2) _ _ less.prems(4) q] False eq w1 p(1) show ?thesis by simp
    next
      fix n assume n: "p = Ready (Ok n)" "0 < n" "n \<le> length b" "took w1 None (T @ take n b)" "wdelay w1 \<le> wdelay w"
      then have "length (drop n b) + wdelay w1 < length b + wdelay w" by simp
      from less.hyps [OF this n(4) _ _ _ q] less.prems(4) False eq w1 n(1,2) show ?thesis by simp
    qed
  qed
qed

end

context async_reader
begin

lemma read_until_ok:
  assumes "read_until_law rd cap reads" and "0 < cap" and "holds r T" and "Q r" and "\<And>r. Q r \<Longrightarrow> Q (snd (rd cap r))"
  shows "\<exists>r'. reads d acc r = Some (Ok (acc @ read_until d T), r') \<and> Q r'"
  using assms(3,4)
proof (induction "length T + rdelay r" arbitrary: r T acc rule: less_induct)
  case less
  note eq = assms(1) [unfolded read_until_law_def, rule_format, of d acc r]
  obtain p r1 where r1: "rd cap r = (p, r1)" by fastforce
  with assms(5) [OF less.prems(2)] have q: "Q r1" by simp
  from rd_ok [OF less.prems(1) assms(2) r1] show ?case
  proof (elim disjE conjE exE)
    assume p: "p = Pending" "holds r1 T" "rdelay r1 < rdelay r"
    then have "length T + rdelay r1 < length T + rdelay r" by simp
    from less.hyps [OF this p(2) q, of acc] eq r1 p(1) show ?thesis by simp
  next
    fix b T' assume b: "p = Ready (Ok b)" "T = b @ T'" "b = [] \<longrightarrow> T = []" "holds r1 T'" "rdelay r1 \<le> rdelay r"
    show ?thesis
    proof (cases "b = [] \<or> d \<in> set b")
      case True
      with b eq r1 q show ?thesis by (auto simp: read_until_append_present)
    next
      case False
      then have "length T' + rdelay r1 < length T + rdelay r" using b(2,5) by (cases b) simp_all
      from less.hyps [OF this b(4) q, of "acc @ b"] False eq r1 b(1,2) show ?thesis by (simp add: read_until_append_absent)
    qed
  qed
qed

end

section \<open>The check of a reachable server\<close>

lemma check_target_wf: "addr_wf check_target"
  by (simp add: check_target_def valid_utf8_ascii is_ascii_def)

lemma check_request_fits: "length (addr_bytes check_target @ GET_BODY) \<le> MAX_PACKET_SIZE" "GET_BODY \<noteq> []"
  by (simp_all add: check_target_def GET_BODY_def crlf_def MAX_PACKET_SIZE_def as_bytes_def)

lemma check_reachable:
  assumes "tokio_law T E X" and "aead_laws (tl_prims T)" and "rng_ok (re_rng E)" and "config_ok L conf"
    and "reach E conf = Ok stream" and "honest (tl_prims T) conf answer stream"
  shows "\<exists>ps server. check_request_tcp_firefox X T E conf = Some (if read_until 10 (concat answer) = EXPECTED_HTTP_STATUS_LINE then Ok ()
        else Err (IoError InvalidData ''unexpected response from http://detectportal.firefox.com/success.txt''), Some ps)
    \<and> DecryptedReader_new (sc_method conf) (sc_enc_key conf) = (Ok server :: (unit, _) res)
    \<and> server_gets (tl_prims T) server (sent (cs_out (ps_stream ps))) (addr_bytes check_target @ GET_BODY)"
proof -
  let ?P = "tl_prims T" and ?k = "sc_method conf" and ?key = "sc_enc_key conf"
  let ?wr = "ProxyStream_poll_write ?P (re_clock E) (re_rnd E) (re_junk E)" and ?rd = "ProxyStream_poll_read ?P (re_clock E)"
  have rng: "\<And>j m. length (re_rng E j m) = m" using assms(3) by (simp add: rng_ok_def)
  have key: "length ?key = kind_key_size ?k" using assms(4) unfolding config_ok_def by blast
  obtain ps0 where c: "connect ?P (tl_block T) (re_rng E) (re_draw E) (re_sys E) (re_peer E) (re_resolve E) conf check_target
      ConnectOpts_default = Some (Ok ps0)"
    using reached_connects [OF assms(2-5)] by blast
  obtain iv where f: "length iv = kind_key_size ?k" "is_aead ?k"
    "proxy_took ?P (fresh_cipher ?P ?k ?key iv) iv check_target MAX_PACKET_SIZE ps0 None []"
    "proxy_holds ?P ?k ps0 (concat answer)"
    using connect_ready [OF assms(2) rng check_target_wf key assms(5) [unfolded reach_def] assms(6) c] by blast
  let ?took = "proxy_took ?P (fresh_cipher ?P ?k ?key iv) iv check_target MAX_PACKET_SIZE"
  let ?keeps = "\<lambda>x. ps_read x = ps_read ps0 \<and> cs_in (ps_stream x) = cs_in (ps_stream ps0) \<and> cs_dec (ps_stream x) = cs_dec (ps_stream ps0)"
  have law: "write_all_law ?wr (io_write_all X)" using assms(1) by (simp add: tokio_law_def)
  have len: "length GET_BODY \<le> MAX_PACKET_SIZE" using check_request_fits(1) by simp
  have "\<exists>ps1. io_write_all X GET_BODY ps0 = Some (Ok (), ps1) \<and> ?took ps1 None ([] @ GET_BODY) \<and> ?keeps ps1"
    by (rule proxy_writer.write_all_ok [where Q = ?keeps, OF law f(3) _ _ len]) (simp_all add: poll_write_reads)
  then obtain ps1 where w: "io_write_all X GET_BODY ps0 = Some (Ok (), ps1)" "?took ps1 None GET_BODY" "?keeps ps1" by auto
  from w(3) have h: "proxy_holds ?P ?k ps1 (concat answer)" using f(4) by (simp add: proxy_holds_def)
  let ?Q = "\<lambda>x. reads_aead x \<and> ?took x None GET_BODY"
  have "?Q ps1" using h w(2) by (auto simp: proxy_holds_def)
  moreover obtain cap where cap: "0 < cap" "read_until_law ?rd cap (io_read_until X)" using assms(1) by (auto simp: tokio_law_def)
  moreover have "?Q (snd (?rd cap x))" if "?Q x" for x using that by (simp add: poll_read_took poll_read_writes(5))
  ultimately have "\<exists>ps. io_read_until X 10 [] ps1 = Some (Ok ([] @ read_until 10 (concat answer)), ps) \<and> ?Q ps"
    using h by (intro proxy_reader.read_until_ok [where Q = ?Q, OF cap(2,1)]) blast+
  then obtain ps where r: "io_read_until X 10 [] ps1 = Some (Ok (read_until 10 (concat answer)), ps)" "?took ps None GET_BODY" by auto
  obtain server where s: "DecryptedReader_new ?k ?key = (Ok server :: (unit, _) res)" using server_reader [OF f(2)] by blast
  from took_delivered [OF r(2) check_request_fits(2) assms(2) s key f(1)] obtain first rest where d: "GET_BODY = first @ rest"
    "server_gets ?P server (sent (cs_out (ps_stream ps))) (first_packet check_target first @ rest)" by blast
  have "length GET_BODY = length first + length rest" using arg_cong [OF d(1), of length] by (simp only: length_append)
  then have "first_packet check_target first = addr_bytes check_target @ first"
    using check_request_fits(1) by (simp add: first_packet_def)
  with d have "server_gets ?P server (sent (cs_out (ps_stream ps))) (addr_bytes check_target @ GET_BODY)" by simp
  moreover have "connect_upstream T E conf check_target = Some (Ok ps0)" using c by (simp add: connect_upstream_def)
  ultimately show ?thesis using w(1) r(1) s by (auto simp: check_request_tcp_firefox_def)
qed

lemma latency_check_update_score:
  "bind_res (check_update_score now delay s) latency = (case delay of Ok v \<Rightarrow> Ok v | Err _ \<Rightarrow> Ok 0 | Panic \<Rightarrow> Panic)"
  by (cases delay) (simp_all add: check_update_score_def latency_def push_latency_def Let_def)

text \<open>A server that cannot be reached is marked as down.\<close>

lemma check_unreachable:
  assumes "reach E (sv_config s) = Err e"
  shows "bind_res (check_server X T E in_time secs millis now s) latency = Ok 0"
  using assms
  by (simp add: check_server_def latency_check_update_score check_request_tcp_firefox_def connect_upstream_def connect_def reach_def
    check_delay_def)

text \<open>After a round of checks the servers that answer as expected are alive, unless they answer in no time.\<close>

lemma checked_pool_alive:
  assumes "check_once checks p = Ok r" and "\<forall>s \<in> set (servers p). length (sv_latencies s) \<le> MAX_HISTORY"
    and "i < length (servers p)" and "conf = sv_config (servers p ! i)"
    and "snd (checks i) = check_delay secs millis (map_option fst (check_request_tcp_firefox X T E conf))"
    and "tokio_law T E X" and "aead_laws (tl_prims T)" and "rng_ok (re_rng E)" and "config_ok L conf"
    and "reach E conf = Ok stream" and "honest (tl_prims T) conf answer stream"
    and "read_until 10 (concat answer) = EXPECTED_HTTP_STATUS_LINE" and "0 < secs * 1000 + millis" and "secs * 1000 + millis < 2 ^ 32"
  shows "alive (servers r ! i) = Ok True"
proof -
  have ne: "servers p \<noteq> []" using assms(3) by auto
  note c = check_once_cur [OF ne assms(1,2)]
  from check_reachable [OF assms(6-11)] obtain ps where "check_request_tcp_firefox X T E conf = Some (Ok (), Some ps)"
    using assms(12) by auto
  then have "snd (checks i) = Ok (of_nat (secs * 1000 + millis))" by (simp add: assms(5) check_delay_def)
  then have v: "cur (servers r ! i) = of_nat (secs * 1000 + millis)" using c(4) [OF assms(3)] by (simp add: check_score_def)
  have "unat (of_nat (secs * 1000 + millis) :: u32) = secs * 1000 + millis"
    using assms(14) by (simp only: unat_of_nat) simp
  then have "(0 :: u32) < of_nat (secs * 1000 + millis)" using assms(13) by (simp only: word_less_nat_alt unat_0)
  moreover have "server_ok (servers r ! i)" using c(1,2) assms(3) by (simp add: list_all_length)
  ultimately show ?thesis by (simp only: alive_server_ok is_alive_def v)
qed

section \<open>Properties\<close>

text \<open>
  C23: the check of a server that can be reached and answers over the encrypted stream, in any portions and with
  any delays.  It always ends, without a panic; the server decrypts exactly the address of the probe and the request; the check succeeds
  exactly if the first line of the answer is the expected status line, and the latency is then the elapsed time in
  milliseconds, in 32 bits; in all other cases, and if the time is over, it is 0, so that the server counts as down.
\<close>

theorem health_check:
  assumes "tokio_law T E X" and "aead_laws (tl_prims T)" and "rng_ok (re_rng E)" and "config_ok L (sv_config s)"
    and "reach E (sv_config s) = Ok stream" and "honest (tl_prims T) (sv_config s) answer stream"
  shows "(\<exists>r ps server. check_request_tcp_firefox X T E (sv_config s) = Some (r, Some ps)
      \<and> (r = Ok () \<longleftrightarrow> read_until 10 (concat answer) = EXPECTED_HTTP_STATUS_LINE)
      \<and> DecryptedReader_new (sc_method (sv_config s)) (sc_enc_key (sv_config s)) = (Ok server :: (unit, _) res)
      \<and> server_gets (tl_prims T) server (sent (cs_out (ps_stream ps))) (addr_bytes check_target @ GET_BODY))
    \<and> bind_res (check_server X T E in_time secs millis now s) latency
        = Ok (if in_time \<and> read_until 10 (concat answer) = EXPECTED_HTTP_STATUS_LINE then of_nat (secs * 1000 + millis) else 0)"
proof -
  from check_reachable [OF assms] obtain ps server where c:
    "check_request_tcp_firefox X T E (sv_config s) = Some (if read_until 10 (concat answer) = EXPECTED_HTTP_STATUS_LINE then Ok ()
        else Err (IoError InvalidData ''unexpected response from http://detectportal.firefox.com/success.txt''), Some ps)"
    "DecryptedReader_new (sc_method (sv_config s)) (sc_enc_key (sv_config s)) = (Ok server :: (unit, _) res)"
    "server_gets (tl_prims T) server (sent (cs_out (ps_stream ps))) (addr_bytes check_target @ GET_BODY)" by blast
  have "bind_res (check_server X T E in_time secs millis now s) latency
      = Ok (if in_time \<and> read_until 10 (concat answer) = EXPECTED_HTTP_STATUS_LINE then of_nat (secs * 1000 + millis) else 0)"
    by (simp add: check_server_def latency_check_update_score c(1) check_delay_def)
  with c show ?thesis by auto
qed

text \<open>The two functions of \<^verbatim>\<open>tokio\<close> as loops.\<close>

partial_function (option) write_all_loop :: "'w writer \<Rightarrow> bytes \<Rightarrow> 'w \<Rightarrow> ((io_error, unit) res \<times> 'w) option" where
  "write_all_loop wr b w =
     (if b = [] then Some (Ok (), w)
      else case wr b w of
        (p, w) \<Rightarrow> (case p of
          Pending \<Rightarrow> write_all_loop wr b w
        | Ready x \<Rightarrow> (case x of
            Ok n \<Rightarrow> if n = 0 then Some (Err write_zero, w) else write_all_loop wr (drop n b) w
          | Err e \<Rightarrow> Some (Err e, w)
          | Panic \<Rightarrow> Some (Panic, w))))"

partial_function (option) read_until_loop :: "'r reader \<Rightarrow> nat \<Rightarrow> byte \<Rightarrow> bytes \<Rightarrow> 'r \<Rightarrow> ((io_error, bytes) res \<times> 'r) option" where
  "read_until_loop rd cap d acc r =
     (case rd cap r of
        (p, r) \<Rightarrow> (case p of
          Pending \<Rightarrow> read_until_loop rd cap d acc r
        | Ready x \<Rightarrow> (case x of
            Ok b \<Rightarrow> if b = [] then Some (Ok acc, r) else if d \<in> set b then Some (Ok (acc @ read_until d b), r)
              else read_until_loop rd cap d (acc @ b) r
          | Err e \<Rightarrow> Some (Err e, r)
          | Panic \<Rightarrow> Some (Panic, r))))"

definition loop_io :: "thp_libs \<Rightarrow> relay_env \<Rightarrow> tokio_io" where
  "loop_io T E = \<lparr>io_write_all = write_all_loop (ProxyStream_poll_write (tl_prims T) (re_clock E) (re_rnd E) (re_junk E)),
     io_read_until = read_until_loop (ProxyStream_poll_read (tl_prims T) (re_clock E)) 8192\<rparr>"

lemma loop_io_law: "tokio_law T E (loop_io T E)"
proof -
  have "write_all_law wr (write_all_loop wr)" for wr :: "ProxyStream writer"
    unfolding write_all_law_def by (intro allI, subst write_all_loop.simps) (auto split: prod.split poll.split res.split)
  moreover have "read_until_law rd cap (read_until_loop rd cap)" for rd :: "ProxyStream reader" and cap
    unfolding read_until_law_def by (intro allI, subst read_until_loop.simps) (auto split: prod.split poll.split res.split)
  ultimately show ?thesis by (auto simp: tokio_law_def loop_io_def intro!: exI [of _ 8192])
qed

text \<open>The answer of the probe, in two packets.\<close>

definition demo_page :: "bytes list" where
  "demo_page = [as_bytes ''HTTP/1.1'', as_bytes ('' 200 OK'' @ crlf @ ''success'')]"

definition demo_page_stream :: "read_event list \<times> wsocket" where
  "demo_page_stream = ([RPending, RData (replicate 32 2
     @ frames null_prims (fresh_cipher null_prims AES_256_GCM (sc_enc_key demo_config) (replicate 32 2)) demo_page)], \<lparr>grants = [], sent = []\<rparr>)"

lemma demo_page_honest: "honest null_prims demo_config demo_page demo_page_stream"
proof -
  have "sc_method demo_config = AES_256_GCM" by (simp add: demo_config_def fresh_config_def)
  then show ?thesis
    by (auto simp: honest_def good_grants_def good_events_def packets_def MAX_PACKET_SIZE_def demo_page_stream_def demo_page_def crlf_def
      as_bytes_def simp del: frames.simps intro!: exI [of _ "replicate 32 2"])
qed

theorem health_check_witness:
  "bind_res (check_server (loop_io demo_thp (demo_relay\<lparr>re_peer := \<lambda>a. demo_page_stream\<rparr>)) demo_thp
     (demo_relay\<lparr>re_peer := \<lambda>a. demo_page_stream\<rparr>) True 1 20 0 (Server_new demo_config)) latency = Ok 1020"
proof -
  let ?E = "demo_relay\<lparr>re_peer := \<lambda>a. demo_page_stream\<rparr>"
  have s: "sv_config (Server_new demo_config) = demo_config" by (simp add: Server_new_def)
  have laws: "aead_laws (tl_prims demo_thp)" using null_prims_laws by (simp add: demo_thp_def)
  have rng: "rng_ok (re_rng ?E)" by (auto simp: rng_ok_def demo_relay_def list_all_iff)
  have ok: "config_ok demo_libs demo_config"
    using load_usable [OF demo_libs_laws demo_load, of "Server_new demo_config"] s by simp
  have r: "reach ?E demo_config = Ok demo_page_stream"
    by (simp add: reach_def dial_def demo_relay_def demo_config_def fresh_config_def ConnectOpts_default_def
      TcpSocketOpts_default_def connect_runs_plan connect_plan_def local_bind_def then_sock_def sock_call_def)
  have h: "honest (tl_prims demo_thp) demo_config demo_page demo_page_stream" using demo_page_honest by (simp add: demo_thp_def)
  have "read_until 10 (concat demo_page) = EXPECTED_HTTP_STATUS_LINE"
    by (simp add: demo_page_def EXPECTED_HTTP_STATUS_LINE_def crlf_def as_bytes_def byte_of_char_def)
  with health_check [of demo_thp ?E _ demo_libs "Server_new demo_config" demo_page_stream demo_page True 1 20 0, unfolded s,
      OF loop_io_law laws rng ok r h] show ?thesis by simp
qed

end
