(* ===== verification/DnsRule.thy ===== *)
theory DnsRule
  imports Rust_IO
begin

unbundle bit_operations_syntax

text \<open>
  The domain rules of the DNS server (\<^verbatim>\<open>src/dns/rule\<close>): the two implementations of a rule set,
  \<^verbatim>\<open>trie/set.rs\<close> on a hash set and \<^verbatim>\<open>trie/bloom.rs\<close> on a Bloom filter, between which a feature of the crate
  chooses (\<^verbatim>\<open>bloom-trie\<close> by default), the loader of a rule list
  (\<^verbatim>\<open>load.rs\<close>), and the character table and bitmaps drafted in \<^verbatim>\<open>trie/louds.rs\<close>.

  A rule \<^verbatim>\<open>host\<close> is stored with its labels in reverse order.  A name is the list of its labels, the first
  label first; \<^verbatim>\<open>Name::num_labels\<close> belongs to the DNS library and is an argument.  The Bloom filter is a
  parameter as well.
\<close>

section \<open>Rule sets\<close>

text \<open>\<^verbatim>\<open>host.rsplit('.').collect::<Vec<_>>().join(".")\<close>\<close>

definition rev_labels :: "string \<Rightarrow> string" where
  "rev_labels host = join_with (CHR ''.'') (rev (split_on (CHR ''.'') host))"

text \<open>
  The loop of \<^verbatim>\<open>contain\<close> over the reversed labels, for a membership test \<open>mem\<close>: \<open>len\<close> is
  \<^verbatim>\<open>num_labels()\<close>, \<open>index\<close> counts the labels.  The test \<^verbatim>\<open>index == length - 1\<close> is false for every index if
  \<open>len\<close> is 0, also when the subtraction wraps.
\<close>

fun contain_loop :: "(string \<Rightarrow> bool) \<Rightarrow> nat \<Rightarrow> nat \<Rightarrow> string \<Rightarrow> string list \<Rightarrow> bool" where
  "contain_loop mem len index buf [] = False"
| "contain_loop mem len index buf (label # labels) =
     (let buf = buf @ label in
      if mem buf then
        (if Suc index = len then True else contain_loop mem len (Suc index) (buf @ ''.'') labels)
      else
        (let buf = buf @ ''.'' in
         if mem buf then True
         else if Suc index = len then False
         else contain_loop mem len (Suc index) buf labels))"

record Trie =
  entries :: "string set"

definition Trie_new :: Trie where "Trie_new = \<lparr>entries = {}\<rparr>"

definition swap :: "Trie \<Rightarrow> Trie \<Rightarrow> Trie" where
  "swap t other = t\<lparr>entries := entries other\<rparr>"

definition Trie_insert :: "string \<Rightarrow> Trie \<Rightarrow> Trie" where
  "Trie_insert host t = t\<lparr>entries := insert (rev_labels host) (entries t)\<rparr>"

definition contain :: "(string list \<Rightarrow> nat) \<Rightarrow> Trie \<Rightarrow> string list \<Rightarrow> bool" where
  "contain num_labels t name = contain_loop (\<lambda>s. s \<in> entries t) (num_labels name) 0 [] (rev name)"

record 'b bloom_lib =
  with_rate :: "rat \<Rightarrow> nat \<Rightarrow> 'b"
  bl_insert :: "string \<Rightarrow> 'b \<Rightarrow> 'b"
  bl_contains :: "'b \<Rightarrow> string \<Rightarrow> bool"

definition Bloom_new :: "'b bloom_lib \<Rightarrow> 'b" where
  "Bloom_new B = with_rate B (1 / 10000) 40000"

definition Bloom_swap :: "'b \<Rightarrow> 'b \<Rightarrow> 'b" where
  "Bloom_swap b other = other"

definition Bloom_insert :: "'b bloom_lib \<Rightarrow> string \<Rightarrow> 'b \<Rightarrow> 'b" where
  "Bloom_insert B host b = bl_insert B (rev_labels host) b"

definition Bloom_contain :: "'b bloom_lib \<Rightarrow> (string list \<Rightarrow> nat) \<Rightarrow> 'b \<Rightarrow> string list \<Rightarrow> bool" where
  "Bloom_contain B num_labels b name = contain_loop (bl_contains B b) (num_labels name) 0 [] (rev name)"

text \<open>
  \<^verbatim>\<open>trie/mod.rs\<close>: the module that the features of the crate select, \<^verbatim>\<open>bloom-trie\<close> (the default) or \<^verbatim>\<open>set-trie\<close>.
  Everything that uses a rule set takes it as an argument.
\<close>

record 't trie_mod =
  tm_new :: 't
  tm_swap :: "'t \<Rightarrow> 't \<Rightarrow> 't"
  tm_insert :: "string \<Rightarrow> 't \<Rightarrow> 't"
  tm_contain :: "(string list \<Rightarrow> nat) \<Rightarrow> 't \<Rightarrow> string list \<Rightarrow> bool"

definition set_mod :: "Trie trie_mod" where
  "set_mod = \<lparr>tm_new = Trie_new, tm_swap = swap, tm_insert = Trie_insert, tm_contain = contain\<rparr>"

definition bloom_mod :: "'b bloom_lib \<Rightarrow> 'b trie_mod" where
  "bloom_mod B = \<lparr>tm_new = Bloom_new B, tm_swap = Bloom_swap, tm_insert = Bloom_insert B, tm_contain = Bloom_contain B\<rparr>"

section \<open>Loading a rule list\<close>

datatype rule_error = Rule_Http string | UnexpectedStatusCode nat | Rule_Io io_error | Rule_InvalidUri string

text \<open>
  The loop over the lines: a broken body or a line that is not UTF-8 is an error; a final line
  without line feed counts.  \<open>cnt\<close>, the \<^verbatim>\<open>total\<close> of the code, is a \<^verbatim>\<open>u32\<close>.
\<close>

function load_lines :: "'t trie_mod \<Rightarrow> io_error option \<Rightarrow> 't \<Rightarrow> u32 \<Rightarrow> bytes
    \<Rightarrow> (rule_error, 't \<times> u32) res" where
  "load_lines R err t cnt bs =
     (if bs = [] \<or> last (read_until 10 bs) \<noteq> 10 \<and> err \<noteq> None then
        (case err of None \<Rightarrow> Ok (t, cnt) | Some e \<Rightarrow> Err (Rule_Io e))
      else (case from_utf8 (read_until 10 bs) of
          None \<Rightarrow> Err (Rule_Io (IoError InvalidData ''stream did not contain valid UTF-8''))
        | Some buf \<Rightarrow> load_lines R err (tm_insert R (trim buf) t) (cnt + 1) (drop (length (read_until 10 bs)) bs)))"
  by pat_completeness auto
termination
proof (relation "measure (\<lambda>(_, _, _, _, bs). length bs)", simp)
  fix R :: "'t trie_mod" and err :: "io_error option" and t :: 't and cnt :: u32 and bs buf
  assume "\<not> (bs = [] \<or> last (read_until 10 bs) \<noteq> 10 \<and> err \<noteq> None)"
  then have "0 < length (read_until 10 bs)" by simp
  then have "length (drop (length (read_until 10 bs)) bs) < length bs"
    using length_read_until_le [of 10 bs] unfolding length_drop by linarith
  then show "((R, err, tm_insert R (trim buf) t, cnt + 1, drop (length (read_until 10 bs)) bs), (R, err, t, cnt, bs))
      \<in> measure (\<lambda>(_, _, _, _, bs). length bs)"
    by simp
qed

declare load_lines.simps [simp del]

definition load_rules :: "'t trie_mod \<Rightarrow> http_lib \<Rightarrow> string \<Rightarrow> (rule_error, 't \<times> u32) res" where
  "load_rules R H endpoint =
     bind_res (of_sum Rule_InvalidUri (uri_parse H endpoint)) (\<lambda>uri.
     bind_res (of_sum Rule_Http (http_get H uri)) (\<lambda>(status, body).
       if status \<noteq> 200 then Err (UnexpectedStatusCode status)
       else load_lines R (map_option (IoError Other) (body_error body)) (tm_new R) 0 (body_bytes body)))"

section \<open>The character table of the LOUDS draft\<close>

definition validate :: "byte \<Rightarrow> bool" where
  "validate c =
     (if 48 \<le> c \<and> c \<le> 57 then True
      else if c \<ge> 97 \<and> c \<le> 122 then True
      else c = 46 \<or> c = 45)"

definition ascii_to_index :: "byte \<Rightarrow> nat" where
  "ascii_to_index c =
     (if c \<ge> 97 \<and> c \<le> 122 then unat (c - 97 + 2 + 10)
      else if 48 \<le> c \<and> c \<le> 57 then unat (c - 48 + 2)
      else if c = 46 then 0 else 1)"

text \<open>A shift of a \<^verbatim>\<open>u128\<close> uses the low seven bits of its distance.\<close>

definition bitmap_get :: "128 word \<Rightarrow> nat \<Rightarrow> bool" where
  "bitmap_get m index = (m AND push_bit (index mod 128) 1 \<noteq> 0)"

definition bitmap_set :: "128 word \<Rightarrow> nat \<Rightarrow> bool \<Rightarrow> 128 word" where
  "bitmap_set m index v =
     (let mask = push_bit (index mod 128) 1 in if v then m OR mask else m AND (NOT mask))"

section \<open>Reversed hosts\<close>

lemma split_on_dotted:
  "l \<noteq> [] \<Longrightarrow> \<forall>p \<in> set l. CHR ''.'' \<notin> set p \<Longrightarrow> split_on (CHR ''.'') (join_with (CHR ''.'') l) = l"
  by (rule split_join_with)

lemma rev_labels_rev_labels [simp]: "rev_labels (rev_labels h) = h"
  by (simp add: rev_labels_def split_on_dotted split_on_pieces)

lemma rev_labels_inj: "rev_labels a = rev_labels b \<longleftrightarrow> a = b"
  by (metis rev_labels_rev_labels)

lemma join_with_snoc_Nil: "l \<noteq> [] \<Longrightarrow> join_with d (l @ [[]]) = join_with d l @ [d]"
  by (induction d l rule: join_with.induct) (auto simp: neq_Nil_conv)

lemma rev_labels_wildcard: "rev_labels (CHR ''.'' # h) = rev_labels h @ ''.''"
  by (simp add: rev_labels_def join_with_snoc_Nil)

definition name_wf :: "string list \<Rightarrow> bool" where
  "name_wf name = (name \<noteq> [] \<and> list_all (\<lambda>l. CHR ''.'' \<notin> set l) name)"

abbreviation host_of :: "string list \<Rightarrow> string" where
  "host_of \<equiv> join_with (CHR ''.'')"

lemma rev_labels_host_of: "name_wf name \<Longrightarrow> rev_labels (host_of name) = host_of (rev name)"
  by (simp add: rev_labels_def name_wf_def split_on_dotted list_all_iff)

section \<open>The membership loop\<close>

lemma join_with_Cons: "xs \<noteq> [] \<Longrightarrow> join_with d (x # xs) = x @ d # join_with d xs"
  by (cases xs) auto

lemma ex_pos_Suc: "(\<exists>k. 0 < k \<and> k \<le> Suc n \<and> Q k) \<longleftrightarrow> Q 1 \<or> (\<exists>k. 0 < k \<and> k \<le> n \<and> Q (Suc k))"
  (is "?l \<longleftrightarrow> ?r")
proof
  assume ?l
  then obtain k where "k < Suc n" "Q (Suc k)" by (metis Suc_pred' Suc_le_eq)
  then show ?r by (cases k) (auto simp: Suc_le_eq intro!: exI [of _ k])
next
  assume ?r
  then show ?l by (elim disjE exE) (auto intro: exI [of _ 1])
qed

lemma contain_loop_iff:
  "contain_loop mem (index + length ls) index buf ls \<longleftrightarrow>
     ls \<noteq> [] \<and> mem (buf @ host_of ls)
   \<or> (\<exists>k. 0 < k \<and> k \<le> length ls \<and> \<not> mem (buf @ host_of (take k ls)) \<and> mem (buf @ host_of (take k ls) @ ''.''))"
proof (induction ls arbitrary: index buf)
  case (Cons label labels)
  let ?Q = "\<lambda>k. \<not> mem (buf @ host_of (take k (label # labels))) \<and> mem (buf @ host_of (take k (label # labels)) @ ''.'')"
  show ?case
  proof (cases "labels = []")
    case True
    then show ?thesis by (auto simp: Let_def ex_pos_Suc)
  next
    case False
    let ?buf = "buf @ label @ ''.''"
    let ?rest = "contain_loop mem (Suc index + length labels) (Suc index) ?buf labels"
    have shift: "host_of (take (Suc k) (label # labels)) = label @ ''.'' @ host_of (take k labels)" if "0 < k" for k
      using that False by (simp add: join_with_Cons)
    have rest: "?rest \<longleftrightarrow> mem (buf @ host_of (label # labels)) \<or> (\<exists>k. 0 < k \<and> k \<le> length labels \<and> ?Q (Suc k))"
      unfolding Cons.IH using False by (simp add: join_with_Cons shift cong: conj_cong)
    have step: "contain_loop mem (index + length (label # labels)) index buf (label # labels) \<longleftrightarrow> ?Q 1 \<or> ?rest"
      using False by (auto simp: Let_def)
    show ?thesis unfolding step rest using ex_pos_Suc [of "length labels" ?Q] by auto
  qed
qed simp

section \<open>Stores of rules\<close>

text \<open>A store never forgets what was inserted; an exact one contains nothing else.\<close>

locale rule_store =
  fixes emp :: 's and ins :: "string \<Rightarrow> 's \<Rightarrow> 's" and mem :: "'s \<Rightarrow> string \<Rightarrow> bool"
  assumes mem_ins: "mem (ins x s) x"
    and mem_keep: "mem s y \<Longrightarrow> mem (ins x s) y"
begin

lemma mem_fold_keep: "mem s y \<Longrightarrow> mem (fold ins xs s) y"
  by (induction xs arbitrary: s) (auto intro: mem_keep)

lemma mem_stored: "x \<in> set xs \<Longrightarrow> mem (fold ins xs s) x"
  by (induction xs arbitrary: s) (auto intro: mem_fold_keep mem_ins)

end

locale exact_rule_store = rule_store +
  assumes mem_emp: "\<not> mem emp x"
    and mem_only: "mem (ins x s) y \<Longrightarrow> y = x \<or> mem s y"
begin

lemma mem_fold_only: "mem (fold ins xs s) y \<Longrightarrow> y \<in> set xs \<or> mem s y"
  by (induction xs arbitrary: s) (auto dest: mem_only)

lemma mem_fold: "mem (fold ins xs emp) y \<longleftrightarrow> y \<in> set xs"
  using mem_fold_only mem_stored mem_emp by blast

end

interpretation set_trie: exact_rule_store Trie_new Trie_insert "\<lambda>t host. rev_labels host \<in> entries t"
  by unfold_locales (auto simp: Trie_new_def Trie_insert_def rev_labels_inj)

definition bloom_law :: "'b bloom_lib \<Rightarrow> bool" where
  "bloom_law B = ((\<forall>b x. bl_contains B (bl_insert B x b) x)
     \<and> (\<forall>b x y. bl_contains B b y \<longrightarrow> bl_contains B (bl_insert B x b) y))"

lemma bloom_rule_store:
  "bloom_law B \<Longrightarrow> rule_store (Bloom_insert B) (\<lambda>b host. bl_contains B b (rev_labels host))"
  by unfold_locales (auto simp: bloom_law_def Bloom_insert_def)

text \<open>The loop in terms of hosts: \<open>has\<close> tells which hosts the store contains.\<close>

lemma contain_loop_hosts:
  assumes "name_wf name" and "\<And>h. has h = mem (rev_labels h)"
  shows "contain_loop mem (length name) 0 [] (rev name) \<longleftrightarrow>
    has (host_of name) \<or> (\<exists>k < length name. has (CHR ''.'' # host_of (drop k name)) \<and> \<not> has (host_of (drop k name)))"
proof -
  let ?n = "length name"
  have suffix: "rev_labels (host_of (drop k name)) = host_of (take (?n - k) (rev name))" if "k < ?n" for k
  proof -
    have "name_wf (drop k name)" using assms(1) that by (auto simp: name_wf_def list_all_length)
    then show ?thesis using that by (simp add: rev_labels_host_of rev_drop)
  qed
  have "(\<exists>k. 0 < k \<and> k \<le> ?n \<and> P k) \<longleftrightarrow> (\<exists>k < ?n. P (?n - k))" for P
    by (metis diff_diff_cancel diff_less diff_le_self less_imp_le zero_less_diff order_less_le_trans)
  moreover have "mem (host_of (rev name)) = has (host_of name)"
    using assms by (simp add: rev_labels_host_of)
  moreover have "name \<noteq> []" using assms(1) by (simp add: name_wf_def)
  ultimately show ?thesis
    using contain_loop_iff [of mem 0 "rev name" "[]"] assms(2)
    by (auto simp: rev_labels_wildcard suffix)
qed

lemma load_lines_step:
  assumes "valid_utf8 (as_bytes h)" and "CHR 0x0A \<notin> set h"
  shows "load_lines R err t cnt (as_bytes h @ 10 # rest) = load_lines R err (tm_insert R (trim (h @ [CHR 0x0A])) t) (cnt + 1) rest"
proof -
  have lf: "as_bytes [CHR 0x0A] = [10]" by (simp add: as_bytes_def byte_of_char_def)
  have "10 \<notin> set (as_bytes h)"
  proof
    assume "10 \<in> set (as_bytes h)"
    then obtain c where "c \<in> set h" "byte_of_char c = byte_of_char (CHR 0x0A)"
      using lf by (auto simp: as_bytes_def)
    then show False using assms(2) by (metis char_of_byte_of_char)
  qed
  then have line: "read_until 10 (as_bytes h @ 10 # rest) = as_bytes (h @ [CHR 0x0A])"
    by (simp add: read_until_append lf)
  have "valid_utf8 (as_bytes (h @ [CHR 0x0A]))" using assms(1) by (simp add: lf valid_utf8_append)
  then have utf8: "from_utf8 (as_bytes (h @ [CHR 0x0A])) = Some (h @ [CHR 0x0A])" by (rule from_utf8_as_bytes)
  have "last (as_bytes (h @ [CHR 0x0A])) = 10" by (simp add: lf)
  then show ?thesis
    by (subst load_lines.simps) (simp add: line utf8 del: as_bytes_append)
qed

lemma load_lines_hosts:
  "list_all (\<lambda>h. valid_utf8 (as_bytes h) \<and> CHR 0x0A \<notin> set h) ls \<Longrightarrow>
   load_lines R None t cnt (concat (map (\<lambda>h. as_bytes h @ [10]) ls)) =
     Ok (fold (tm_insert R) (map (\<lambda>h. trim (h @ [CHR 0x0A])) ls) t, cnt + of_nat (length ls))"
proof (induction ls arbitrary: t cnt)
  case Nil
  then show ?case by (simp add: load_lines.simps)
next
  case (Cons h ls)
  then show ?case by (simp add: load_lines_step)
qed

section \<open>Slots\<close>

lemma validate_cases:
  "validate c \<longleftrightarrow> 48 \<le> unat c \<and> unat c \<le> 57 \<or> 97 \<le> unat c \<and> unat c \<le> 122 \<or> unat c = 45 \<or> unat c = 46"
proof -
  have "c = 45 \<longleftrightarrow> unat c = 45" "c = 46 \<longleftrightarrow> unat c = 46"
    by (simp_all add: word_unat_eq_iff)
  then show ?thesis by (auto simp: validate_def word_le_nat_alt)
qed

lemma ascii_to_index_unat:
  "ascii_to_index c =
     (if 97 \<le> unat c \<and> unat c \<le> 122 then unat c - 85
      else if 48 \<le> unat c \<and> unat c \<le> 57 then unat c - 46
      else if unat c = 46 then 0 else 1)"
  by (simp add: ascii_to_index_def word_le_nat_alt unat_word_ariths unat_sub word_unat_eq_iff)

lemma bitmap_get_bit: "i < 128 \<Longrightarrow> bitmap_get m i = bit m i"
  by (simp add: bitmap_get_def and_exp_eq_0_iff_not_bit push_bit_of_1)

section \<open>Properties\<close>

text \<open>
  C12: what a rule set on a hash set matches (\<^verbatim>\<open>trie/set.rs\<close>, the feature \<^verbatim>\<open>set-trie\<close>).  After inserting any hosts, a name is contained exactly if it is itself
  one of the hosts, or if for one of its suffixes the wildcard \<^verbatim>\<open>.suffix\<close> was inserted while the plain
  suffix was not: a plain rule switches the wildcard rule for the same domain off.
\<close>

theorem rules_match:
  assumes "name_wf name" and "num_labels name = length name"
  shows "contain num_labels (fold Trie_insert hosts Trie_new) name \<longleftrightarrow>
    host_of name \<in> set hosts
    \<or> (\<exists>k < length name. CHR ''.'' # host_of (drop k name) \<in> set hosts \<and> host_of (drop k name) \<notin> set hosts)"
  using contain_loop_hosts [OF assms(1), of "\<lambda>h. h \<in> set hosts" "\<lambda>s. s \<in> entries (fold Trie_insert hosts Trie_new)"]
    set_trie.mem_fold [where xs = hosts] assms(2)
  by (simp add: contain_def)

theorem rules_match_witness:
  "contain length (fold Trie_insert [''.foo.com'', ''bar.com''] Trie_new) [''abc'', ''foo'', ''com'']
   \<and> \<not> contain length (fold Trie_insert [''.foo.com'', ''bar.com''] Trie_new) [''bb'', ''bar'', ''com'']
   \<and> \<not> contain length (fold Trie_insert [''.foo.com'', ''foo.com''] Trie_new) [''abc'', ''foo'', ''com'']"
proof -
  have "name_wf [''abc'', ''foo'', ''com'']" "name_wf [''bb'', ''bar'', ''com'']" by (simp_all add: name_wf_def)
  note m = rules_match [OF this(1), of length] rules_match [OF this(2), of length]
  have ex: "(\<exists>k < length [a, b, c]. P k) \<longleftrightarrow> P 0 \<or> P 1 \<or> P 2" for P and a b c :: string
    by (auto simp: less_Suc_eq numeral_eq_Suc)
  show ?thesis unfolding m [OF refl] ex by simp
qed

text \<open>
  C13: what a rule set on a Bloom filter matches (\<^verbatim>\<open>trie/bloom.rs\<close>, the default).  Every inserted host is reported by
  the filter.  A name is contained exactly if the filter reports the name itself, or for one of its suffixes
  reports the wildcard \<^verbatim>\<open>.suffix\<close> and not the plain suffix.  So a name that was inserted as a plain rule is always
  contained, whatever the false positives of the filter; a name below a wildcard rule is, unless the filter also
  reports the plain suffix: a false positive may add names, and may also switch a wildcard rule off.
\<close>

theorem bloom_rules_match:
  assumes "bloom_law B" and "name_wf name" and "num_labels name = length name"
    and "b = fold (Bloom_insert B) hosts (Bloom_new B)"
  shows "(\<forall>h \<in> set hosts. bl_contains B b (rev_labels h))
    \<and> (Bloom_contain B num_labels b name \<longleftrightarrow> bl_contains B b (rev_labels (host_of name))
      \<or> (\<exists>k < length name. bl_contains B b (rev_labels (CHR ''.'' # host_of (drop k name)))
          \<and> \<not> bl_contains B b (rev_labels (host_of (drop k name)))))
    \<and> (host_of name \<in> set hosts \<longrightarrow> Bloom_contain B num_labels b name)
    \<and> (\<forall>k < length name. CHR ''.'' # host_of (drop k name) \<in> set hosts
        \<and> \<not> bl_contains B b (rev_labels (host_of (drop k name)))
        \<longrightarrow> Bloom_contain B num_labels b name)"
proof -
  have stored: "bl_contains B b (rev_labels h)" if "h \<in> set hosts" for h
    unfolding assms(4) using rule_store.mem_stored [OF bloom_rule_store [OF assms(1)] that] .
  have "Bloom_contain B num_labels b name \<longleftrightarrow> bl_contains B b (rev_labels (host_of name))
      \<or> (\<exists>k < length name. bl_contains B b (rev_labels (CHR ''.'' # host_of (drop k name)))
          \<and> \<not> bl_contains B b (rev_labels (host_of (drop k name))))"
    using contain_loop_hosts [OF assms(2), of "\<lambda>h. bl_contains B b (rev_labels h)" "bl_contains B b"] assms(3)
    by (simp add: Bloom_contain_def)
  with stored show ?thesis by blast
qed

text \<open>A small filter: the lengths of the hosts modulo 7, so that other hosts of these lengths are false positives.\<close>

definition demo_bloom :: "nat set bloom_lib" where
  "demo_bloom = \<lparr>with_rate = (\<lambda>rate n. {}), bl_insert = (\<lambda>s b. insert (length s mod 7) b), bl_contains = (\<lambda>b s. length s mod 7 \<in> b)\<rparr>"

theorem bloom_rules_match_witness:
  "bloom_law demo_bloom \<and> Bloom_contain demo_bloom length
     (fold (Bloom_insert demo_bloom) [''.foo.com'', ''bar.com''] (Bloom_new demo_bloom)) [''bar'', ''com'']"
proof -
  have law: "bloom_law demo_bloom" by (simp add: bloom_law_def demo_bloom_def)
  moreover have "name_wf [''bar'', ''com'']" by (simp add: name_wf_def)
  ultimately show ?thesis
    using bloom_rules_match [OF law, of "[''bar'', ''com'']" length _ "[''.foo.com'', ''bar.com'']"] by auto
qed

text \<open>
  Loading a rule list with one host per line inserts each host, with surrounding white space
  removed, and counts the lines; a body that breaks off is an error, whatever arrived before.
\<close>

lemma load_rules_lines:
  assumes "uri_parse H e = Inr uri" and "http_get H uri = Inr (200, body)"
    and "body_bytes body = concat (map (\<lambda>h. as_bytes h @ [10]) ls)"
    and "\<forall>h \<in> set ls. valid_utf8 (as_bytes h) \<and> h \<noteq> [] \<and> graphic (hd h) \<and> graphic (last h) \<and> CHR 0x0A \<notin> set h"
  shows "load_rules R H e = (case body_error body of
      None \<Rightarrow> Ok (fold (tm_insert R) ls (tm_new R), of_nat (length ls))
    | Some err \<Rightarrow> Err (Rule_Io (IoError Other err)))"
proof -
  have ls: "list_all (\<lambda>h. valid_utf8 (as_bytes h) \<and> CHR 0x0A \<notin> set h) ls" using assms(4) by (auto simp: list_all_iff)
  have trimmed: "map (\<lambda>h. trim (h @ [CHR 0x0A])) ls = ls"
    using assms(4) by (auto simp: trim_line intro: map_idI)
  show ?thesis
  proof (cases "body_error body")
    case None
    then show ?thesis using load_lines_hosts [OF ls, of R] assms(1-3) trimmed by (simp add: load_rules_def)
  next
    case (Some err)
    have "load_lines R (Some x) t cnt (concat (map (\<lambda>h. as_bytes h @ [10]) ls)) = Err (Rule_Io x)" for x t cnt
      using ls by (induction ls arbitrary: t cnt) (simp_all add: load_lines_step load_lines.simps [of _ _ _ _ "[]"])
    with Some show ?thesis using assms(1-3) by (simp add: load_rules_def)
  qed
qed

text \<open>
  The slots of the LOUDS draft: every valid character has its own slot among 38, so that three
  bitmaps of 38 bits fit a \<^verbatim>\<open>u128\<close>; setting a slot changes that slot only.
\<close>

lemma louds_slots:
  "(\<forall>c. validate c \<longrightarrow> ascii_to_index c < 38) \<and> inj_on ascii_to_index {c. validate c}
   \<and> (\<forall>m i j v. i < 128 \<and> j < 128 \<longrightarrow> bitmap_get (bitmap_set m i v) j = (if j = i then v else bitmap_get m j))"
proof (intro conjI allI impI)
  show "ascii_to_index c < 38" if "validate c" for c
    using that by (auto simp: validate_cases ascii_to_index_unat)
  show "inj_on ascii_to_index {c. validate c}"
  proof (rule inj_onI)
    fix c d assume "c \<in> {c. validate c}" "d \<in> {c. validate c}" "ascii_to_index c = ascii_to_index d"
    then have "unat c = unat d" by (auto simp: validate_cases ascii_to_index_unat split: if_splits)
    then show "c = d" by (rule unsigned_word_eqI)
  qed
  show "bitmap_get (bitmap_set m i v) j = (if j = i then v else bitmap_get m j)" if "i < 128 \<and> j < 128" for m i j v
    using that by (auto simp: bitmap_get_bit bitmap_set_def Let_def bit_simps)
qed

end
