(* ===== verification/DnsHandler.thy ===== *)
theory DnsHandler
  imports DnsRule Lru Resolver
begin

text \<open>
  The DNS request handler (\<^verbatim>\<open>src/dns/handle\<close>, \<^verbatim>\<open>src/dns/server/request.rs\<close> and \<^verbatim>\<open>response.rs\<close>): requests
  and responses, the response cache, the hijack and reject rule sets, the forwarding resolver, and
  the handler that consults them in order.

  The module of the rule sets is an argument \<open>R\<close>, so that everything here holds for both implementations.
  Headers, queries, records and EDNS data belong to the library \<^verbatim>\<open>trust_dns\<close> and are type variables; its
  decoder and encoder are the fields of \<open>proto_lib\<close>, the resolver is an argument, and the LRU map of the
  cache is \<open>lru_lib\<close>.  A point in time is a number of nanoseconds.
\<close>

section \<open>Messages\<close>

datatype ProtoError = BadQueryCount nat | ProtoOther string


record ('h, 'q, 'r, 'e, 'd) proto_lib =
  decoder_new :: "bytes \<Rightarrow> 'd"
  header_read :: "'d \<Rightarrow> ProtoError + 'h \<times> 'd"
  query_count :: "'h \<Rightarrow> nat"
  answer_count :: "'h \<Rightarrow> nat"
  name_server_count :: "'h \<Rightarrow> nat"
  additional_count :: "'h \<Rightarrow> nat"
  query_read :: "'d \<Rightarrow> ProtoError + 'q \<times> 'd"
  read_records :: "'d \<Rightarrow> nat \<Rightarrow> bool \<Rightarrow> ProtoError + ('r list \<times> 'e option \<times> 'r list) \<times> 'd"
  rcode_high :: "'e \<Rightarrow> byte"
  merge_response_code :: "byte \<Rightarrow> 'h \<Rightarrow> 'h"
  set_no_error :: "'h \<Rightarrow> 'h"
  query_name :: "'q \<Rightarrow> string list"
  num_labels :: "string list \<Rightarrow> nat"
  record_from_rdata :: "string list \<Rightarrow> nat \<Rightarrow> IpAddr \<Rightarrow> 'r"
  emit_message_parts :: "nat \<Rightarrow> 'h \<Rightarrow> 'q \<Rightarrow> 'r list \<Rightarrow> 'r list \<Rightarrow> 'r list \<Rightarrow> 'e option \<Rightarrow> 'r list
    \<Rightarrow> ProtoError + bytes"

record ('h, 'q, 'r, 'e) Request =
  rq_header :: 'h
  rq_query :: 'q
  rq_answers :: "'r list"
  rq_name_servers :: "'r list"
  rq_additionals :: "'r list"
  rq_sig0 :: "'r list"
  rq_edns :: "'e option"
  rq_src :: SocketAddr

fun read_queries :: "('h, 'q, 'r, 'e, 'd) proto_lib \<Rightarrow> nat \<Rightarrow> 'd \<Rightarrow> (ProtoError, 'q list \<times> 'd) res" where
  "read_queries P 0 d = Ok ([], d)"
| "read_queries P (Suc n) d =
     bind_res (of_sum (\<lambda>e. e) (query_read P d)) (\<lambda>(q, d).
     bind_res (read_queries P n d) (\<lambda>(qs, d). Ok (q # qs, d)))"

definition from_message :: "('h, 'q, 'r, 'e, 'd) proto_lib \<Rightarrow> bytes \<Rightarrow> SocketAddr
    \<Rightarrow> (ProtoError, ('h, 'q, 'r, 'e) Request) res" where
  "from_message P msg src =
     bind_res (of_sum (\<lambda>e. e) (header_read P (decoder_new P msg))) (\<lambda>(header, d).
     if query_count P header \<noteq> 1 then Err (BadQueryCount (query_count P header))
     else
       bind_res (read_queries P (query_count P header) d) (\<lambda>(queries, d).
       bind_res (of_sum (\<lambda>e. e) (read_records P d (answer_count P header) False)) (\<lambda>((answers, _, _), d).
       bind_res (of_sum (\<lambda>e. e) (read_records P d (name_server_count P header) False)) (\<lambda>((name_servers, _, _), d).
       bind_res (of_sum (\<lambda>e. e) (read_records P d (additional_count P header) True)) (\<lambda>((additionals, edns, sig0), d).
         let header = (case edns of Some ed \<Rightarrow> merge_response_code P (rcode_high P ed) header | None \<Rightarrow> header) in
         if queries = [] then Panic
         else Ok \<lparr>rq_header = header, rq_query = last queries, rq_answers = answers,
           rq_name_servers = name_servers, rq_additionals = additionals, rq_sig0 = sig0,
           rq_edns = edns, rq_src = src\<rparr>)))))"

record ('h, 'q, 'r, 'e) Response =
  rs_header :: 'h
  rs_query :: 'q
  rs_answers :: "'r list"
  rs_name_servers :: "'r list"
  rs_soa :: "'r list"
  rs_additionals :: "'r list"
  rs_sig0 :: "'r list"
  rs_edns :: "'e option"

definition no_records :: "'h \<Rightarrow> 'q \<Rightarrow> ('h, 'q, 'r, 'e) Response" where
  "no_records header query = \<lparr>rs_header = header, rs_query = query, rs_answers = [], rs_name_servers = [],
     rs_soa = [], rs_additionals = [], rs_sig0 = [], rs_edns = None\<rparr>"

definition from_request :: "('h, 'q, 'r, 'e) Request \<Rightarrow> ('h, 'q, 'r, 'e) Response" where
  "from_request req = \<lparr>rs_header = rq_header req, rs_query = rq_query req, rs_answers = [],
     rs_name_servers = [], rs_soa = [], rs_additionals = [], rs_sig0 = [], rs_edns = None\<rparr>"

text \<open>The authority section \<open>rs_soa\<close> is not emitted.\<close>

definition message :: "('h, 'q, 'r, 'e, 'd) proto_lib \<Rightarrow> ('h, 'q, 'r, 'e) Response \<Rightarrow> SocketAddr
    \<Rightarrow> (ProtoError, bytes \<times> SocketAddr) res" where
  "message P resp src =
     bind_res (of_sum (\<lambda>e. e) (emit_message_parts P 512 (rs_header resp) (rs_query resp) (rs_answers resp)
       (rs_name_servers resp) (rs_additionals resp) (rs_edns resp) (rs_sig0 resp)))
     (\<lambda>buf. Ok (buf, src))"

section \<open>The cache\<close>

record ('r, 'e) Entry =
  en_expire_at :: nat
  en_answers :: "'r list"
  en_name_servers :: "'r list"
  en_soa :: "'r list"
  en_additionals :: "'r list"
  en_sig0 :: "'r list"
  en_edns :: "'e option"

record 'l Cache =
  cache_ttl :: nat
  cache_lru :: 'l

definition Cache_new :: "('q, ('r, 'e) Entry, 'l) lru_lib \<Rightarrow> nat \<Rightarrow> nat \<Rightarrow> 'l Cache" where
  "Cache_new LR capacity ttl = \<lparr>cache_ttl = ttl, cache_lru = lru_new LR capacity\<rparr>"

definition Cache_get :: "('h, 'q, 'r, 'e, 'd) proto_lib \<Rightarrow> ('q, ('r, 'e) Entry, 'l) lru_lib \<Rightarrow> nat
    \<Rightarrow> ('h, 'q, 'r, 'e) Request \<Rightarrow> 'l Cache \<Rightarrow> ('h, 'q, 'r, 'e) Response option \<times> 'l Cache" where
  "Cache_get P LR now req c = (case lru_get_mut LR (rq_query req) (cache_lru c) of
     (Some entry, l) \<Rightarrow>
       if en_expire_at entry > now then (None, c\<lparr>cache_lru := lru_remove LR (rq_query req) l\<rparr>)
       else (Some \<lparr>rs_header = set_no_error P (rq_header req), rs_query = rq_query req,
           rs_answers = en_answers entry, rs_name_servers = en_name_servers entry, rs_soa = en_soa entry,
           rs_additionals = en_additionals entry, rs_sig0 = en_sig0 entry, rs_edns = en_edns entry\<rparr>,
         c\<lparr>cache_lru := l\<rparr>)
   | (None, l) \<Rightarrow> (None, c\<lparr>cache_lru := l\<rparr>))"

definition Cache_put :: "('q, ('r, 'e) Entry, 'l) lru_lib \<Rightarrow> nat \<Rightarrow> ('h, 'q, 'r, 'e) Response \<Rightarrow> 'l Cache \<Rightarrow> 'l Cache" where
  "Cache_put LR now resp c =
     (if lru_contains_key LR (rs_query resp) (cache_lru c) then c
      else c\<lparr>cache_lru := lru_insert LR (rs_query resp)
        \<lparr>en_expire_at = now + cache_ttl c, en_answers = rs_answers resp, en_name_servers = rs_name_servers resp,
         en_soa = rs_soa resp, en_additionals = rs_additionals resp, en_sig0 = rs_sig0 resp, en_edns = rs_edns resp\<rparr>
        (cache_lru c)\<rparr>)"

section \<open>Rules and resolver\<close>

datatype DnsError = Resolve ResolveError | InvalidIpAddress string | DnsReject rule_error | DnsHijack rule_error

text \<open>The text of an error is a \<^verbatim>\<open>todo!()\<close>.\<close>

definition DnsError_fmt :: "DnsError \<Rightarrow> (unit, string) res" where
  "DnsError_fmt e = Panic"

record CacheConfig =
  cc_size :: nat
  cc_ttl :: nat

record RejectConfig =
  rc_endpoint :: string
  rc_interval :: "nat option"

record HijackConfig =
  hc_endpoint :: string
  hc_hijack :: IpAddr
  hc_interval :: "nat option"

record 't Reject =
  rj_trie :: 't

definition Reject_new :: "'t trie_mod \<Rightarrow> http_lib \<Rightarrow> RejectConfig \<Rightarrow> (rule_error, 't Reject) res" where
  "Reject_new R H config = bind_res (load_rules R H (rc_endpoint config)) (\<lambda>(t, _). Ok \<lparr>rj_trie = t\<rparr>)"

definition deny :: "'t trie_mod \<Rightarrow> ('h, 'q, 'r, 'e, 'd) proto_lib \<Rightarrow> 't Reject \<Rightarrow> string list \<Rightarrow> bool" where
  "deny R P rj name = tm_contain R (num_labels P) (rj_trie rj) name"

record 't Hijack =
  hj_trie :: 't
  hj_hijack :: IpAddr

definition Hijack_new :: "'t trie_mod \<Rightarrow> http_lib \<Rightarrow> HijackConfig \<Rightarrow> (rule_error, 't Hijack) res" where
  "Hijack_new R H config = bind_res (load_rules R H (hc_endpoint config))
     (\<lambda>(t, _). Ok \<lparr>hj_trie = t, hj_hijack = hc_hijack config\<rparr>)"

definition hijacking :: "'t trie_mod \<Rightarrow> ('h, 'q, 'r, 'e, 'd) proto_lib \<Rightarrow> 't Hijack \<Rightarrow> string list \<Rightarrow> IpAddr option" where
  "hijacking R P hj name = (if tm_contain R (num_labels P) (hj_trie hj) name then Some (hj_hijack hj) else None)"

text \<open>One round of the reload tasks: a failed load keeps the old rules.\<close>

definition reload_reject :: "'t trie_mod \<Rightarrow> (rule_error, 't \<times> u32) res \<Rightarrow> 't Reject \<Rightarrow> 't Reject" where
  "reload_reject R loaded rj = (case loaded of Ok (t, _) \<Rightarrow> rj\<lparr>rj_trie := tm_swap R (rj_trie rj) t\<rparr> | _ \<Rightarrow> rj)"

definition reload_hijack :: "'t trie_mod \<Rightarrow> (rule_error, 't \<times> u32) res \<Rightarrow> 't Hijack \<Rightarrow> 't Hijack" where
  "reload_hijack R loaded hj = (case loaded of Ok (t, _) \<Rightarrow> hj\<lparr>hj_trie := tm_swap R (hj_trie hj) t\<rparr> | _ \<Rightarrow> hj)"

text \<open>\<open>lookup_ip now name\<close> is the answer the forwarding resolver gives at a time.\<close>

definition upstream_resolve :: "('h, 'q, 'r, 'e, 'd) proto_lib \<Rightarrow> (nat \<Rightarrow> string list \<Rightarrow> ResolveError + 'r list) \<Rightarrow> nat
    \<Rightarrow> ('h, 'q, 'r, 'e) Request \<Rightarrow> (DnsError, ('h, 'q, 'r, 'e) Response) res" where
  "upstream_resolve P lookup_ip now req =
     bind_res (of_sum Resolve (lookup_ip now (query_name P (rq_query req)))) (\<lambda>records.
       Ok \<lparr>rs_header = rq_header req, rs_query = rq_query req, rs_answers = records, rs_name_servers = [],
         rs_soa = [], rs_additionals = [], rs_sig0 = [], rs_edns = None\<rparr>)"

section \<open>The handler\<close>

record ('l, 't) Handler =
  h_cache :: "'l Cache option"
  h_hijacker :: "'t Hijack option"
  h_reject :: "'t Reject option"

text \<open>The configured hosts are not used.\<close>

definition Handler_new :: "'t trie_mod \<Rightarrow> ('q, ('r, 'e) Entry, 'l) lru_lib \<Rightarrow> http_lib \<Rightarrow> ResolveError option \<Rightarrow> CacheConfig option
    \<Rightarrow> (string \<times> string) list option \<Rightarrow> RejectConfig option \<Rightarrow> HijackConfig option \<Rightarrow> (DnsError, ('l, 't) Handler) res" where
  "Handler_new R LR H resolver_error cache hosts reject hijack =
     (let cache = map_option (\<lambda>c. Cache_new LR (cc_size c) (cc_ttl c)) cache in
      bind_res (case reject of Some rc \<Rightarrow> map_err DnsReject (map_ok Some (Reject_new R H rc)) | None \<Rightarrow> Ok None) (\<lambda>reject.
      bind_res (case hijack of Some hc \<Rightarrow> map_err DnsHijack (map_ok Some (Hijack_new R H hc)) | None \<Rightarrow> Ok None) (\<lambda>hijacker.
      case resolver_error of Some e \<Rightarrow> Err (Resolve e)
      | None \<Rightarrow> Ok \<lparr>h_cache = cache, h_hijacker = hijacker, h_reject = reject\<rparr>)))"

text \<open>
  What the handler does before it asks the resolver: the response it can give on its own, if any.
  \<open>from_cache\<close> is the first step of it.
\<close>

definition from_cache :: "('h, 'q, 'r, 'e, 'd) proto_lib \<Rightarrow> ('q, ('r, 'e) Entry, 'l) lru_lib \<Rightarrow> nat
    \<Rightarrow> ('h, 'q, 'r, 'e) Request \<Rightarrow> ('l, 't) Handler \<Rightarrow> ('h, 'q, 'r, 'e) Response option \<times> ('l, 't) Handler" where
  "from_cache P LR now req h = (case h_cache h of
     None \<Rightarrow> (None, h)
   | Some cache \<Rightarrow> (case Cache_get P LR now req cache of (resp, cache) \<Rightarrow> (resp, h\<lparr>h_cache := Some cache\<rparr>)))"

definition by_rules :: "'t trie_mod \<Rightarrow> ('h, 'q, 'r, 'e, 'd) proto_lib \<Rightarrow> ('h, 'q, 'r, 'e) Request \<Rightarrow> ('l, 't) Handler
    \<Rightarrow> ('h, 'q, 'r, 'e) Response option" where
  "by_rules R P req h =
     (let name = query_name P (rq_query req) in
      case Option.bind (h_hijacker h) (\<lambda>hj. hijacking R P hj name) of
        Some to \<Rightarrow> Some ((from_request req)\<lparr>rs_answers := [record_from_rdata P name (60 * 60) to]\<rparr>)
      | None \<Rightarrow>
          (case h_reject h of
             Some rj \<Rightarrow> if deny R P rj name then Some (no_records (rq_header req) (rq_query req)) else None
           | None \<Rightarrow> None))"

definition store_answer :: "('q, ('r, 'e) Entry, 'l) lru_lib \<Rightarrow> nat
    \<Rightarrow> (DnsError, ('h, 'q, 'r, 'e) Response) res \<Rightarrow> ('l, 't) Handler \<Rightarrow> ('l, 't) Handler" where
  "store_answer LR now result h = (case (result, h_cache h) of
     (Ok resp, Some cache) \<Rightarrow> h\<lparr>h_cache := Some (Cache_put LR now resp cache)\<rparr>
   | _ \<Rightarrow> h)"

definition handle :: "'t trie_mod \<Rightarrow> ('h, 'q, 'r, 'e, 'd) proto_lib \<Rightarrow> ('q, ('r, 'e) Entry, 'l) lru_lib
    \<Rightarrow> (nat \<Rightarrow> string list \<Rightarrow> ResolveError + 'r list) \<Rightarrow> nat \<Rightarrow> nat \<Rightarrow> ('h, 'q, 'r, 'e) Request \<Rightarrow> ('l, 't) Handler
    \<Rightarrow> (DnsError, ('h, 'q, 'r, 'e) Response) res \<times> ('l, 't) Handler" where
  "handle R P LR lookup_ip now later req h = (case from_cache P LR now req h of
     (Some resp, h) \<Rightarrow> (Ok resp, h)
   | (None, h) \<Rightarrow> (case by_rules R P req h of
       Some resp \<Rightarrow> (Ok resp, h)
     | None \<Rightarrow> let result = upstream_resolve P lookup_ip later req in (result, store_answer LR later result h)))"

text \<open>
  The states of a running handler: requests interleave, so that a cache lookup, the storing of an
  answer that arrives later and a reload of rules are separate steps.
\<close>

inductive dns_running :: "'t trie_mod \<Rightarrow> ('h, 'q, 'r, 'e, 'd) proto_lib \<Rightarrow> ('q, ('r, 'e) Entry, 'l) lru_lib \<Rightarrow> http_lib
    \<Rightarrow> (nat \<Rightarrow> string list \<Rightarrow> ResolveError + 'r list) \<Rightarrow> ('l, 't) Handler \<Rightarrow> bool" for R P LR H lookup_ip where
  started: "Handler_new R LR H None cache hosts reject hijack = Ok h \<Longrightarrow> dns_running R P LR H lookup_ip h"
| looked_up: "dns_running R P LR H lookup_ip h \<Longrightarrow> dns_running R P LR H lookup_ip (snd (from_cache P LR now req h))"
| answered: "dns_running R P LR H lookup_ip h \<Longrightarrow>
    dns_running R P LR H lookup_ip (store_answer LR now (upstream_resolve P lookup_ip now req) h)"
| reject_reloaded: "dns_running R P LR H lookup_ip h \<Longrightarrow>
    dns_running R P LR H lookup_ip (h\<lparr>h_reject := map_option (reload_reject R (load_rules R H e)) (h_reject h)\<rparr>)"
| hijack_reloaded: "dns_running R P LR H lookup_ip h \<Longrightarrow>
    dns_running R P LR H lookup_ip (h\<lparr>h_hijacker := map_option (reload_hijack R (load_rules R H e)) (h_hijacker h)\<rparr>)"

section \<open>The cache as a map\<close>

lemma Cache_get_cases:
  assumes "lru_law LR contents"
  obtains (miss) l where "contents (cache_lru c) (rq_query req) = None"
      and "Cache_get P LR now req c = (None, c\<lparr>cache_lru := l\<rparr>)" and "contents l = contents (cache_lru c)"
  | (dropped) entry l where "contents (cache_lru c) (rq_query req) = Some entry" and "now < en_expire_at entry"
      and "Cache_get P LR now req c = (None, c\<lparr>cache_lru := l\<rparr>)"
      and "contents l = (contents (cache_lru c))(rq_query req := None)"
  | (hit) entry l where "contents (cache_lru c) (rq_query req) = Some entry" and "en_expire_at entry \<le> now"
      and "Cache_get P LR now req c = (Some \<lparr>rs_header = set_no_error P (rq_header req), rs_query = rq_query req,
           rs_answers = en_answers entry, rs_name_servers = en_name_servers entry, rs_soa = en_soa entry,
           rs_additionals = en_additionals entry, rs_sig0 = en_sig0 entry, rs_edns = en_edns entry\<rparr>, c\<lparr>cache_lru := l\<rparr>)"
      and "contents l = contents (cache_lru c)"
proof -
  obtain r l where g: "lru_get_mut LR (rq_query req) (cache_lru c) = (r, l)" by fastforce
  then have r: "r = contents (cache_lru c) (rq_query req)" and l: "contents l = contents (cache_lru c)"
    using assms unfolding lru_law_def by (metis fst_conv, metis snd_conv)
  have rm: "contents (lru_remove LR (rq_query req) l) = (contents (cache_lru c))(rq_query req := None)"
    using assms l by (simp add: lru_law_def)
  show thesis
  proof (cases r)
    case None
    with g r l show thesis by (intro miss [of l]) (simp_all add: Cache_get_def)
  next
    case (Some entry)
    show thesis
    proof (cases "now < en_expire_at entry")
      case True
      with Some g r rm show thesis
        by (intro dropped [of entry "lru_remove LR (rq_query req) l"]) (simp_all add: Cache_get_def)
    next
      case False
      with Some g r l show thesis by (intro hit [of entry l]) (simp_all add: Cache_get_def)
    qed
  qed
qed

lemma Cache_put_contents:
  assumes "lru_law LR contents" and "contents (cache_lru (Cache_put LR now resp c)) q = Some entry"
  shows "contents (cache_lru c) q = Some entry
    \<or> q = rs_query resp \<and> entry = \<lparr>en_expire_at = now + cache_ttl c, en_answers = rs_answers resp,
         en_name_servers = rs_name_servers resp, en_soa = rs_soa resp, en_additionals = rs_additionals resp,
         en_sig0 = rs_sig0 resp, en_edns = rs_edns resp\<rparr>"
proof -
  have sub: "contents (lru_insert LR k v l) \<subseteq>\<^sub>m (contents l)(k \<mapsto> v)" for k v l
    using assms(1) by (simp add: lru_law_def)
  have "q = k \<and> entry = v \<or> contents l q = Some entry" if "contents (lru_insert LR k v l) q = Some entry" for k v l
    using that sub [of k v l] by (metis domI fun_upd_apply map_le_def option.inject)
  then show ?thesis using assms(2) by (auto simp: Cache_put_def split: if_splits)
qed

section \<open>Where cached answers come from\<close>

definition cache_ok :: "('h, 'q, 'r, 'e, 'd) proto_lib \<Rightarrow> ('l \<Rightarrow> 'q \<Rightarrow> ('r, 'e) Entry option)
    \<Rightarrow> (nat \<Rightarrow> string list \<Rightarrow> ResolveError + 'r list) \<Rightarrow> ('l, 't) Handler \<Rightarrow> bool" where
  "cache_ok P contents lookup_ip h =
     (\<forall>cache q entry. h_cache h = Some cache \<and> contents (cache_lru cache) q = Some entry \<longrightarrow>
        (\<exists>t. en_expire_at entry = t + cache_ttl cache
          \<and> lookup_ip t (query_name P q) = Inr (en_answers entry)
          \<and> en_name_servers entry = [] \<and> en_soa entry = [] \<and> en_additionals entry = []
          \<and> en_sig0 entry = [] \<and> en_edns entry = None))"

lemma cache_ok_rules [simp]:
  "cache_ok P contents lookup_ip (h\<lparr>h_reject := rj\<rparr>) = cache_ok P contents lookup_ip h"
  "cache_ok P contents lookup_ip (h\<lparr>h_hijacker := hj\<rparr>) = cache_ok P contents lookup_ip h"
  by (simp_all add: cache_ok_def)

lemma from_cache_ok:
  assumes "lru_law LR contents" and "cache_ok P contents lookup_ip h"
  shows "cache_ok P contents lookup_ip (snd (from_cache P LR now req h))"
proof (cases "h_cache h")
  case None
  then show ?thesis using assms(2) by (simp add: from_cache_def)
next
  case (Some c)
  obtain r l where g: "Cache_get P LR now req c = (r, c\<lparr>cache_lru := l\<rparr>)"
      and l: "contents l = contents (cache_lru c) \<or> contents l = (contents (cache_lru c))(rq_query req := None)"
    by (rule Cache_get_cases [OF assms(1), of c req P now]) auto
  have "from_cache P LR now req h = (r, h\<lparr>h_cache := Some (c\<lparr>cache_lru := l\<rparr>)\<rparr>)"
    using Some g by (simp add: from_cache_def)
  moreover have "contents (cache_lru c) q = Some entry" if "contents l q = Some entry" for q entry
    using that l by (auto split: if_splits)
  ultimately show ?thesis using assms(2) Some unfolding cache_ok_def by auto
qed

lemma store_answer_ok:
  assumes "lru_law LR contents" and "cache_ok P contents lookup_ip h"
  shows "cache_ok P contents lookup_ip (store_answer LR now (upstream_resolve P lookup_ip now req) h)"
proof (cases "\<exists>rs c. lookup_ip now (query_name P (rq_query req)) = Inr rs \<and> h_cache h = Some c")
  case True
  then obtain rs c where rs: "lookup_ip now (query_name P (rq_query req)) = Inr rs" and c: "h_cache h = Some c" by auto
  let ?resp = "\<lparr>rs_header = rq_header req, rs_query = rq_query req, rs_answers = rs, rs_name_servers = [],
         rs_soa = [], rs_additionals = [], rs_sig0 = [], rs_edns = None\<rparr>"
  have "store_answer LR now (upstream_resolve P lookup_ip now req) h = h\<lparr>h_cache := Some (Cache_put LR now ?resp c)\<rparr>"
    using rs c by (simp add: store_answer_def upstream_resolve_def)
  moreover have "cache_ttl (Cache_put LR now ?resp c) = cache_ttl c" by (simp add: Cache_put_def)
  ultimately show ?thesis
    using assms(2) rs c Cache_put_contents [OF assms(1), of now ?resp c] unfolding cache_ok_def by fastforce
next
  case False
  then have "store_answer LR now (upstream_resolve P lookup_ip now req) h = h"
    by (cases "lookup_ip now (query_name P (rq_query req))")
      (auto simp: store_answer_def upstream_resolve_def split: option.split)
  then show ?thesis using assms(2) by simp
qed

lemma Handler_new_ok:
  assumes "lru_law LR contents" and "Handler_new R LR H err cache hosts reject hijack = Ok h"
  shows "cache_ok P contents lookup_ip h"
proof -
  have "h_cache h = map_option (\<lambda>c. Cache_new LR (cc_size c) (cc_ttl c)) cache"
    using assms(2) by (auto simp: Handler_new_def bind_res_eq_Ok split: option.splits)
  then show ?thesis using assms(1) by (auto simp: cache_ok_def Cache_new_def lru_law_def)
qed

lemma dns_running_ok:
  assumes "dns_running R P LR H lookup_ip h" and "lru_law LR contents"
  shows "cache_ok P contents lookup_ip h"
  using assms(1)
proof (induction rule: dns_running.induct)
  case (started cache hosts reject hijack h)
  then show ?case by (rule Handler_new_ok [OF assms(2)])
qed (simp_all add: from_cache_ok [OF assms(2)] store_answer_ok [OF assms(2)])

lemma from_cache_answer:
  assumes "lru_law LR contents" and "cache_ok P contents lookup_ip h"
    and "from_cache P LR now req h = (Some resp, h')"
  obtains t c where "h_cache h = Some c" and "lookup_ip t (query_name P (rq_query req)) = Inr (rs_answers resp)"
    and "t + cache_ttl c \<le> now" and "rs_header resp = set_no_error P (rq_header req)"
    and "rs_query resp = rq_query req"
proof -
  from assms(3) obtain c where c: "h_cache h = Some c" by (cases "h_cache h") (auto simp: from_cache_def)
  with assms(3) have "fst (Cache_get P LR now req c) = Some resp" by (auto simp: from_cache_def split: prod.splits)
  then show thesis
  proof (cases rule: Cache_get_cases [OF assms(1), of c req P now, case_names miss dropped hit])
    case (hit entry l)
    then obtain t where "en_expire_at entry = t + cache_ttl c"
        "lookup_ip t (query_name P (rq_query req)) = Inr (en_answers entry)"
      using assms(2) c unfolding cache_ok_def by blast
    with hit \<open>fst _ = _\<close> c show thesis by (intro that [of c t]) auto
  qed auto
qed

section \<open>Concrete libraries for the witnesses\<close>

text \<open>A protocol library whose records are the name, time to live and address they were made of.\<close>

definition demo_proto :: "(nat, string list, string list \<times> nat \<times> IpAddr, unit, bytes) proto_lib" where
  "demo_proto = \<lparr>decoder_new = (\<lambda>b. b),
     header_read = (\<lambda>d. case d of [] \<Rightarrow> Inl (ProtoOther ''unexpected end of input'') | b # r \<Rightarrow> Inr (unat b, r)),
     query_count = (\<lambda>h. 1), answer_count = (\<lambda>h. 0), name_server_count = (\<lambda>h. 0), additional_count = (\<lambda>h. 0),
     query_read = (\<lambda>d. Inr ([string_of_bytes d, ''com''], [])),
     read_records = (\<lambda>d n a. Inr (([], None, []), d)),
     rcode_high = (\<lambda>e. 0), merge_response_code = (\<lambda>c h. h), set_no_error = (\<lambda>h. h),
     query_name = (\<lambda>q. q), num_labels = length, record_from_rdata = (\<lambda>n t a. (n, t, a)),
     emit_message_parts = (\<lambda>m h q an ns ad e s. Inr [of_nat h, of_nat (length an)])\<rparr>"

definition demo_lookup :: "nat \<Rightarrow> string list \<Rightarrow> ResolveError + (string list \<times> nat \<times> IpAddr) list" where
  "demo_lookup t name = Inr [(name, 60, IpV4 (Ipv4Addr 1 2 3 4))]"

definition demo_request :: "string list \<Rightarrow> (nat, string list, string list \<times> nat \<times> IpAddr, unit) Request" where
  "demo_request q = \<lparr>rq_header = 7, rq_query = q, rq_answers = [], rq_name_servers = [], rq_additionals = [],
     rq_sig0 = [], rq_edns = None, rq_src = V4 (Ipv4Addr 10 0 0 1) 5353\<rparr>"

definition demo_rules :: http_lib where
  "demo_rules = \<lparr>uri_parse = Inr,
     http_get = (\<lambda>u. Inr (200, \<lparr>body_bytes = as_bytes ''.ads.com'' @ [10], body_error = None\<rparr>)), b64_decode = Inr\<rparr>"

definition demo_handler :: "(nat \<times> (string list \<times> (string list \<times> nat \<times> IpAddr, unit) Entry) list, Trie) Handler" where
  "demo_handler = \<lparr>h_cache = Some (Cache_new list_lru 8 30), h_hijacker = None,
     h_reject = Some \<lparr>rj_trie = Trie_insert ''.ads.com'' Trie_new\<rparr>\<rparr>"

lemma demo_load_rules: "load_rules set_mod demo_rules e = Ok (Trie_insert ''.ads.com'' Trie_new, 1)"
  using load_lines_hosts [of "[''.ads.com'']" set_mod Trie_new 0] trim_line [of "''.ads.com''"]
  by (simp add: load_rules_def demo_rules_def set_mod_def valid_utf8_ascii is_ascii_def graphic_def)

lemma demo_dns_running: "dns_running set_mod demo_proto list_lru demo_rules demo_lookup demo_handler"
  by (rule dns_running.started [of _ _ _ "Some \<lparr>cc_size = 8, cc_ttl = 30\<rparr>" None "Some \<lparr>rc_endpoint = [], rc_interval = None\<rparr>" None])
    (simp add: Handler_new_def Reject_new_def demo_load_rules demo_handler_def)

section \<open>Properties\<close>

text \<open>
  C22: in a running handler every response the handler gives repeats the query and the header of the
  request (with at most the response code set), and its answers are the hijack record of a name the
  hijack rules contain, or empty for a name the reject rules contain, or records that the resolver
  returned for this name, now or at the earlier time at which they were cached.
\<close>

theorem handle_answers:
  assumes "dns_running R P LR H lookup_ip h" and "lru_law LR contents"
    and "handle R P LR lookup_ip now later req h = (Ok resp, h')"
  shows "rs_query resp = rq_query req \<and> rs_header resp \<in> {rq_header req, set_no_error P (rq_header req)}
    \<and> ((\<exists>hj. h_hijacker h = Some hj \<and> tm_contain R (num_labels P) (hj_trie hj) (query_name P (rq_query req))
          \<and> rs_answers resp = [record_from_rdata P (query_name P (rq_query req)) 3600 (hj_hijack hj)])
      \<or> (\<exists>rj. h_reject h = Some rj \<and> tm_contain R (num_labels P) (rj_trie rj) (query_name P (rq_query req)) \<and> rs_answers resp = [])
      \<or> (\<exists>t. lookup_ip t (query_name P (rq_query req)) = Inr (rs_answers resp)))"
proof (cases "from_cache P LR now req h")
  case (Pair r h1)
  have rules: "h_hijacker h1 = h_hijacker h" "h_reject h1 = h_reject h"
    using Pair by (auto simp: from_cache_def split: option.splits prod.splits)
  show ?thesis
  proof (cases r)
    case (Some cached)
    with assms(3) Pair have "from_cache P LR now req h = (Some resp, h1)" by (simp add: handle_def)
    from from_cache_answer [OF assms(2) dns_running_ok [OF assms(1,2)] this] show ?thesis by auto
  next
    case None
    show ?thesis
    proof (cases "by_rules R P req h1")
      case (Some resp')
      with None assms(3) Pair have "by_rules R P req h1 = Some resp" by (simp add: handle_def)
      then show ?thesis unfolding by_rules_def rules
        by (auto simp: Let_def hijacking_def deny_def from_request_def no_records_def
            split: option.splits if_splits bind_splits)
    next
      case none: None
      with None assms(3) Pair have "upstream_resolve P lookup_ip later req = Ok resp" by (simp add: handle_def Let_def)
      then show ?thesis
        by (cases "lookup_ip later (query_name P (rq_query req))") (auto simp: upstream_resolve_def)
    qed
  qed
qed

theorem handle_answers_witness:
  "\<exists>resp h'. handle set_mod demo_proto list_lru demo_lookup 0 0 (demo_request [''x'', ''ads'', ''com'']) demo_handler = (Ok resp, h')
    \<and> rs_header resp = 7 \<and> rs_answers resp = []"
proof -
  let ?req = "demo_request [''x'', ''ads'', ''com'']"
  have denied: "contain length (Trie_insert ''.ads.com'' Trie_new) [''x'', ''ads'', ''com'']"
    by (simp add: contain_def Trie_insert_def Trie_new_def rev_labels_def Let_def)
  obtain resp h' where r: "handle set_mod demo_proto list_lru demo_lookup 0 0 ?req demo_handler = (Ok resp, h')" "rs_answers resp = []"
    using denied
    by (simp add: handle_def from_cache_def Cache_get_def Cache_new_def list_lru_def demo_handler_def by_rules_def
        demo_proto_def deny_def set_mod_def no_records_def demo_request_def)
  from handle_answers [OF demo_dns_running list_lru_law r(1)] r show ?thesis
    by (auto simp: demo_request_def demo_proto_def)
qed

text \<open>
  A name that the handler's rules hijack or reject is never sent to the resolver: what the handler
  answers and how its state changes does not depend on the resolver.
\<close>

lemma rules_bypass_resolver:
  assumes "(\<exists>hj. h_hijacker h = Some hj \<and> hijacking R P hj (query_name P (rq_query req)) \<noteq> None)
    \<or> (\<exists>rj. h_reject h = Some rj \<and> deny R P rj (query_name P (rq_query req)))"
  shows "handle R P LR lookup_ip now later req h = handle R P LR lookup_ip' now later' req h"
proof (cases "from_cache P LR now req h")
  case (Pair r h1)
  have rules: "h_hijacker h1 = h_hijacker h" "h_reject h1 = h_reject h"
    using Pair by (auto simp: from_cache_def split: option.splits prod.splits)
  have "by_rules R P req h1 \<noteq> None"
    using assms unfolding by_rules_def rules by (auto simp: Let_def split: option.split)
  with Pair show ?thesis by (auto simp: handle_def split: option.split)
qed

text \<open>
  C24: what the cache does with an answer stored at time \<open>t\<close>: before \<open>t + ttl\<close> a lookup drops the
  entry and finds nothing, from \<open>t + ttl\<close> on it serves it.  The test of the expiry is inverted with
  respect to its comment: fresh answers are never served, expired ones always.
\<close>

theorem cache_serves_only_expired:
  assumes "lru_law LR contents" and "contents (cache_lru c) (rq_query req) = None"
    and "rs_query resp = rq_query req" and "contents (cache_lru (Cache_put LR t resp c)) (rq_query req) \<noteq> None"
  shows "(now < t + cache_ttl c \<longrightarrow> fst (Cache_get P LR now req (Cache_put LR t resp c)) = None
        \<and> contents (cache_lru (snd (Cache_get P LR now req (Cache_put LR t resp c)))) (rq_query req) = None)
    \<and> (t + cache_ttl c \<le> now \<longrightarrow>
        map_option rs_answers (fst (Cache_get P LR now req (Cache_put LR t resp c))) = Some (rs_answers resp))"
proof -
  obtain entry where e: "contents (cache_lru (Cache_put LR t resp c)) (rq_query req) = Some entry" using assms(4) by auto
  with Cache_put_contents [OF assms(1) e] assms(2,3)
  have "en_expire_at entry = t + cache_ttl c" "en_answers entry = rs_answers resp" by auto
  with e show ?thesis
    by (cases rule: Cache_get_cases [OF assms(1), of "Cache_put LR t resp c" req P now, case_names miss dropped hit]) auto
qed

theorem cache_serves_only_expired_witness:
  "fst (Cache_get demo_proto list_lru 10 (demo_request [''a'']) (Cache_put list_lru 0 ((from_request (demo_request [''a'']))\<lparr>rs_answers := []\<rparr>)
      (Cache_new list_lru 8 30))) = None
   \<and> map_option rs_answers (fst (Cache_get demo_proto list_lru 40 (demo_request [''a'']) (Cache_put list_lru 0
      ((from_request (demo_request [''a'']))\<lparr>rs_answers := []\<rparr>) (Cache_new list_lru 8 30)))) = Some []"
proof -
  let ?req = "demo_request [''a'']" and ?c = "Cache_new list_lru 8 30"
  let ?resp = "(from_request ?req)\<lparr>rs_answers := []\<rparr>"
  have h: "(\<lambda>(n, xs). map_of xs) (cache_lru ?c) (rq_query ?req) = None" "rs_query ?resp = rq_query ?req"
    "(\<lambda>(n, xs). map_of xs) (cache_lru (Cache_put list_lru 0 ?resp ?c)) (rq_query ?req) \<noteq> None"
    by (simp_all add: Cache_new_def list_lru_def from_request_def Cache_put_def)
  from cache_serves_only_expired [OF list_lru_law h, of 10 demo_proto] cache_serves_only_expired [OF list_lru_law h, of 40 demo_proto]
  show ?thesis by (simp add: Cache_new_def)
qed

end
