(* ===== verification/DnsServer.thy ===== *)
theory DnsServer
  imports DnsHandler
begin

text \<open>
  The DNS service of \<^verbatim>\<open>src/dns/server/mod.rs\<close>: which sources are answered, the UDP loop and the loop of a
  TCP connection.  A run is the list of what arrives, with the times at which the handler reads the
  clock; requests are handled one after the other, the interleavings inside the handler are the steps
  of \<^const>\<open>dns_running\<close>.
\<close>

section \<open>Sources\<close>

definition verify_v4 :: "Ipv4Addr \<Rightarrow> (string, unit) res" where
  "verify_v4 src =
     (if is_unspecified src then Err (''cannot respond to unspecified v4 addr: '' @ show_ipv4 src)
      else if is_broadcast src then Err (''cannot respond to broadcast v4 addr: '' @ show_ipv4 src)
      else Ok ())"

definition verify_v6 :: "Ipv6Addr \<Rightarrow> (string, unit) res" where
  "verify_v6 src =
     (if is_unspecified_v6 src then Err (''cannot respond to unspecified v6 addr: '' @ show_ipv6 src) else Ok ())"

definition sanitize_src_address :: "SocketAddr \<Rightarrow> (string, unit) res" where
  "sanitize_src_address src =
     (if sa_port src = 0 then Err (''cannot respond to src on port 0: '' @ show_socket_addr src)
      else case sa_ip src of IpV4 v4 \<Rightarrow> verify_v4 v4 | IpV6 v6 \<Rightarrow> verify_v6 v6)"

section \<open>The service\<close>

record DnsConfig =
  dc_listen :: string
  dc_cache :: "CacheConfig option"
  dc_nameservers :: "SocketAddr list"
  dc_hosts :: "(string \<times> string) list option"
  dc_reject :: "RejectConfig option"
  dc_hijack :: "HijackConfig option"

record ('l, 't) DnsServer =
  ds_addr :: string
  ds_handler :: "('l, 't) Handler"

definition DnsServer_new :: "'t trie_mod \<Rightarrow> ('q, ('r, 'e) Entry, 'l) lru_lib \<Rightarrow> http_lib \<Rightarrow> (SocketAddr list \<Rightarrow> ResolveError option) \<Rightarrow> DnsConfig
    \<Rightarrow> (DnsError, ('l, 't) DnsServer) res" where
  "DnsServer_new R LR H resolver_error config =
     bind_res (Handler_new R LR H (resolver_error (dc_nameservers config)) (dc_cache config) (dc_hosts config)
       (dc_reject config) (dc_hijack config))
     (\<lambda>handler. Ok \<lparr>ds_addr = dc_listen config, ds_handler = handler\<rparr>)"

text \<open>A received message with the two clock readings of its handling.\<close>

datatype event = Received bytes SocketAddr nat nat | Broken io_error

definition udp_request :: "'t trie_mod \<Rightarrow> ('h, 'q, 'r, 'e, 'd) proto_lib \<Rightarrow> ('q, ('r, 'e) Entry, 'l) lru_lib
    \<Rightarrow> (nat \<Rightarrow> string list \<Rightarrow> ResolveError + 'r list) \<Rightarrow> bytes \<Rightarrow> SocketAddr \<Rightarrow> nat \<Rightarrow> nat \<Rightarrow> ('l, 't) Handler
    \<Rightarrow> (unit, (bytes \<times> SocketAddr) option \<times> ('l, 't) Handler) res" where
  "udp_request R P LR lookup_ip msg src now later h =
     (if sanitize_src_address src \<noteq> Ok () then Ok (None, h)
      else case from_message P msg src of
        Err _ \<Rightarrow> Ok (None, h)
      | Panic \<Rightarrow> Panic
      | Ok req \<Rightarrow> (case handle R P LR lookup_ip now later req h of
          (Ok resp, h) \<Rightarrow> (case message P resp src of Ok m \<Rightarrow> Ok (Some m, h) | _ \<Rightarrow> Ok (None, h))
        | (_, h) \<Rightarrow> Ok (None, h)))"

text \<open>
  The UDP loop: the messages it sends, the handler in the end and the error it returns.  It returns
  when the socket breaks or closes.
\<close>

fun serve_udp :: "'t trie_mod \<Rightarrow> ('h, 'q, 'r, 'e, 'd) proto_lib \<Rightarrow> ('q, ('r, 'e) Entry, 'l) lru_lib
    \<Rightarrow> (nat \<Rightarrow> string list \<Rightarrow> ResolveError + 'r list) \<Rightarrow> event list \<Rightarrow> ('l, 't) Handler
    \<Rightarrow> (unit, (bytes \<times> SocketAddr) list \<times> ('l, 't) Handler \<times> io_error) res" where
  "serve_udp R P LR lookup_ip [] h = Ok ([], h, IoError Other ''unexpected close of socket'')"
| "serve_udp R P LR lookup_ip (Broken err # evs) h = Ok ([], h, err)"
| "serve_udp R P LR lookup_ip (Received msg src now later # evs) h =
     bind_res (udp_request R P LR lookup_ip msg src now later h) (\<lambda>(reply, h).
     bind_res (serve_udp R P LR lookup_ip evs h) (\<lambda>(sent, h, err).
       Ok ((case reply of Some m \<Rightarrow> m # sent | None \<Rightarrow> sent), h, err)))"

text \<open>
  A TCP connection from \<open>src\<close>: messages that do not decode are skipped; a broken stream, a response
  that does not encode and a failed send end it.  \<open>send\<close> tells whether a message can be sent.
\<close>

fun tcp_connection :: "'t trie_mod \<Rightarrow> ('h, 'q, 'r, 'e, 'd) proto_lib \<Rightarrow> ('q, ('r, 'e) Entry, 'l) lru_lib
    \<Rightarrow> (nat \<Rightarrow> string list \<Rightarrow> ResolveError + 'r list) \<Rightarrow> (bytes \<Rightarrow> bool) \<Rightarrow> SocketAddr \<Rightarrow> event list \<Rightarrow> ('l, 't) Handler
    \<Rightarrow> (unit, (bytes \<times> SocketAddr) list \<times> ('l, 't) Handler) res" where
  "tcp_connection R P LR lookup_ip send src [] h = Ok ([], h)"
| "tcp_connection R P LR lookup_ip send src (Broken err # evs) h = Ok ([], h)"
| "tcp_connection R P LR lookup_ip send src (Received msg _ now later # evs) h = (case from_message P msg src of
     Err _ \<Rightarrow> tcp_connection R P LR lookup_ip send src evs h
   | Panic \<Rightarrow> Panic
   | Ok req \<Rightarrow> (case handle R P LR lookup_ip now later req h of
       (Ok resp, h) \<Rightarrow> (case message P resp src of
           Ok (buf, dst) \<Rightarrow>
             if send buf then map_ok (\<lambda>(sent, h). ((buf, dst) # sent, h)) (tcp_connection R P LR lookup_ip send src evs h)
             else Ok ([], h)
         | _ \<Rightarrow> Ok ([], h))
     | (_, h) \<Rightarrow> tcp_connection R P LR lookup_ip send src evs h))"

text \<open>The accept loop starts a connection for every source it may answer.\<close>

definition serve_tcp_accept :: "'t trie_mod \<Rightarrow> ('h, 'q, 'r, 'e, 'd) proto_lib \<Rightarrow> ('q, ('r, 'e) Entry, 'l) lru_lib
    \<Rightarrow> (nat \<Rightarrow> string list \<Rightarrow> ResolveError + 'r list) \<Rightarrow> (bytes \<Rightarrow> bool) \<Rightarrow> SocketAddr \<Rightarrow> event list \<Rightarrow> ('l, 't) Handler
    \<Rightarrow> (unit, (bytes \<times> SocketAddr) list \<times> ('l, 't) Handler) res" where
  "serve_tcp_accept R P LR lookup_ip send src evs h =
     (if sanitize_src_address src \<noteq> Ok () then Ok ([], h)
      else tcp_connection R P LR lookup_ip send src evs h)"

text \<open>
  The TCP listener: the connections it starts and the error it returns with.  Arrivals are accepted connections or
  the error of \<^verbatim>\<open>accept\<close>.
\<close>

fun tcp_arrivals :: "(io_error + 'c \<times> SocketAddr) list \<Rightarrow> ('c \<times> SocketAddr) list \<times> io_error option" where
  "tcp_arrivals [] = ([], None)"
| "tcp_arrivals (Inl err # cs) = ([], Some err)"
| "tcp_arrivals (Inr (stream, src) # cs) =
     (let (started, err) = tcp_arrivals cs in
      (if sanitize_src_address src \<noteq> Ok () then started else (stream, src) # started, err))"

definition serve_tcp :: "(string \<Rightarrow> io_error + unit) \<Rightarrow> (io_error + 'c \<times> SocketAddr) list \<Rightarrow> ('l, 't) DnsServer
    \<Rightarrow> ('c \<times> SocketAddr) list \<times> (io_error, unit) res option" where
  "serve_tcp bind_tcp arrivals s = (case bind_tcp (ds_addr s) of
     Inl err \<Rightarrow> ([], Some (Err err))
   | Inr _ \<Rightarrow> (let (started, err) = tcp_arrivals arrivals in (started, map_option Err err)))"

text \<open>The UDP listener goes on as long as its socket is neither broken nor closed.\<close>

definition serve_udp_bound :: "'t trie_mod \<Rightarrow> ('h, 'q, 'r, 'e, 'd) proto_lib \<Rightarrow> ('q, ('r, 'e) Entry, 'l) lru_lib
    \<Rightarrow> (nat \<Rightarrow> string list \<Rightarrow> ResolveError + 'r list) \<Rightarrow> (string \<Rightarrow> io_error + unit) \<Rightarrow> event list \<Rightarrow> bool \<Rightarrow> ('l, 't) DnsServer
    \<Rightarrow> (io_error, unit) res option" where
  "serve_udp_bound R P LR lookup_ip bind_udp evs ended s = (case bind_udp (ds_addr s) of
     Inl err \<Rightarrow> Some (Err err)
   | Inr _ \<Rightarrow>
       if ended \<or> list_ex (\<lambda>ev. case ev of Broken _ \<Rightarrow> True | _ \<Rightarrow> False) evs
       then (case serve_udp R P LR lookup_ip evs (ds_handler s) of Ok (_, _, err) \<Rightarrow> Some (Err err) | _ \<Rightarrow> Some Panic)
       else None)"

text \<open>
  \<^verbatim>\<open>serve\<close> returns as soon as one of the two listeners does; if both have, \<open>tcp_first\<close> tells which one was seen first.
\<close>

definition dns_serve :: "'t trie_mod \<Rightarrow> ('h, 'q, 'r, 'e, 'd) proto_lib \<Rightarrow> ('q, ('r, 'e) Entry, 'l) lru_lib
    \<Rightarrow> (nat \<Rightarrow> string list \<Rightarrow> ResolveError + 'r list) \<Rightarrow> (string \<Rightarrow> io_error + unit) \<Rightarrow> (io_error + 'c \<times> SocketAddr) list
    \<Rightarrow> (string \<Rightarrow> io_error + unit) \<Rightarrow> event list \<Rightarrow> bool \<Rightarrow> bool \<Rightarrow> ('l, 't) DnsServer \<Rightarrow> (io_error, unit) res option" where
  "dns_serve R P LR lookup_ip bind_tcp arrivals bind_udp evs ended tcp_first s =
     (let tr = snd (serve_tcp bind_tcp arrivals s);
          ur = serve_udp_bound R P LR lookup_ip bind_udp evs ended s in
      case (tr, ur) of
        (None, _) \<Rightarrow> ur
      | (_, None) \<Rightarrow> tr
      | (Some t, Some u) \<Rightarrow> Some (if tcp_first then t else u))"

section \<open>No request stops the service\<close>

lemma of_sum_no_panic [simp]: "of_sum f x \<noteq> Panic"
  by (cases x) auto

lemma read_queries_length: "read_queries P n d = Ok (qs, d') \<Longrightarrow> length qs = n"
  by (induction n arbitrary: d qs) (auto simp: bind_res_eq_Ok)

lemma read_queries_no_panic [simp]: "read_queries P n d \<noteq> Panic"
  by (induction n arbitrary: d) (auto simp: bind_res_eq_Panic)

lemma from_message_no_panic: "from_message P msg src \<noteq> Panic"
  by (auto simp: from_message_def bind_res_eq_Panic bind_res_eq_Ok Let_def split: if_splits)

lemma udp_request_total: "\<exists>reply h'. udp_request R P LR lookup_ip msg src now later h = Ok (reply, h')"
  using from_message_no_panic [of P msg src]
  by (auto simp: udp_request_def split: res.split prod.split)

lemma udp_request_reply:
  "udp_request R P LR lookup_ip msg src now later h = Ok (Some (buf, dst), h') \<Longrightarrow> dst = src \<and> sanitize_src_address src = Ok ()"
  by (auto simp: udp_request_def message_def bind_res_eq_Ok split: if_splits res.splits prod.splits)

lemma serve_udp_replies:
  "serve_udp R P LR lookup_ip evs h = Ok (sent, h', err) \<Longrightarrow> (buf, dst) \<in> set sent \<Longrightarrow>
   sanitize_src_address dst = Ok () \<and> (\<exists>msg now later. Received msg dst now later \<in> set evs)"
proof (induction evs arbitrary: h sent)
  case (Cons ev evs)
  show ?case
  proof (cases ev)
    case (Received msg src now later)
    then obtain reply h1 rest where s: "udp_request R P LR lookup_ip msg src now later h = Ok (reply, h1)"
        "serve_udp R P LR lookup_ip evs h1 = Ok (rest, h', err)" "sent = (case reply of Some m \<Rightarrow> m # rest | None \<Rightarrow> rest)"
      using Cons.prems(1) by (auto simp: bind_res_eq_Ok)
    then consider "reply = Some (buf, dst)" | "(buf, dst) \<in> set rest" using Cons.prems(2) by (auto split: option.splits)
    then show ?thesis
    proof cases
      case 1
      with s(1) Received show ?thesis by (auto dest: udp_request_reply)
    next
      case 2
      with Cons.IH [OF s(2)] show ?thesis by auto
    qed
  qed (use Cons.prems in auto)
qed simp

lemma serve_udp_total:
  "\<exists>sent h' err. serve_udp R P LR lookup_ip evs h = Ok (sent, h', err)
     \<and> (err = IoError Other ''unexpected close of socket'' \<or> Broken err \<in> set evs)"
proof (induction evs arbitrary: h)
  case (Cons ev evs)
  show ?case
  proof (cases ev)
    case (Received msg src now later)
    obtain reply h1 where "udp_request R P LR lookup_ip msg src now later h = Ok (reply, h1)"
      using udp_request_total by blast
    with Received Cons.IH [of h1] show ?thesis by auto
  qed simp
qed simp

text \<open>The service never returns successfully.\<close>

lemma serve_tcp_result: "snd (serve_tcp bind_tcp arrivals s) = Some r \<Longrightarrow> \<exists>e. r = Err e"
  by (auto simp: serve_tcp_def split: sum.splits prod.splits)

lemma serve_udp_bound_result: "serve_udp_bound R P LR lookup_ip bind_udp evs ended s = Some r \<Longrightarrow> \<exists>e. r = Err e"
  using serve_udp_total [of R P LR lookup_ip evs "ds_handler s"] by (auto simp: serve_udp_bound_def split: sum.splits if_splits)

lemma dns_serve_result: "dns_serve R P LR lookup_ip bt arrivals bu evs ended tcp_first s = Some r \<Longrightarrow> \<exists>e. r = Err e"
  using serve_tcp_result [of bt arrivals s] serve_udp_bound_result [of R P LR lookup_ip bu evs ended s]
  by (auto simp: dns_serve_def Let_def split: option.splits if_splits)

text \<open>The connections that are started are the accepted ones that may be answered.\<close>

lemma tcp_arrivals_started:
  "fst (tcp_arrivals arrivals) = filter (\<lambda>(stream, src). sanitize_src_address src = Ok ())
     (map projr (takeWhile (Not \<circ> isl) arrivals))"
  by (induction arrivals rule: tcp_arrivals.induct) (auto simp: case_prod_beta Let_def)

lemma sanitize_iff:
  "sanitize_src_address src = Ok () \<longleftrightarrow> sa_port src \<noteq> 0 \<and>
     (case sa_ip src of
        IpV4 ip \<Rightarrow> ip \<noteq> Ipv4Addr 0 0 0 0 \<and> ip \<noteq> Ipv4Addr 255 255 255 255
      | IpV6 ip \<Rightarrow> ip \<noteq> Ipv6Addr 0 0 0 0 0 0 0 0)"
proof -
  have "is_unspecified ip \<longleftrightarrow> ip = Ipv4Addr 0 0 0 0" "is_broadcast ip \<longleftrightarrow> ip = Ipv4Addr 255 255 255 255" for ip
    by (cases ip; simp add: is_unspecified_def is_broadcast_def)+
  moreover have "is_unspecified_v6 ip \<longleftrightarrow> ip = Ipv6Addr 0 0 0 0 0 0 0 0" for ip
    by (cases ip) (simp add: is_unspecified_v6_def)
  ultimately show ?thesis
    by (auto simp: sanitize_src_address_def verify_v4_def verify_v6_def split: IpAddr.split)
qed

section \<open>Properties\<close>

text \<open>
  C35: the UDP service never panics, whatever arrives; it returns only when the socket breaks or
  closes; and every datagram it sends goes back to the source of a received one, which has a port
  other than 0 and is neither the unspecified nor the broadcast address.
\<close>

theorem udp_service_safe:
  "\<exists>sent h' err. serve_udp R P LR lookup_ip evs h = Ok (sent, h', err)
    \<and> (\<forall>(buf, dst) \<in> set sent. (\<exists>msg now later. Received msg dst now later \<in> set evs) \<and> sa_port dst \<noteq> 0
        \<and> sa_ip dst \<notin> {IpV4 (Ipv4Addr 0 0 0 0), IpV4 (Ipv4Addr 255 255 255 255), IpV6 (Ipv6Addr 0 0 0 0 0 0 0 0)})
    \<and> (err = IoError Other ''unexpected close of socket'' \<or> Broken err \<in> set evs)"
proof -
  obtain sent h' err where s: "serve_udp R P LR lookup_ip evs h = Ok (sent, h', err)"
      "err = IoError Other ''unexpected close of socket'' \<or> Broken err \<in> set evs"
    using serve_udp_total by blast
  moreover have "sa_port dst \<noteq> 0
      \<and> sa_ip dst \<notin> {IpV4 (Ipv4Addr 0 0 0 0), IpV4 (Ipv4Addr 255 255 255 255), IpV6 (Ipv6Addr 0 0 0 0 0 0 0 0)}"
    if "sanitize_src_address dst = Ok ()" for dst
    using that by (auto simp: sanitize_iff split: IpAddr.splits)
  ultimately show ?thesis using serve_udp_replies [OF s(1)] by fastforce
qed

theorem udp_service_safe_witness:
  "\<exists>sent h' err. serve_udp set_mod demo_proto list_lru demo_lookup
      [Received [1] (V4 (Ipv4Addr 10 0 0 1) 5353) 0 0, Received [] (V4 (Ipv4Addr 0 0 0 0) 53) 0 0] demo_handler = Ok (sent, h', err)
    \<and> (\<forall>(buf, dst) \<in> set sent. dst = V4 (Ipv4Addr 10 0 0 1) 5353)"
  using udp_service_safe [of set_mod demo_proto list_lru demo_lookup
      "[Received [1] (V4 (Ipv4Addr 10 0 0 1) 5353) 0 0, Received [] (V4 (Ipv4Addr 0 0 0 0) 53) 0 0]" demo_handler]
  by fastforce

end
