(* ===== verification/Controller.thy ===== *)
theory Controller
  imports Upstream
begin

text \<open>
  \<^verbatim>\<open>src/controller\<close>: the HTTP service that reports on the process and on the pool.  The process statistics are read from
  the \<^verbatim>\<open>/proc\<close> file system (\<^verbatim>\<open>stats/proc.rs\<close>), requests are routed by \<^verbatim>\<open>server.rs\<close>, and \<^verbatim>\<open>response.rs\<close> builds the answers.

  The files, the page size and the process id are fields of \<open>proc_fs\<close>; a directory entry is its file type, \<open>True\<close> for a
  directory, or the error of reading it.  The serializer of the crate \<^verbatim>\<open>serde_json\<close> is an argument.
\<close>

section \<open>Process statistics\<close>

record proc_fs =
  fs_pid :: nat
  fs_read_dir :: "string \<Rightarrow> (io_error, (io_error, (io_error, bool) res) res list) res"
  fs_read_to_string :: "string \<Rightarrow> (io_error, string) res"
  fs_page_size :: nat
  fs_parse_f64 :: "string \<Rightarrow> f64 option"

definition MAXFD_PATTERN :: string where "MAXFD_PATTERN = ''Max open files''"
definition USER_HZ :: f64 where "USER_HZ = 100"

record ProcStat =
  ps_open_fds :: nat
  ps_max_fds :: nat
  ps_cpu_seconds :: f64
  ps_threads :: nat
  ps_start :: f64
  ps_vss :: nat
  ps_rss :: nat

definition count_entry :: "(io_error, nat) res \<Rightarrow> (io_error, (io_error, bool) res) res \<Rightarrow> (io_error, nat) res" where
  "count_entry acc i =
     bind_res acc (\<lambda>acc.
     bind_res i (\<lambda>file_type.
     bind_res file_type (\<lambda>is_dir. Ok (if \<not> is_dir then acc + 1 else acc))))"

definition open_fds :: "proc_fs \<Rightarrow> nat \<Rightarrow> (io_error, nat) res" where
  "open_fds F pid =
     bind_res (fs_read_dir F (''/proc/'' @ show_nat pid @ ''/fd'')) (\<lambda>entries. foldl count_entry (Ok 0) entries)"

text \<open>\<^verbatim>\<open>str::find\<close>: the first position at which the pattern occurs.\<close>

fun find_sub :: "string \<Rightarrow> string \<Rightarrow> nat option" where
  "find_sub pat [] = (if pat = [] then Some 0 else None)"
| "find_sub pat (c # cs) = (if take (length pat) (c # cs) = pat then Some 0 else map_option Suc (find_sub pat cs))"

fun ParseIntError_fmt :: "ParseIntError \<Rightarrow> string" where
  "ParseIntError_fmt Empty = ''cannot parse integer from empty string''"
| "ParseIntError_fmt InvalidDigit = ''invalid digit found in string''"
| "ParseIntError_fmt PosOverflow = ''number too large to fit in target type''"

definition find_statistic :: "string \<Rightarrow> string \<Rightarrow> (io_error, nat) res" where
  "find_statistic text_all pat = (case find_sub pat text_all of
     Some idx \<Rightarrow> (case split_whitespace (drop (idx + length pat) text_all) of
       v # _ \<Rightarrow> map_err (\<lambda>err. IoError InvalidInput (ParseIntError_fmt err)) (parse_usize v)
     | [] \<Rightarrow> Err (IoError InvalidInput ''invalid input parameter''))
   | None \<Rightarrow> Err (IoError InvalidInput ''invalid input parameter''))"

definition max_fds :: "proc_fs \<Rightarrow> nat \<Rightarrow> (io_error, nat) res" where
  "max_fds F pid =
     bind_res (fs_read_to_string F (''/proc/'' @ show_nat pid @ ''/limits'')) (\<lambda>buffer. find_statistic buffer MAXFD_PATTERN)"

definition is_ascii_ws :: "char \<Rightarrow> bool" where
  "is_ascii_ws c \<longleftrightarrow> c \<in> {CHR 0x20, CHR 0x09, CHR 0x0A, CHR 0x0C, CHR 0x0D}"

fun split_ascii :: "string \<Rightarrow> string \<Rightarrow> string list" where
  "split_ascii w [] = (if w = [] then [] else [w])"
| "split_ascii w (c # cs) =
     (if is_ascii_ws c then (if w = [] then [] else [w]) @ split_ascii [] cs else split_ascii (w @ [c]) cs)"

definition split_ascii_whitespace :: "string \<Rightarrow> string list" where
  "split_ascii_whitespace s = split_ascii [] s"

text \<open>
  \<^verbatim>\<open>parse().unwrap_or(0)\<close>.  A text of digits is the nearest double of the number it denotes; the other forms that
  \<^verbatim>\<open>f64::from_str\<close> knows (signs, fractions, exponents, infinities) are left to \<open>fs_parse_f64\<close>.
\<close>

definition digits_value :: "string \<Rightarrow> nat" where
  "digits_value s = foldl (\<lambda>a c. a * 10 + digit_val c) 0 s"

definition parse_f64_or_0 :: "proc_fs \<Rightarrow> string \<Rightarrow> f64" where
  "parse_f64_or_0 F s =
     (if s \<noteq> [] \<and> list_all is_digit s then f64_of_nat (digits_value s)
      else case fs_parse_f64 F s of Some x \<Rightarrow> x | None \<Rightarrow> 0)"

definition parse_usize_or_0 :: "string \<Rightarrow> nat" where
  "parse_usize_or_0 s = (case parse_usize s of Ok n \<Rightarrow> n | _ \<Rightarrow> 0)"

definition f64_add :: "f64 \<Rightarrow> f64 \<Rightarrow> f64" where
  "f64_add a b = f64_round (a + b)"

text \<open>An index that is out of range panics; the last one is 23.  The product of the page count wraps.\<close>

definition get_proc_stat :: "proc_fs \<Rightarrow> string \<Rightarrow> nat \<Rightarrow> (io_error, f64 \<times> nat \<times> f64 \<times> nat \<times> nat) res" where
  "get_proc_stat F proc_root pid =
     bind_res (fs_read_to_string F (proc_root @ ''/'' @ show_nat pid @ ''/stat'')) (\<lambda>content.
     let parts = split_ascii_whitespace content in
     if length parts \<le> 23 then Panic
     else
       let utime = parse_f64_or_0 F (parts ! 13);
           stime = parse_f64_or_0 F (parts ! 14);
           threads = parse_usize_or_0 (parts ! 19);
           start_time = parse_f64_or_0 F (parts ! 21);
           vsize = parse_usize_or_0 (parts ! 22);
           rss = parse_usize_or_0 (parts ! 23)
       in Ok (f64_div (f64_add utime stime) USER_HZ, threads, f64_div start_time USER_HZ, vsize,
              rss * fs_page_size F mod 2 ^ 64))"

definition ProcStat_read :: "proc_fs \<Rightarrow> (io_error, ProcStat) res" where
  "ProcStat_read F =
     (let pid = fs_pid F in
      bind_res (open_fds F pid) (\<lambda>fds.
      bind_res (max_fds F pid) (\<lambda>mfds.
      bind_res (get_proc_stat F ''/proc'' pid) (\<lambda>(cpu_seconds, threads, start, vss, rss).
      Ok \<lparr>ps_open_fds = fds, ps_max_fds = mfds, ps_cpu_seconds = cpu_seconds, ps_threads = threads, ps_start = start,
          ps_vss = vss, ps_rss = rss\<rparr>))))"

section \<open>The service\<close>

record http_response =
  resp_status :: nat
  resp_content_type :: "string option"
  resp_body :: bytes

definition into_resp :: "('a \<Rightarrow> string + bytes) \<Rightarrow> 'a \<Rightarrow> ('e, http_response) res" where
  "into_resp to_vec x = (case to_vec x of
     Inr data \<Rightarrow> Ok \<lparr>resp_status = 200, resp_content_type = Some ''application/json'', resp_body = data\<rparr>
   | Inl e \<Rightarrow> Panic)"

definition err_resp :: "nat \<Rightarrow> io_error \<Rightarrow> http_response" where
  "err_resp status err = \<lparr>resp_status = status, resp_content_type = Some ''text/plain'', resp_body = as_bytes (err_msg err)\<rparr>"

definition not_found :: http_response where
  "not_found = \<lparr>resp_status = 404, resp_content_type = None, resp_body = as_bytes ''Not Found''\<rparr>"

record controller_Config =
  cc_listen :: string

record ControllerServer =
  cs_listen :: SocketAddr
  cs_upstream :: Upstream

definition ControllerServer_new :: "controller_Config \<Rightarrow> Upstream \<Rightarrow> (unit, ControllerServer) res" where
  "ControllerServer_new config upstream =
     bind_res (of_option () (parse_socket_addr (cc_listen config))) (\<lambda>listen.
     Ok \<lparr>cs_listen = listen, cs_upstream = upstream\<rparr>)"

definition controller_handle :: "proc_fs \<Rightarrow> (ProcStat \<Rightarrow> string + bytes) \<Rightarrow> (Stat list \<Rightarrow> string + bytes) \<Rightarrow> string \<Rightarrow> string \<Rightarrow> Upstream
    \<Rightarrow> (unit, http_response) res" where
  "controller_handle F json_proc json_stats req_method req_path upstream =
     (if req_method = ''GET'' \<and> req_path = ''/stats'' then
        (case ProcStat_read F of
           Ok st \<Rightarrow> into_resp json_proc st
         | Err err \<Rightarrow> Ok (err_resp 500 err)
         | Panic \<Rightarrow> Panic)
      else if req_method = ''GET'' \<and> req_path = ''/upstream'' then into_resp json_stats (stats upstream)
      else Ok not_found)"

text \<open>
  \<^verbatim>\<open>serve\<close> ends when the server of the crate \<^verbatim>\<open>hyper\<close> ends, and logs its error instead of returning it.  \<^verbatim>\<open>hyper::Server::bind\<close>
  panics when the address cannot be bound.
\<close>

definition controller_serve :: "(SocketAddr \<Rightarrow> bool) \<Rightarrow> (string + unit) option \<Rightarrow> ControllerServer \<Rightarrow> (io_error, unit) res option" where
  "controller_serve can_bind server_end s =
     (if \<not> can_bind (cs_listen s) then Some Panic
      else case server_end of None \<Rightarrow> None | Some _ \<Rightarrow> Some (Ok ()))"

section \<open>Reading what the kernel prints\<close>

lemma digits_value_append: "digits_value (s @ [c]) = digits_value s * 10 + digit_val c"
  by (simp add: digits_value_def)

lemma digits_value_show_nat: "digits_value (show_nat n) = n"
proof (induction n rule: show_nat.induct)
  case (1 n)
  then show ?case
    by (subst show_nat.simps) (simp add: digits_value_append, simp add: digits_value_def)
qed

lemma parse_f64_show_nat: "parse_f64_or_0 F (show_nat n) = f64_of_nat n"
  by (simp add: parse_f64_or_0_def digits_value_show_nat list_all_iff show_nat_digits)

lemma parse_usize_or_0_show_nat: "n < 2 ^ 64 \<Longrightarrow> parse_usize_or_0 (show_nat n) = n"
  by (simp add: parse_usize_or_0_def parse_uint_show_nat)

lemma split_ascii_word: "\<forall>c \<in> set p. \<not> is_ascii_ws c \<Longrightarrow> split_ascii w (p @ s) = split_ascii (w @ p) s"
  by (induction p arbitrary: w) auto

definition stat_field :: "string \<Rightarrow> bool" where
  "stat_field f \<longleftrightarrow> f \<noteq> [] \<and> (\<forall>c \<in> set f. \<not> is_ascii_ws c)"

lemma split_ascii_join:
  "list_all stat_field ps \<Longrightarrow> split_ascii_whitespace (join_with (CHR '' '') ps @ [CHR 0x0A]) = ps"
  unfolding split_ascii_whitespace_def
proof (induction "CHR '' ''" ps rule: join_with.induct)
  case (2 p)
  then show ?case using split_ascii_word [of p "[]" "[CHR 0x0A]"] by (simp add: stat_field_def is_ascii_ws_def)
next
  case (3 p q ps)
  then show ?case using split_ascii_word [of p "[]"] by (simp add: stat_field_def is_ascii_ws_def)
qed (simp add: is_ascii_ws_def)

lemma split_whitespace_spaces: "split_whitespace (replicate k (CHR '' '') @ s) = split_whitespace s"
  unfolding split_whitespace_def by (induction k) (simp_all add: split_ws.simps [of _ "_ # _"] ws_len_space)

lemma split_whitespace_word:
  assumes "p \<noteq> []" and "\<forall>c \<in> set p. graphic c"
  shows "\<exists>r. split_whitespace (p @ CHR '' '' # s) = p # r"
  unfolding split_whitespace_def using assms split_ws_word [of p "[]" "CHR '' '' # s"]
  by (simp add: split_ws.simps [of p] ws_len_space)

lemma find_statistic_printed:
  assumes "find_sub pat (before @ pat @ rest) = Some (length before)"
    and "rest = replicate k (CHR '' '') @ show_nat n @ CHR '' '' # more_text" and "n < 2 ^ 64"
  shows "find_statistic (before @ pat @ rest) pat = Ok n"
proof -
  have "\<forall>c \<in> set (show_nat n). graphic c" using show_nat_digits is_digit_graphic by blast
  then obtain r where "split_whitespace rest = show_nat n # r"
    using split_whitespace_word [of "show_nat n" more_text] assms(2) by (auto simp: split_whitespace_spaces)
  with assms(1,3) show ?thesis by (simp add: find_statistic_def parse_uint_show_nat)
qed

lemma count_entries: "foldl count_entry (Ok n) (map (\<lambda>d. Ok (Ok d)) ds) = Ok (n + length (filter Not ds))"
  by (induction ds arbitrary: n) (auto simp: count_entry_def)

lemma f64_add_counts: "a + b \<le> 2 ^ 53 \<Longrightarrow> f64_add (f64_of_nat a) (f64_of_nat b) = of_nat (a + b)"
  by (simp add: f64_add_def f64_of_nat_def f64_round_of_nat del: of_nat_add flip: of_nat_add)

lemma get_proc_stat_printed:
  assumes "fs_read_to_string F (d @ ''/'' @ show_nat pid @ ''/stat'') = Ok (join_with (CHR '' '') fs @ [CHR 0x0A])"
    and "list_all stat_field fs" and "24 \<le> length fs"
    and "fs ! 13 = show_nat utime" "fs ! 14 = show_nat stime" "fs ! 19 = show_nat threads" "fs ! 21 = show_nat start"
    and "fs ! 22 = show_nat vsize" "fs ! 23 = show_nat pages"
    and "threads < 2 ^ 64" "vsize < 2 ^ 64" "pages < 2 ^ 64" "utime + stime \<le> 2 ^ 53" "start \<le> 2 ^ 53"
  shows "get_proc_stat F d pid = Ok (f64_round (of_nat (utime + stime) / 100), threads, f64_round (of_nat start / 100),
      vsize, pages * fs_page_size F mod 2 ^ 64)"
proof -
  have c: "\<not> length fs \<le> 23" using assms(3) by simp
  have t: "f64_of_nat start = of_nat start" using assms(14) by (simp only: f64_of_nat_def f64_round_of_nat)
  show ?thesis
    unfolding get_proc_stat_def assms(1) bind_res.simps Let_def split_ascii_join [OF assms(2)] if_not_P [OF c] assms(4-9)
      parse_f64_show_nat parse_usize_or_0_show_nat [OF assms(10)] parse_usize_or_0_show_nat [OF assms(11)]
      parse_usize_or_0_show_nat [OF assms(12)] f64_add_counts [OF assms(13)] t f64_div_def USER_HZ_def ..
qed

section \<open>Properties\<close>

text \<open>
  C40: the statistics of the process.  From the files as the kernel prints them, \<^verbatim>\<open>GET /stats\<close> reports the number of open
  files that are no directories, the soft limit of open files, the processor time and the start time as the nearest doubles
  of the seconds, the threads, the virtual size, and the resident pages times the page size in 64 bits, provided no
  field of the status line, the name of the program included, contains white space.
\<close>

theorem proc_stats_reported:
  assumes "pid = fs_pid F"
    and "fs_read_dir F (''/proc/'' @ show_nat pid @ ''/fd'') = Ok (map (\<lambda>d. Ok (Ok d)) entries)"
    and "fs_read_to_string F (''/proc/'' @ show_nat pid @ ''/limits'') = Ok (before @ MAXFD_PATTERN @ limit)"
    and "find_sub MAXFD_PATTERN (before @ MAXFD_PATTERN @ limit) = Some (length before)"
    and "limit = replicate k (CHR '' '') @ show_nat mfds @ CHR '' '' # hard_limit"
    and "fs_read_to_string F (''/proc/'' @ show_nat pid @ ''/stat'') = Ok (join_with (CHR '' '') fs @ [CHR 0x0A])"
    and "list_all stat_field fs" and "24 \<le> length fs"
    and "fs ! 13 = show_nat utime" "fs ! 14 = show_nat stime" "fs ! 19 = show_nat threads" "fs ! 21 = show_nat start"
    and "fs ! 22 = show_nat vsize" "fs ! 23 = show_nat pages"
    and "mfds < 2 ^ 64" "threads < 2 ^ 64" "vsize < 2 ^ 64" "pages < 2 ^ 64" "utime + stime \<le> 2 ^ 53" "start \<le> 2 ^ 53"
  shows "controller_handle F json_proc json_stats ''GET'' ''/stats'' u = into_resp json_proc
    \<lparr>ps_open_fds = length (filter Not entries), ps_max_fds = mfds, ps_cpu_seconds = f64_round (of_nat (utime + stime) / 100),
     ps_threads = threads, ps_start = f64_round (of_nat start / 100), ps_vss = vsize,
     ps_rss = pages * fs_page_size F mod 2 ^ 64\<rparr>"
proof -
  have fds: "open_fds F pid = Ok (length (filter Not entries))"
    unfolding open_fds_def assms(2) by (simp add: count_entries)
  have lim: "max_fds F pid = Ok mfds"
    unfolding max_fds_def assms(3) using find_statistic_printed [OF assms(4,5,15)] by simp
  have "fs_read_to_string F (''/proc'' @ ''/'' @ show_nat pid @ ''/stat'') = Ok (join_with (CHR '' '') fs @ [CHR 0x0A])"
    using assms(6) by simp
  from get_proc_stat_printed [OF this assms(7-14,16-20)]
  have "get_proc_stat F ''/proc'' pid = Ok (f64_round (of_nat (utime + stime) / 100), threads, f64_round (of_nat start / 100),
      vsize, pages * fs_page_size F mod 2 ^ 64)" .
  with fds lim assms(1) show ?thesis by (simp add: controller_handle_def ProcStat_read_def Let_def)
qed

definition demo_stat :: "string \<Rightarrow> string list" where
  "demo_stat comm = [''7'', comm, ''S'', ''1'', ''7'', ''7'', ''0'', ''-1'', ''4194560'', ''5'', ''0'', ''0'', ''0'', ''250'', ''50'',
     ''0'', ''0'', ''20'', ''0'', ''4'', ''0'', ''3000'', ''8192'', ''2'']"

definition demo_fs :: "string \<Rightarrow> proc_fs" where
  "demo_fs comm = \<lparr>fs_pid = 7, fs_read_dir = (\<lambda>p. Ok [Ok (Ok False), Ok (Ok True), Ok (Ok False)]),
     fs_read_to_string = (\<lambda>p. if p = ''/proc/7/stat'' then Ok (join_with (CHR '' '') (demo_stat comm) @ [CHR 0x0A])
        else Ok (''Max open files   1024 4096 files'')),
     fs_page_size = 4096, fs_parse_f64 = (\<lambda>s. None)\<rparr>"

theorem proc_stats_reported_witness:
  "controller_handle (demo_fs ''(roxy)'') (\<lambda>st. Inr [of_nat (ps_threads st)]) (\<lambda>s. Inr []) ''GET'' ''/stats'' \<lparr>peers = Peers_new [], lb_type = Best\<rparr>
    = Ok \<lparr>resp_status = 200, resp_content_type = Some ''application/json'', resp_body = [4]\<rparr>"
proof -
  have n: "show_nat 7 = ''7''" "show_nat 250 = ''250''" "show_nat 50 = ''50''" "show_nat 4 = ''4''" "show_nat 3000 = ''3000''"
    "show_nat 8192 = ''8192''" "show_nat 2 = ''2''" "show_nat 1024 = ''1024''"
    by (simp_all add: show_nat.simps digit_char_def char_of_def bit_Suc_0_iff)
  let ?F = "demo_fs ''(roxy)''"
  have "controller_handle ?F (\<lambda>st. Inr [of_nat (ps_threads st)]) (\<lambda>s. Inr []) ''GET'' ''/stats'' \<lparr>peers = Peers_new [], lb_type = Best\<rparr>
    = into_resp (\<lambda>st. Inr [of_nat (ps_threads st)])
       \<lparr>ps_open_fds = length (filter Not [False, True, False]), ps_max_fds = 1024, ps_cpu_seconds = f64_round (of_nat (250 + 50) / 100),
        ps_threads = 4, ps_start = f64_round (of_nat 3000 / 100), ps_vss = 8192, ps_rss = 2 * fs_page_size ?F mod 2 ^ 64\<rparr>"
  proof (rule proc_stats_reported [where pid = 7 and before = "[]" and limit = "''   1024 4096 files''" and k = 3
        and hard_limit = "''4096 files''" and fs = "demo_stat ''(roxy)''"])
    show "list_all stat_field (demo_stat ''(roxy)'')" by (simp add: demo_stat_def stat_field_def is_ascii_ws_def)
  qed (simp_all add: demo_fs_def n demo_stat_def MAXFD_PATTERN_def numeral_3_eq_3)
  then show ?thesis by (simp only: into_resp_def) simp
qed

text \<open>
  A name with a space moves all the fields: the number of threads is then read from the field before it.
\<close>

lemma name_with_space:
  "\<exists>cpu start. get_proc_stat (demo_fs ''(my roxy)'') ''/proc'' 7 = Ok (cpu, 0, start, 3000, 8192 * 4096)"
proof -
  have n: "show_nat 7 = ''7''" "show_nat 0 = ''0''" "show_nat 3000 = ''3000''" "show_nat 8192 = ''8192''"
    by (simp_all add: show_nat.simps digit_char_def char_of_def bit_Suc_0_iff)
  have "split_ascii_whitespace (join_with (CHR '' '') (demo_stat ''(my roxy)'') @ [CHR 0x0A])
    = [''7'', ''(my'', ''roxy)''] @ drop 2 (demo_stat ''x'')"
    by (simp add: split_ascii_whitespace_def demo_stat_def is_ascii_ws_def)
  moreover have "fs_read_to_string (demo_fs ''(my roxy)'') (''/proc'' @ ''/'' @ show_nat 7 @ ''/stat'')
    = Ok (join_with (CHR '' '') (demo_stat ''(my roxy)'') @ [CHR 0x0A])" by (simp add: demo_fs_def n)
  moreover have "parse_usize_or_0 ''0'' = 0" "parse_usize_or_0 ''3000'' = 3000" "parse_usize_or_0 ''8192'' = 8192"
    using parse_usize_or_0_show_nat [of 0] parse_usize_or_0_show_nat [of 3000] parse_usize_or_0_show_nat [of 8192]
    by (simp_all only: n) simp_all
  moreover have "fs_page_size (demo_fs x) = 4096" for x by (simp add: demo_fs_def)
  ultimately show ?thesis by (simp only: get_proc_stat_def bind_res.simps Let_def) (simp add: demo_stat_def)
qed

end
