(* ===== verification/Logger.thy ===== *)
theory Logger
  imports DateTime Rust_Net
begin

text \<open>
  \<^verbatim>\<open>src/log/logger.rs\<close> and \<^verbatim>\<open>src/trace.rs\<close>: the subscriber that writes the events of the program to standard output, one
  line each.

  Events and levels belong to the crate \<^verbatim>\<open>tracing\<close>: levels are a type variable, their order and text are fields of
  \<open>tracing_lib\<close>.  The value of a field is a text, an error with its sources, or any other value given by its
  \<^verbatim>\<open>Debug\<close> text.  \<open>escape_char\<close> is how \<^verbatim>\<open>str\<close>'s \<^verbatim>\<open>Debug\<close> prints a character outside ASCII, which the tables of Unicode decide.
\<close>

section \<open>Texts\<close>

record 'lv tracing_lib =
  level_le :: "'lv \<Rightarrow> 'lv \<Rightarrow> bool"
  level_fmt5 :: "'lv \<Rightarrow> string"
  level_as_str :: "'lv \<Rightarrow> string"
  level_from_str :: "string \<Rightarrow> string + 'lv"
  escape_char :: "string \<Rightarrow> string"

text \<open>The \<^verbatim>\<open>Debug\<close> form of an ASCII character inside a text.\<close>

definition LF :: char where "LF = CHR 0x0A"

definition escape_ascii :: "char \<Rightarrow> string" where
  "escape_ascii c =
     (if c = CHR 0x00 then [CHR 0x5C, CHR ''0'']
      else if c = CHR 0x09 then [CHR 0x5C, CHR ''t'']
      else if c = CHR 0x0D then [CHR 0x5C, CHR ''r'']
      else if c = LF then [CHR 0x5C, CHR ''n'']
      else if c = CHR 0x5C then [CHR 0x5C, CHR 0x5C]
      else if c = CHR 0x22 then [CHR 0x5C, CHR 0x22]
      else if 0x20 \<le> (of_char c :: nat) \<and> of_char c < (0x7F :: nat) then [c]
      else [CHR 0x5C, CHR ''u'', CHR 0x7B] @ show_hex (of_char c) @ [CHR 0x7D])"

function escape_debug :: "(string \<Rightarrow> string) \<Rightarrow> string \<Rightarrow> string" where
  "escape_debug esc s =
     (if s = [] then []
      else let n = utf8_char_len (as_bytes s) in
        if n \<le> 1 then escape_ascii (hd s) @ escape_debug esc (tl s)
        else esc (take n s) @ escape_debug esc (drop n s))"
  by pat_completeness auto
termination
  by (relation "measure (\<lambda>(esc, s). length s)") auto

declare escape_debug.simps [simp del]

definition debug_str :: "(string \<Rightarrow> string) \<Rightarrow> string \<Rightarrow> string" where
  "debug_str esc s = CHR 0x22 # escape_debug esc s @ [CHR 0x22]"

text \<open>An error: its \<^verbatim>\<open>Display\<close> text and its source.\<close>

datatype dyn_error = DynError (error_text: string) (error_source: "dyn_error option")

fun error_list :: "dyn_error \<Rightarrow> string list" where
  "error_list (DynError t None) = [t]"
| "error_list (DynError t (Some e)) = t # error_list e"

fun comma_separated :: "string list \<Rightarrow> string" where
  "comma_separated [] = []"
| "comma_separated [t] = t"
| "comma_separated (t # ts) = t @ '', '' @ comma_separated ts"

definition ErrorSourceList_fmt :: "dyn_error \<Rightarrow> string" where
  "ErrorSourceList_fmt e = ''['' @ comma_separated (error_list e) @ '']''"

section \<open>Fields\<close>

datatype field_value = FStr string | FError dyn_error | FDebug string

definition strip_raw :: "string \<Rightarrow> string" where
  "strip_raw name = (if take 2 name = ''r#'' then drop 2 name else name)"

definition record_debug :: "string \<Rightarrow> string \<Rightarrow> string \<Rightarrow> string" where
  "record_debug name v buf =
     (if name = ''message'' then buf @ v else buf @ '' '' @ strip_raw name @ ''='' @ v)"

definition record_str :: "'lv tracing_lib \<Rightarrow> string \<Rightarrow> string \<Rightarrow> string \<Rightarrow> string" where
  "record_str T name v buf =
     (if name = ''message'' then record_debug name v buf
      else record_debug name (debug_str (escape_char T) v) buf)"

definition record_error :: "string \<Rightarrow> dyn_error \<Rightarrow> string \<Rightarrow> string" where
  "record_error name e buf = (case error_source e of
     Some source \<Rightarrow> record_debug name (error_text e @ '', '' @ name @ ''.sources: '' @ ErrorSourceList_fmt source) buf
   | None \<Rightarrow> record_debug name (error_text e) buf)"

fun record_field :: "'lv tracing_lib \<Rightarrow> string \<times> field_value \<Rightarrow> string \<Rightarrow> string" where
  "record_field T (name, FStr v) buf = record_str T name v buf"
| "record_field T (name, FError e) buf = record_error name e buf"
| "record_field T (name, FDebug v) buf = record_debug name v buf"

section \<open>Events\<close>

record 'lv log_event =
  ev_level :: 'lv
  ev_module :: "string option"
  ev_fields :: "(string \<times> field_value) list"

record 'lv Logger =
  lg_level :: 'lv
  lg_timestamp :: bool

definition Logger_new :: "'lv \<Rightarrow> bool \<Rightarrow> 'lv Logger" where
  "Logger_new level timestamp = \<lparr>lg_level = level, lg_timestamp = timestamp\<rparr>"

text \<open>\<^verbatim>\<open>trace::init\<close> sets the logger once; a second call panics.\<close>

definition trace_init :: "'lv Logger option \<Rightarrow> 'lv \<Rightarrow> bool \<Rightarrow> (unit, 'lv Logger) res" where
  "trace_init global level timestamp = (case global of None \<Rightarrow> Ok (Logger_new level timestamp) | Some _ \<Rightarrow> Panic)"

definition enabled :: "'lv tracing_lib \<Rightarrow> 'lv Logger \<Rightarrow> 'lv log_event \<Rightarrow> bool" where
  "enabled T lg ev = level_le T (ev_level ev) (lg_level lg)"

definition new_span :: "'lv Logger \<Rightarrow> (unit, nat) res" where
  "new_span lg = Panic"

text \<open>The buffer of a thread, and whether an event is being written, as it is while its fields are printed.\<close>

record log_thread =
  lt_buf :: string
  lt_borrowed :: bool

text \<open>
  \<open>now\<close> is the system time and \<open>stdout\<close> the result of the write: how many bytes it takes, or an error, which
  panics and leaves the buffer as it is.  The result has the bytes that were written.
\<close>

definition Logger_event :: "'lv tracing_lib \<Rightarrow> 'lv Logger \<Rightarrow> int \<Rightarrow> (bytes \<Rightarrow> (io_error, nat) res) \<Rightarrow> 'lv log_event \<Rightarrow> log_thread
    \<Rightarrow> (unit, unit) res \<times> bytes \<times> log_thread" where
  "Logger_event T lg now stdout ev th =
     (let buf = (if lt_borrowed th then [] else lt_buf th);
          keep = (\<lambda>buf. if lt_borrowed th then th else th\<lparr>lt_buf := buf\<rparr>) in
      case (if lg_timestamp lg then map_ok (\<lambda>date. buf @ DateTime_fmt date @ '' '') (from_system_time now) else Ok buf) of
        Ok buf \<Rightarrow>
          (let buf = buf @ level_fmt5 T (ev_level ev) @ '' '';
               buf = (case ev_module ev of Some m \<Rightarrow> buf @ m @ '' '' | None \<Rightarrow> buf);
               buf = fold (record_field T) (ev_fields ev) buf;
               buf = buf @ [LF] in
           case stdout (as_bytes buf) of
             Ok n \<Rightarrow> (Ok (), take n (as_bytes buf), keep [])
           | _ \<Rightarrow> (Panic, [], keep buf))
      | _ \<Rightarrow> (Panic, [], keep buf))"

text \<open>
  The events of a thread, each with the time and the write; a panic ends the task that logged, not the thread.
\<close>

fun log_all :: "'lv tracing_lib \<Rightarrow> 'lv Logger \<Rightarrow> (int \<times> (bytes \<Rightarrow> (io_error, nat) res) \<times> 'lv log_event) list \<Rightarrow> log_thread
    \<Rightarrow> bytes \<times> log_thread" where
  "log_all T lg [] th = ([], th)"
| "log_all T lg ((now, stdout, ev) # evs) th =
     (if enabled T lg ev then
        (case Logger_event T lg now stdout ev th of (_, out, th) \<Rightarrow>
           case log_all T lg evs th of (rest, th) \<Rightarrow> (out @ rest, th))
      else log_all T lg evs th)"

section \<open>Lines\<close>

text \<open>What an event adds to the log.\<close>

definition value_text :: "'lv tracing_lib \<Rightarrow> string \<Rightarrow> field_value \<Rightarrow> string" where
  "value_text T name v = (case v of
     FStr s \<Rightarrow> if name = ''message'' then s else debug_str (escape_char T) s
   | FError e \<Rightarrow> error_text e @ (case error_source e of
       None \<Rightarrow> [] | Some source \<Rightarrow> '', '' @ name @ ''.sources: '' @ ErrorSourceList_fmt source)
   | FDebug s \<Rightarrow> s)"

definition field_text :: "'lv tracing_lib \<Rightarrow> string \<times> field_value \<Rightarrow> string" where
  "field_text T f = (case f of (name, v) \<Rightarrow>
     (if name = ''message'' then [] else '' '' @ strip_raw name @ ''='') @ value_text T name v)"

definition log_text :: "'lv tracing_lib \<Rightarrow> 'lv Logger \<Rightarrow> int \<Rightarrow> 'lv log_event \<Rightarrow> string" where
  "log_text T lg now ev =
     (if lg_timestamp lg then (case from_system_time now of Ok date \<Rightarrow> DateTime_fmt date @ '' '') else [])
     @ level_fmt5 T (ev_level ev) @ '' '' @ (case ev_module ev of Some m \<Rightarrow> m @ '' '' | None \<Rightarrow> [])
     @ concat (map (field_text T) (ev_fields ev)) @ [LF]"

lemma record_field_appends: "record_field T f buf = buf @ field_text T f"
  by (cases "(T, f, buf)" rule: record_field.cases)
    (auto simp: record_str_def record_error_def record_debug_def field_text_def value_text_def split: option.split)

lemma record_fields_append: "fold (record_field T) fs buf = buf @ concat (map (field_text T) fs)"
  by (induction fs arbitrary: buf) (simp_all add: record_field_appends)

definition writes_all :: "(bytes \<Rightarrow> (io_error, nat) res) \<Rightarrow> bool" where
  "writes_all stdout \<longleftrightarrow> (\<forall>b. stdout b = Ok (length b))"

definition write_fails :: "(bytes \<Rightarrow> (io_error, nat) res) \<Rightarrow> bool" where
  "write_fails stdout \<longleftrightarrow> (\<forall>b. \<exists>e. stdout b = Err e)"

lemma Logger_event_text:
  assumes "\<exists>date. from_system_time now = Ok date" and "\<not> lt_borrowed th"
  shows "writes_all stdout \<Longrightarrow> Logger_event T lg now stdout ev th
      = (Ok (), as_bytes (lt_buf th @ log_text T lg now ev), th\<lparr>lt_buf := []\<rparr>)"
    and "write_fails stdout \<Longrightarrow> Logger_event T lg now stdout ev th
      = (Panic, [], th\<lparr>lt_buf := lt_buf th @ log_text T lg now ev\<rparr>)"
proof -
  obtain date where d: "from_system_time now = Ok date" using assms(1) by blast
  show "Logger_event T lg now stdout ev th
      = (Ok (), as_bytes (lt_buf th @ log_text T lg now ev), th\<lparr>lt_buf := []\<rparr>)" if "writes_all stdout"
    using that assms(2) d
    by (simp add: Logger_event_def Let_def writes_all_def record_fields_append log_text_def as_bytes_def split: option.split)
  show "Logger_event T lg now stdout ev th
      = (Panic, [], th\<lparr>lt_buf := lt_buf th @ log_text T lg now ev\<rparr>)" if w: "write_fails stdout"
  proof -
    obtain e where "stdout (as_bytes (lt_buf th @ log_text T lg now ev)) = Err e" using w unfolding write_fails_def by blast
    then show ?thesis
      using assms(2) d by (auto simp: Logger_event_def Let_def record_fields_append log_text_def as_bytes_def split: option.splits)
  qed
qed

text \<open>
  Over any sequence of complete and failed writes nothing is lost: what was written, followed by what is still in
  the buffer, is the text of all enabled events.
\<close>

fun log_texts :: "'lv tracing_lib \<Rightarrow> 'lv Logger \<Rightarrow> (int \<times> (bytes \<Rightarrow> (io_error, nat) res) \<times> 'lv log_event) list \<Rightarrow> string list" where
  "log_texts T lg [] = []"
| "log_texts T lg ((now, stdout, ev) # evs) =
     (if enabled T lg ev then log_text T lg now ev # log_texts T lg evs else log_texts T lg evs)"

lemma log_all_texts:
  assumes "\<forall>(now, stdout, ev) \<in> set evs. (\<exists>date. from_system_time now = Ok date) \<and> (writes_all stdout \<or> write_fails stdout)"
    and "\<not> lt_borrowed th"
  shows "\<exists>buf. snd (log_all T lg evs th) = th\<lparr>lt_buf := buf\<rparr>
    \<and> fst (log_all T lg evs th) @ as_bytes buf = as_bytes (lt_buf th @ concat (log_texts T lg evs))
    \<and> ((\<forall>(now, stdout, ev) \<in> set evs. writes_all stdout) \<longrightarrow> lt_buf th = [] \<longrightarrow> buf = [])"
  using assms
proof (induction evs arbitrary: th)
  case (Cons e evs)
  obtain now stdout ev where e: "e = (now, stdout, ev)" by (cases e)
  have ok: "\<exists>date. from_system_time now = Ok date" "writes_all stdout \<or> write_fails stdout"
    using Cons.prems(1) e by auto
  note step = Logger_event_text [OF ok(1) Cons.prems(2)]
  have IH: "\<exists>buf. snd (log_all T lg evs th') = th'\<lparr>lt_buf := buf\<rparr>
      \<and> fst (log_all T lg evs th') @ as_bytes buf = as_bytes (lt_buf th' @ concat (log_texts T lg evs))
      \<and> ((\<forall>(now, stdout, ev) \<in> set evs. writes_all stdout) \<longrightarrow> lt_buf th' = [] \<longrightarrow> buf = [])"
    if "lt_borrowed th' = lt_borrowed th" for th'
    using Cons.IH [of th'] Cons.prems that by auto
  show ?case
  proof (cases "enabled T lg ev")
    case False
    with IH [of th] e show ?thesis by auto
  next
    case True
    show ?thesis
    proof (cases "writes_all stdout")
      case w: True
      obtain buf where "snd (log_all T lg evs (th\<lparr>lt_buf := []\<rparr>)) = th\<lparr>lt_buf := buf\<rparr>"
        "fst (log_all T lg evs (th\<lparr>lt_buf := []\<rparr>)) @ as_bytes buf = as_bytes (concat (log_texts T lg evs))"
        "(\<forall>(now, stdout, ev) \<in> set evs. writes_all stdout) \<longrightarrow> buf = []"
        using IH [of "th\<lparr>lt_buf := []\<rparr>"] by fastforce
      with True e show ?thesis
        by (intro exI [of _ buf]) (simp add: step(1) [OF w] as_bytes_def case_prod_unfold)
    next
      case w: False
      with ok(2) have f: "write_fails stdout" by simp
      let ?th = "th\<lparr>lt_buf := lt_buf th @ log_text T lg now ev\<rparr>"
      obtain buf where "snd (log_all T lg evs ?th) = th\<lparr>lt_buf := buf\<rparr>"
        "fst (log_all T lg evs ?th) @ as_bytes buf = as_bytes (lt_buf ?th @ concat (log_texts T lg evs))"
        using IH [of ?th] by auto
      with True w e show ?thesis
        by (intro exI [of _ buf]) (simp add: step(2) [OF f] as_bytes_def case_prod_unfold)
    qed
  qed
next
  case Nil
  then show ?case by (intro exI [of _ "lt_buf th"]) simp
qed

text \<open>
  A write may also take only a part of what it is given, and the rest is dropped: then the log is a subsequence of
  the texts.
\<close>

lemma Logger_event_any:
  assumes "\<exists>date. from_system_time now = Ok date" and "\<not> lt_borrowed th"
  obtains n where "Logger_event T lg now stdout ev th
      = (Ok (), take n (as_bytes (lt_buf th @ log_text T lg now ev)), th\<lparr>lt_buf := []\<rparr>)"
  | "Logger_event T lg now stdout ev th = (Panic, [], th\<lparr>lt_buf := lt_buf th @ log_text T lg now ev\<rparr>)"
proof -
  obtain date where d: "from_system_time now = Ok date" using assms(1) by blast
  let ?b = "lt_buf th @ log_text T lg now ev"
  have "Logger_event T lg now stdout ev th = (case stdout (as_bytes ?b) of
      Ok n \<Rightarrow> (Ok (), take n (as_bytes ?b), th\<lparr>lt_buf := []\<rparr>) | _ \<Rightarrow> (Panic, [], th\<lparr>lt_buf := ?b\<rparr>))"
    using assms(2) d
    by (simp add: Logger_event_def Let_def record_fields_append log_text_def cong: res.case_cong
        del: take_append as_bytes_append split: option.split)
  then show ?thesis using that by (cases "stdout (as_bytes ?b)") auto
qed

lemma log_all_subseq:
  assumes "\<forall>(now, stdout, ev) \<in> set evs. \<exists>date. from_system_time now = Ok date" and "\<not> lt_borrowed th"
  shows "\<exists>buf. snd (log_all T lg evs th) = th\<lparr>lt_buf := buf\<rparr>
    \<and> subseq (fst (log_all T lg evs th) @ as_bytes buf) (as_bytes (lt_buf th @ concat (log_texts T lg evs)))"
  using assms
proof (induction evs arbitrary: th)
  case (Cons e evs)
  obtain now stdout ev where e: "e = (now, stdout, ev)" by (cases e)
  have date: "\<exists>date. from_system_time now = Ok date" using Cons.prems(1) e by auto
  have IH: "\<exists>buf. snd (log_all T lg evs (th\<lparr>lt_buf := b\<rparr>)) = th\<lparr>lt_buf := buf\<rparr>
      \<and> subseq (fst (log_all T lg evs (th\<lparr>lt_buf := b\<rparr>)) @ as_bytes buf) (as_bytes (b @ concat (log_texts T lg evs)))" for b
    using Cons.IH [of "th\<lparr>lt_buf := b\<rparr>"] Cons.prems by auto
  show ?case
  proof (cases "enabled T lg ev")
    case False
    with IH [of "lt_buf th"] e show ?thesis by simp
  next
    case True
    let ?b = "lt_buf th @ log_text T lg now ev"
    show ?thesis
    proof (cases rule: Logger_event_any [OF date Cons.prems(2), of T lg stdout ev, case_names taken failed])
      case (taken n)
      obtain buf where "snd (log_all T lg evs (th\<lparr>lt_buf := []\<rparr>)) = th\<lparr>lt_buf := buf\<rparr>"
        "subseq (fst (log_all T lg evs (th\<lparr>lt_buf := []\<rparr>)) @ as_bytes buf) (as_bytes (concat (log_texts T lg evs)))"
        using IH [of "[]"] by auto
      moreover have "subseq (take n (as_bytes ?b)) (as_bytes ?b)"
        by (rule prefix_imp_subseq [OF take_is_prefix])
      ultimately show ?thesis
        using True e taken list_emb_append_mono [of "(=)" "take n (as_bytes ?b)" "as_bytes ?b"]
        by (intro exI [of _ buf]) (simp add: as_bytes_append case_prod_unfold)
    next
      case failed
      with True e IH [of ?b] show ?thesis by (simp add: case_prod_unfold)
    qed
  qed
next
  case Nil
  then show ?case by (intro exI [of _ "lt_buf th"]) simp
qed

text \<open>One line per event: only the end of an event is a line feed.\<close>

abbreviation no_LF :: "string \<Rightarrow> bool" where
  "no_LF s \<equiv> LF \<notin> set s"

lemma hex_digit_LF: "n < 16 \<Longrightarrow> hex_digit n \<noteq> LF"
proof -
  assume "n < 16"
  then have "of_char (hex_digit n) = (if n < 10 then 48 + n else 87 + n)" by (simp add: hex_digit_def)
  moreover have "of_char LF = (10 :: nat)" by (simp add: LF_def)
  ultimately show ?thesis by (auto split: if_splits)
qed

lemma show_hex_no_LF: "no_LF (show_hex n)"
proof (induction n rule: show_hex.induct)
  case (1 n)
  then show ?case using hex_digit_LF [of n] hex_digit_LF [of "n mod 16"] by (subst show_hex.simps) auto
qed

lemma escape_ascii_no_LF: "no_LF (escape_ascii c)"
  using show_hex_no_LF by (simp add: escape_ascii_def LF_def)

lemma escape_debug_no_LF: "(\<And>c. no_LF (esc c)) \<Longrightarrow> no_LF (escape_debug esc s)"
proof (induction esc s rule: escape_debug.induct)
  case (1 esc s)
  then show ?case by (subst escape_debug.simps) (simp add: escape_ascii_no_LF Let_def)
qed

fun quiet_value :: "field_value \<Rightarrow> bool" where
  "quiet_value (FStr s) = no_LF s"
| "quiet_value (FError e) = list_all no_LF (error_list e)"
| "quiet_value (FDebug s) = no_LF s"

text \<open>
  An event whose names have no line feed, nor its message, nor the texts that are printed as they are; texts that
  are printed with \<^verbatim>\<open>Debug\<close> are arbitrary.
\<close>

definition quiet_event :: "'lv tracing_lib \<Rightarrow> 'lv log_event \<Rightarrow> bool" where
  "quiet_event T ev \<longleftrightarrow> no_LF (level_fmt5 T (ev_level ev)) \<and> pred_option no_LF (ev_module ev)
     \<and> (\<forall>(name, v) \<in> set (ev_fields ev). no_LF name \<and> (name \<noteq> ''message'' \<and> (\<exists>s. v = FStr s) \<or> quiet_value v))"

lemma comma_separated_no_LF: "list_all no_LF ts \<Longrightarrow> no_LF (comma_separated ts)"
  by (induction ts rule: comma_separated.induct) (auto simp: LF_def)

lemma error_list_hd: "error_list e = error_text e # (case error_source e of None \<Rightarrow> [] | Some s \<Rightarrow> error_list s)"
  by (cases e rule: error_list.cases) simp_all

lemma field_text_no_LF:
  assumes "\<And>c. no_LF (escape_char T c)" and "no_LF name" and "name \<noteq> ''message'' \<and> (\<exists>s. v = FStr s) \<or> quiet_value v"
  shows "no_LF (field_text T (name, v))"
proof -
  have "no_LF (strip_raw name)" using assms(2) by (auto simp: strip_raw_def dest: in_set_dropD)
  moreover have "no_LF (value_text T name v)"
  proof (cases v)
    case (FStr s)
    with assms(1,3) escape_debug_no_LF [of "escape_char T" s] show ?thesis
      by (auto simp: value_text_def debug_str_def LF_def)
  next
    case (FError e)
    with assms(2,3) comma_separated_no_LF show ?thesis
      by (auto simp: value_text_def ErrorSourceList_fmt_def LF_def error_list_hd [of e] split: option.splits)
  next
    case (FDebug s)
    with assms(3) show ?thesis by (simp add: value_text_def)
  qed
  ultimately show ?thesis by (simp add: field_text_def LF_def)
qed

lemma DateTime_fmt_no_LF: "no_LF (DateTime_fmt d)"
proof -
  have "no_LF (show_nat n)" for n using show_nat_digits [of LF n] by (auto simp: is_digit_def LF_def)
  then have "no_LF (zero_pad w (show_nat n))" "no_LF (fmt_int_width w k)" for w n k
    by (simp_all add: zero_pad_def fmt_int_width_def LF_def)
  then show ?thesis by (simp add: DateTime_fmt_def LF_def)
qed

lemma log_text_line:
  assumes "\<And>c. no_LF (escape_char T c)" and "quiet_event T ev" and "\<exists>date. from_system_time now = Ok date"
  shows "\<exists>l. log_text T lg now ev = l @ [LF] \<and> no_LF l"
proof -
  have "no_LF (concat (map (field_text T) (ev_fields ev)))"
    using assms(1,2) field_text_no_LF [of T] by (fastforce simp: quiet_event_def)
  moreover have "no_LF (level_fmt5 T (ev_level ev))" "pred_option no_LF (ev_module ev)"
    using assms(2) by (simp_all add: quiet_event_def)
  ultimately show ?thesis
    using assms(3) DateTime_fmt_no_LF unfolding log_text_def
    by (cases "ev_module ev") (auto simp: LF_def)
qed

lemma log_texts_lines:
  assumes "\<And>c. no_LF (escape_char T c)"
    and "\<forall>(now, stdout, ev) \<in> set evs. (\<exists>date. from_system_time now = Ok date) \<and> quiet_event T ev"
  shows "\<exists>ls. log_texts T lg evs = map (\<lambda>l. l @ [LF]) ls \<and> list_all no_LF ls"
  using assms(2)
proof (induction evs)
  case (Cons e evs)
  obtain now stdout ev where e: "e = (now, stdout, ev)" by (cases e)
  obtain l where "log_text T lg now ev = l @ [LF]" "no_LF l"
    using log_text_line [OF assms(1), of ev now lg] Cons.prems e by auto
  moreover obtain ls where "log_texts T lg evs = map (\<lambda>l. l @ [LF]) ls" "list_all no_LF ls"
    using Cons by auto
  ultimately show ?case using e by (cases "enabled T lg ev") (force intro: exI [of _ "l # ls"])+
qed simp

section \<open>Properties\<close>

text \<open>
  C39: the log of a thread, over any sequence of events and of results of the writes, with a clock within the range of 64-bit
  seconds.  The text of an event is its time if that is asked for, its level, its module, and its message and other
  fields in the order of the event, then a line feed.  What was written, followed by what is still in the thread's buffer,
  consists of the texts of the enabled events in their order when every write fails or takes everything: a failed
  write panics, but its text comes out with the next event.  When a write takes only a part of what it is given the rest is
  lost, and no more is true than that the log is a subsequence of these texts.  Each text is one line: no field can break it,
  as only messages and values that print a line feed themselves could, and texts are escaped.
\<close>

theorem log_lines:
  assumes "\<And>c. no_LF (escape_char T c)"
    and "\<forall>(now, stdout, ev) \<in> set evs. \<bar>now\<bar> < 2 ^ 63 * 1000000000 \<and> quiet_event T ev"
  shows "\<exists>out buf. log_all T lg evs \<lparr>lt_buf = [], lt_borrowed = False\<rparr> = (out, \<lparr>lt_buf = buf, lt_borrowed = False\<rparr>)
    \<and> subseq (out @ as_bytes buf) (as_bytes (concat (log_texts T lg evs)))
    \<and> ((\<forall>(now, stdout, ev) \<in> set evs. writes_all stdout \<or> write_fails stdout)
        \<longrightarrow> out @ as_bytes buf = as_bytes (concat (log_texts T lg evs)))
    \<and> ((\<forall>(now, stdout, ev) \<in> set evs. writes_all stdout) \<longrightarrow> buf = [])
    \<and> log_texts T lg evs = map (\<lambda>(now, stdout, ev). log_text T lg now ev) (filter (\<lambda>(now, stdout, ev). enabled T lg ev) evs)
    \<and> list_all (\<lambda>t. \<exists>l. t = l @ [LF] \<and> no_LF l) (log_texts T lg evs)"
proof -
  let ?th = "\<lparr>lt_buf = [], lt_borrowed = False\<rparr>"
  have t: "\<exists>date. from_system_time now = Ok date" if "\<bar>now\<bar> < 2 ^ 63 * 1000000000" for now
    using from_system_time_ok [OF that] by blast
  with assms(2) have d: "\<forall>(now, stdout, ev) \<in> set evs. \<exists>date. from_system_time now = Ok date"
    and q: "\<forall>(now, stdout, ev) \<in> set evs. (\<exists>date. from_system_time now = Ok date) \<and> quiet_event T ev" by fast+
  from log_all_subseq [OF d, of ?th T lg] obtain buf where b: "snd (log_all T lg evs ?th) = \<lparr>lt_buf = buf, lt_borrowed = False\<rparr>"
    "subseq (fst (log_all T lg evs ?th) @ as_bytes buf) (as_bytes (concat (log_texts T lg evs)))" by auto
  have full: "fst (log_all T lg evs ?th) @ as_bytes buf = as_bytes (concat (log_texts T lg evs))
      \<and> ((\<forall>(now, stdout, ev) \<in> set evs. writes_all stdout) \<longrightarrow> buf = [])"
    if w: "\<forall>(now, stdout, ev) \<in> set evs. writes_all stdout \<or> write_fails stdout"
  proof -
    from d w have "\<forall>(now, stdout, ev) \<in> set evs. (\<exists>date. from_system_time now = Ok date) \<and> (writes_all stdout \<or> write_fails stdout)"
      by fast
    from log_all_texts [OF this, of ?th T lg] b(1) show ?thesis by auto
  qed
  have all: "\<forall>(now, stdout, ev) \<in> set evs. writes_all stdout \<or> write_fails stdout"
    if "\<forall>(now, stdout, ev) \<in> set evs. writes_all stdout" using that by fast
  obtain ls where "log_texts T lg evs = map (\<lambda>l. l @ [LF]) ls" "list_all no_LF ls"
    using log_texts_lines [OF assms(1) q] by blast
  then have lines: "list_all (\<lambda>t. \<exists>l. t = l @ [LF] \<and> no_LF l) (log_texts T lg evs)"
    by (auto simp: list_all_iff)
  have "log_texts T lg evs = map (\<lambda>(now, stdout, ev). log_text T lg now ev) (filter (\<lambda>(now, stdout, ev). enabled T lg ev) evs)"
    by (induction evs) auto
  with b full all lines show ?thesis
    by (intro exI [of _ "fst (log_all T lg evs ?th)"] exI [of _ buf]) (simp add: prod_eq_iff)
qed

definition demo_tracing :: "nat tracing_lib" where
  "demo_tracing = \<lparr>level_le = (\<le>), level_fmt5 = (\<lambda>l. ''INFO ''), level_as_str = (\<lambda>l. ''INFO''), level_from_str = (\<lambda>s. Inr 0),
     escape_char = (\<lambda>c. ''?'')\<rparr>"

definition demo_event :: "nat log_event" where
  "demo_event = \<lparr>ev_level = 2, ev_module = Some ''roxy'', ev_fields = [(''message'', FStr ''up''), (''name'', FStr [LF])]\<rparr>"

theorem log_lines_witness:
  "\<exists>out buf. log_all demo_tracing (Logger_new 3 False) [(0, \<lambda>b. Err (IoError Other []), demo_event), (1, \<lambda>b. Ok (length b), demo_event)]
        \<lparr>lt_buf = [], lt_borrowed = False\<rparr> = (out, \<lparr>lt_buf = buf, lt_borrowed = False\<rparr>)
    \<and> out @ as_bytes buf = as_bytes (''INFO  roxy up name='' @ debug_str (\<lambda>c. ''?'') [LF] @ [LF]
        @ ''INFO  roxy up name='' @ debug_str (\<lambda>c. ''?'') [LF] @ [LF])"
proof -
  let ?evs = "[(0 :: int, \<lambda>b. Err (IoError Other []), demo_event), (1, \<lambda>b. Ok (length b), demo_event)]"
  let ?texts = "log_texts demo_tracing (Logger_new 3 False) ?evs"
  have "quiet_event demo_tracing demo_event"
    by (simp add: quiet_event_def demo_event_def demo_tracing_def LF_def)
  then have q: "\<forall>(now, stdout, ev) \<in> set ?evs. \<bar>now\<bar> < 2 ^ 63 * 1000000000 \<and> quiet_event demo_tracing ev" by simp
  have w: "\<forall>(now, stdout, ev) \<in> set ?evs. writes_all stdout \<or> write_fails stdout" by (simp add: writes_all_def write_fails_def)
  have "no_LF (escape_char demo_tracing c)" for c by (simp add: demo_tracing_def LF_def)
  from log_lines [OF this q, of "Logger_new 3 False"] w have "\<exists>out buf. log_all demo_tracing (Logger_new 3 False) ?evs
      \<lparr>lt_buf = [], lt_borrowed = False\<rparr> = (out, \<lparr>lt_buf = buf, lt_borrowed = False\<rparr>)
    \<and> out @ as_bytes buf = as_bytes (concat ?texts)" by blast
  moreover have "concat ?texts = ''INFO  roxy up name='' @ debug_str (\<lambda>c. ''?'') [LF] @ [LF]
      @ ''INFO  roxy up name='' @ debug_str (\<lambda>c. ''?'') [LF] @ [LF]"
    by (simp add: demo_tracing_def demo_event_def enabled_def Logger_new_def log_text_def field_text_def value_text_def strip_raw_def)
  ultimately show ?thesis by simp
qed

end
