(* ===== verification/App.thy ===== *)
theory App
  imports ThpServer DnsServer Controller Logger
begin

text \<open>
  \<^verbatim>\<open>src/config.rs\<close>, \<^verbatim>\<open>src/main.rs\<close> and \<^verbatim>\<open>src/signals.rs\<close>: the configuration, the start of the services in order, and the loop that
  waits for them and for a signal.

  The environment, the file system, the YAML reader with the deserializers that \<^verbatim>\<open>serde\<close> derives, the number of processors
  and the libraries of the components are fields of \<open>app_libs\<close>; what the sockets of the services see while the program
  runs is \<open>run_env\<close>.  A panic of the main thread ends the process with status 101; one of a service is caught at its task.
\<close>

section \<open>Configuration\<close>

record 'lv Log =
  log_level :: 'lv
  log_timestamp :: bool

definition default_timestamp :: bool where "default_timestamp = True"

definition Log_default :: "'lv \<Rightarrow> 'lv Log" where
  "Log_default INFO = \<lparr>log_level = INFO, log_timestamp = True\<rparr>"

record 'lv AppConfig =
  cf_worker :: "nat option"
  cf_resolvers :: "SocketAddr list"
  cf_log :: "'lv Log"
  cf_dns :: DnsConfig
  cf_controller :: "controller_Config option"
  cf_upstream :: Config
  cf_thp :: "thp_Config option"

datatype ConfigError = ConfigIo io_error | ConfigDeserialize string

fun ConfigError_fmt :: "ConfigError \<Rightarrow> string" where
  "ConfigError_fmt (ConfigIo e) = ''read config failed, '' @ err_msg e"
| "ConfigError_fmt (ConfigDeserialize e) = ''deserialize config failed, '' @ e"

text \<open>A value of the file: a text, or another one given by its description in errors of \<^verbatim>\<open>serde\<close>.\<close>

datatype yaml_value = YamlStr string | YamlOther string

definition deserialize_log_level :: "'lv tracing_lib \<Rightarrow> yaml_value \<Rightarrow> (string, 'lv) res" where
  "deserialize_log_level T v = (case v of
     YamlStr s \<Rightarrow> of_sum (\<lambda>err. ''invalid level '' @ err) (level_from_str T s)
   | YamlOther d \<Rightarrow> Err (''invalid type: '' @ d @ '', expected trace, debug, info, warn and error''))"

definition serialize_log_level :: "'lv tracing_lib \<Rightarrow> 'lv \<Rightarrow> yaml_value" where
  "serialize_log_level T l = YamlStr (level_as_str T l)"

record ('lv, 'r, 'q, 'rv, 'e, 'l, 't) app_libs =
  al_env :: "string \<Rightarrow> string option"
  al_read :: "string \<Rightarrow> io_error + bytes"
  al_yaml :: "bytes \<Rightarrow> string + 'lv AppConfig"
  al_cpus :: nat
  al_dns :: "'r dns_lib"
  al_http :: "'r \<Rightarrow> http_lib"
  al_url :: url_libs
  al_lru :: "('q, ('rv, 'e) Entry, 'l) lru_lib"
  al_trie :: "'t trie_mod"
  al_checks :: "nat \<Rightarrow> nat \<times> (io_error, u32) res"

definition Config_load :: "('lv, 'r, 'q, 'rv, 'e, 'l, 't) app_libs \<Rightarrow> (ConfigError, 'lv AppConfig) res" where
  "Config_load A =
     bind_res (of_sum ConfigIo (case al_env A ''ROXY_CONFIG'' of
         Some path \<Rightarrow> al_read A path
       | None \<Rightarrow> al_read A ''config.yaml'')) (\<lambda>content.
     bind_res (of_sum ConfigDeserialize (al_yaml A content)) Ok)"

definition worker :: "('lv, 'r, 'q, 'rv, 'e, 'l, 't) app_libs \<Rightarrow> 'lv AppConfig \<Rightarrow> nat" where
  "worker A conf = (case cf_worker conf of Some n \<Rightarrow> n | None \<Rightarrow> al_cpus A)"

section \<open>Start\<close>

datatype ('l, 't) task = DnsTask "('l, 't) DnsServer" | ControllerTask ControllerServer | ThpTask thp_Config Upstream

text \<open>
  The tasks that are started, in order.  Every failure on the way is an \<^verbatim>\<open>expect\<close>.  The result is \<open>None\<close> if reading the
  subscription does not end.
\<close>

definition start_services :: "('lv, 'r, 'q, 'rv, 'e, 'l, 't) app_libs \<Rightarrow> 'lv AppConfig \<Rightarrow> (unit, ('l, 't) task list) res option" where
  "start_services A conf = (case Resolver_new (al_dns A) (cf_resolvers conf) of
     Ok resolver \<Rightarrow>
       (case DnsServer_new (al_trie A) (al_lru A) (al_http A resolver)
               (\<lambda>addrs. case DnsUpstream_new (al_dns A) addrs of Err e \<Rightarrow> Some e | _ \<Rightarrow> None) (cf_dns conf) of
          Ok dns \<Rightarrow>
            (case Upstream_new (al_url A) (al_http A resolver) (al_checks A) (cf_upstream conf) of
               None \<Rightarrow> None
             | Some (Ok upstream) \<Rightarrow>
                 Some (bind_res (case cf_controller conf of
                     Some cc \<Rightarrow> (case ControllerServer_new cc upstream of Ok svr \<Rightarrow> Ok [ControllerTask svr] | _ \<Rightarrow> Panic)
                   | None \<Rightarrow> Ok []) (\<lambda>controller.
                 Ok (DnsTask dns # controller @ (case cf_thp conf of Some tc \<Rightarrow> [ThpTask tc upstream] | None \<Rightarrow> []))))
             | Some _ \<Rightarrow> Some Panic)
        | _ \<Rightarrow> Some Panic)
   | _ \<Rightarrow> Some Panic)"

section \<open>Waiting for the services\<close>

record ('h, 'q, 'rv, 'e, 'd, 'l, 't, 'c) run_env =
  env_proto :: "('h, 'q, 'rv, 'e, 'd) proto_lib"
  env_lru :: "('q, ('rv, 'e) Entry, 'l) lru_lib"
  env_trie :: "'t trie_mod"
  env_lookup :: "nat \<Rightarrow> string list \<Rightarrow> ResolveError + 'rv list"
  env_bind_dns_tcp :: "string \<Rightarrow> io_error + unit"
  env_dns_arrivals :: "(io_error + 'c \<times> SocketAddr) list"
  env_bind_dns_udp :: "string \<Rightarrow> io_error + unit"
  env_dns_events :: "event list"
  env_dns_ended :: bool
  env_tcp_first :: bool
  env_can_bind_http :: "SocketAddr \<Rightarrow> bool"
  env_http_end :: "(string + unit) option"
  env_bind_thp :: "SocketAddr \<Rightarrow> (io_error, unit) res"
  env_thp_arrivals :: "SocketAddr \<Rightarrow> 'c accept_event list"

text \<open>What the task returns with, if it returns.\<close>

fun task_result :: "('h, 'q, 'rv, 'e, 'd, 'l, 't, 'c) run_env \<Rightarrow> ('l, 't) task \<Rightarrow> (io_error, unit) res option" where
  "task_result E (DnsTask s) = dns_serve (env_trie E) (env_proto E) (env_lru E) (env_lookup E) (env_bind_dns_tcp E) (env_dns_arrivals E)
     (env_bind_dns_udp E) (env_dns_events E) (env_dns_ended E) (env_tcp_first E) s"
| "task_result E (ControllerTask s) = controller_serve (env_can_bind_http E) (env_http_end E) s"
| "task_result E (ThpTask config upstream) = snd (thp_serve (env_bind_thp E) (env_thp_arrivals E) config)"

text \<open>
  The order of events: \<open>Shutdown\<close> is the arrival of \<^verbatim>\<open>SIGTERM\<close> or \<^verbatim>\<open>SIGINT\<close>, \<open>Completed i\<close> that the \<open>i\<close>-th of the tasks still waited
  for is seen to have returned; it changes nothing if that task has not.  The result is the status of the process, or
  \<open>None\<close> if it is still running.
\<close>

datatype run_event = Shutdown | Completed nat

fun wait_tasks :: "('h, 'q, 'rv, 'e, 'd, 'l, 't, 'c) run_env \<Rightarrow> ('l, 't) task list \<Rightarrow> run_event list \<Rightarrow> nat option" where
  "wait_tasks E [] evs = Some 0"
| "wait_tasks E (t # ts) [] = None"
| "wait_tasks E (t # ts) (Shutdown # evs) = Some 0"
| "wait_tasks E (t # ts) (Completed i # evs) =
     (if i < length (t # ts) then
        (case task_result E ((t # ts) ! i) of
           None \<Rightarrow> wait_tasks E (t # ts) evs
         | Some (Ok _) \<Rightarrow> wait_tasks E (take i (t # ts) @ drop (Suc i) (t # ts)) evs
         | Some (Err _) \<Rightarrow> Some 1
         | Some Panic \<Rightarrow> Some 101)
      else wait_tasks E (t # ts) evs)"

text \<open>\<^verbatim>\<open>Builder::worker_threads\<close> panics on 0.\<close>

definition roxy_main :: "('lv, 'r, 'q, 'rv, 'e, 'l, 't) app_libs \<Rightarrow> ('h, 'q, 'rv, 'e, 'd, 'l, 't, 'c) run_env \<Rightarrow> run_event list \<Rightarrow> nat option" where
  "roxy_main A E evs = (case Config_load A of
     Err err \<Rightarrow> Some 1
   | Panic \<Rightarrow> Some 101
   | Ok conf \<Rightarrow>
       (case trace_init None (log_level (cf_log conf)) (log_timestamp (cf_log conf)) of
          Ok logger \<Rightarrow>
            if worker A conf = 0 then Some 101
            else (case start_services A conf of
              None \<Rightarrow> None
            | Some (Ok tasks) \<Rightarrow> wait_tasks E tasks evs
            | Some _ \<Rightarrow> Some 101)
        | _ \<Rightarrow> Some 101))"

section \<open>What ends the program\<close>

lemma log_level_roundtrip:
  assumes "level_from_str T (level_as_str T l) = Inr l"
  shows "deserialize_log_level T (serialize_log_level T l) = Ok l"
  using assms by (simp add: deserialize_log_level_def serialize_log_level_def)

lemma dns_task_result: "task_result E (DnsTask s) \<noteq> Some (Ok x)" "task_result E (DnsTask s) \<noteq> Some Panic"
  using dns_serve_result [of "env_trie E" "env_proto E" "env_lru E" "env_lookup E" "env_bind_dns_tcp E" "env_dns_arrivals E"
     "env_bind_dns_udp E" "env_dns_events E" "env_dns_ended E" "env_tcp_first E" s] by auto

lemma controller_task_result: "task_result E (ControllerTask s) = Some r \<Longrightarrow> r = Ok () \<or> r = Panic \<and> \<not> env_can_bind_http E (cs_listen s)"
  by (auto simp: controller_serve_def split: if_splits option.splits)

lemma bind_listeners_failure: "bind_listeners b addrs = (bound, r) \<Longrightarrow> r = Ok () \<or> (\<exists>a \<in> set addrs. b a = r)"
  by (induction addrs arbitrary: bound) (auto split: res.splits prod.splits)

lemma thp_task_result:
  assumes "task_result E (ThpTask c u) = Some r"
  shows "r = Ok () \<or> (\<exists>a \<in> set (thp_listen c). env_bind_thp E a = r)"
  using assms bind_listeners_failure [of "env_bind_thp E" "thp_listen c"]
  by (auto simp: thp_serve_def Let_def split: prod.splits res.splits if_splits)

definition serves_dns :: "('l, 't) task list \<Rightarrow> bool" where
  "serves_dns ts \<longleftrightarrow> (\<exists>s. DnsTask s \<in> set ts)"

lemma serves_dns_remove:
  assumes "serves_dns ts" and "i < length ts" and "task_result E (ts ! i) = Some (Ok x)"
  shows "serves_dns (take i ts @ drop (Suc i) ts)"
proof -
  obtain s where s: "DnsTask s \<in> set ts" using assms(1) by (auto simp: serves_dns_def)
  moreover have "DnsTask s \<noteq> ts ! i" using assms(3) dns_task_result(1) by metis
  moreover have "set ts = set (take i ts @ ts ! i # drop (Suc i) ts)" using assms(2) by (simp only: id_take_nth_drop [symmetric])
  ultimately show ?thesis by (auto simp: serves_dns_def)
qed

lemma wait_tasks_signal:
  "serves_dns ts \<Longrightarrow>
   wait_tasks E ts evs = Some 0 \<longleftrightarrow> (\<exists>evs1 evs2. evs = evs1 @ Shutdown # evs2 \<and> wait_tasks E ts evs1 = None)"
proof (induction E ts evs rule: wait_tasks.induct)
  case (1 E evs)
  then show ?case by (simp add: serves_dns_def)
next
  case (3 E t ts evs)
  then show ?case by (auto intro: exI [of _ "[]"])
next
  case (4 E t ts i evs)
  let ?ts = "t # ts"
  have nil: "(\<exists>evs1 evs2. Completed i # evs = evs1 @ Shutdown # evs2 \<and> P evs1)
      \<longleftrightarrow> (\<exists>evs1 evs2. evs = evs1 @ Shutdown # evs2 \<and> P (Completed i # evs1))" for P
    by (auto simp: Cons_eq_append_conv)
  show ?case
  proof (cases "i < length ?ts")
    case False
    then show ?thesis unfolding nil using 4 by simp
  next
    case i: True
    show ?thesis
    proof (cases "task_result E (?ts ! i)")
      case None
      then show ?thesis unfolding nil using 4 i by simp
    next
      case (Some r)
      show ?thesis
      proof (cases r)
        case (Ok x)
        then have "serves_dns (take i ?ts @ drop (Suc i) ?ts)" using serves_dns_remove [OF 4(4) i] Some by simp
        with 4(2) [OF i Some Ok] show ?thesis unfolding nil using Some Ok i by simp
      next
        case (Err e)
        then show ?thesis unfolding nil using Some i by simp
      next
        case Panic
        then show ?thesis unfolding nil using Some i by simp
      qed
    qed
  qed
qed simp

lemma wait_tasks_failure:
  assumes "wait_tasks E ts evs = Some n" and "n \<noteq> 0"
  shows "\<exists>t \<in> set ts. (\<exists>e. task_result E t = Some (Err e) \<and> n = 1) \<or> task_result E t = Some Panic \<and> n = 101"
  using assms
proof (induction E ts evs rule: wait_tasks.induct)
  case (4 E t ts i evs)
  show ?case
  proof (cases "i < length (t # ts)")
    case i: True
    then have m: "(t # ts) ! i \<in> set (t # ts)" by (rule nth_mem)
    show ?thesis
    proof (cases "task_result E ((t # ts) ! i)")
      case None
      with 4 i show ?thesis by simp
    next
      case (Some r)
      show ?thesis
      proof (cases r)
        case (Ok x)
        have "wait_tasks E (take i (t # ts) @ drop (Suc i) (t # ts)) evs = Some n" using 4(4) Some Ok i by simp
        moreover have "set (take i (t # ts) @ drop (Suc i) (t # ts)) \<subseteq> set (t # ts)"
          using set_take_subset [of i "t # ts"] set_drop_subset [of "Suc i" "t # ts"] by simp
        ultimately show ?thesis using 4(2) [OF i Some Ok _ 4(5)] by blast
      next
        case (Err e)
        then have "n = 1" using 4(4) Some i by simp
        with Err Some m show ?thesis by blast
      next
        case Panic
        then have "n = 101" using 4(4) Some i by simp
        with Panic Some m show ?thesis by blast
      qed
    qed
  qed (use 4 in simp)
qed simp_all

lemma start_services_tasks:
  assumes "start_services A conf = Some (Ok tasks)"
  shows "\<exists>dns controller u. tasks = DnsTask dns # controller @ (case cf_thp conf of Some tc \<Rightarrow> [ThpTask tc u] | None \<Rightarrow> [])
    \<and> ds_addr dns = dc_listen (cf_dns conf) \<and> (controller = [] \<longleftrightarrow> cf_controller conf = None)
    \<and> (\<forall>c \<in> set controller. \<exists>s. c = ControllerTask s)"
  using assms
  by (auto simp: start_services_def DnsServer_new_def bind_res_eq_Ok split: res.splits option.splits)

text \<open>
  A failed \<^verbatim>\<open>accept\<close> ends a listener of the proxy; when all have ended, the proxy task returns successfully and the program
  goes on without it.
\<close>

lemma proxy_end_unnoticed:
  assumes "thp_listen c = addrs" and "\<And>a. env_bind_thp E a = Ok ()" and "\<And>a. env_thp_arrivals E a = [AcceptFailed e]"
  shows "wait_tasks E [DnsTask dns, ThpTask c u] (Completed 1 # evs) = wait_tasks E [DnsTask dns] evs"
proof -
  have "bind_listeners (env_bind_thp E) as = (as, Ok ())" for as by (induction as) (simp_all add: assms(2))
  then have "task_result E (ThpTask c u) = Some (Ok ())" by (simp add: thp_serve_def assms(3) list_all_iff)
  then show ?thesis by simp
qed

section \<open>Properties\<close>

text \<open>
  C20: what ends the program, once its services are started.  It ends with status 0 exactly when a signal
  arrives while it is running; with status 1 only when a socket of the DNS service fails or an address of the
  transparent proxy cannot be bound; with status 101 only when the address of the controller cannot be bound.
\<close>

theorem program_exit:
  assumes "Config_load A = Ok conf" and "worker A conf \<noteq> 0" and "start_services A conf = Some (Ok tasks)"
    and "\<forall>a. env_bind_thp E a \<noteq> Panic"
  shows "(roxy_main A E evs = Some 0 \<longleftrightarrow> (\<exists>evs1 evs2. evs = evs1 @ Shutdown # evs2 \<and> roxy_main A E evs1 = None))
    \<and> (case roxy_main A E evs of
         None \<Rightarrow> True
       | Some n \<Rightarrow> n = 0
         \<or> n = 1 \<and> (\<exists>e. (\<exists>dns. DnsTask dns \<in> set tasks \<and> task_result E (DnsTask dns) = Some (Err e))
             \<or> (\<exists>tc. \<exists>a \<in> set (thp_listen tc). cf_thp conf = Some tc \<and> env_bind_thp E a = Err e))
         \<or> n = 101 \<and> (\<exists>s. ControllerTask s \<in> set tasks \<and> \<not> env_can_bind_http E (cs_listen s)))"
proof -
  have m: "roxy_main A E evs = wait_tasks E tasks evs" for evs using assms(1-3) by (simp add: roxy_main_def trace_init_def)
  obtain dns controller u where t: "tasks = DnsTask dns # controller @ (case cf_thp conf of Some tc \<Rightarrow> [ThpTask tc u] | None \<Rightarrow> [])"
    "\<forall>c \<in> set controller. \<exists>s. c = ControllerTask s"
    using start_services_tasks [OF assms(3)] by blast
  then have "serves_dns tasks" by (auto simp: serves_dns_def)
  from wait_tasks_signal [OF this] have zero: "roxy_main A E evs = Some 0 \<longleftrightarrow>
      (\<exists>evs1 evs2. evs = evs1 @ Shutdown # evs2 \<and> roxy_main A E evs1 = None)" by (simp only: m)
  have fail: "n = 1 \<and> (\<exists>e. (\<exists>dns. DnsTask dns \<in> set tasks \<and> task_result E (DnsTask dns) = Some (Err e))
             \<or> (\<exists>tc. \<exists>a \<in> set (thp_listen tc). cf_thp conf = Some tc \<and> env_bind_thp E a = Err e))
         \<or> n = 101 \<and> (\<exists>s. ControllerTask s \<in> set tasks \<and> \<not> env_can_bind_http E (cs_listen s))"
    if n: "roxy_main A E evs = Some n" "n \<noteq> 0" for n
  proof -
    obtain k r where k: "k \<in> set tasks" "task_result E k = Some r" "(\<exists>e. r = Err e) \<and> n = 1 \<or> r = Panic \<and> n = 101"
      using wait_tasks_failure [OF n(1) [unfolded m] n(2)] by blast
    show ?thesis
    proof (cases k)
      case (DnsTask s)
      with k show ?thesis using dns_task_result(2) by blast
    next
      case (ControllerTask s)
      then have "r = Ok () \<or> r = Panic \<and> \<not> env_can_bind_http E (cs_listen s)" using k(2) controller_task_result by metis
      with k(1,3) ControllerTask show ?thesis by blast
    next
      case (ThpTask c u')
      then have "cf_thp conf = Some c" using k(1) t by (auto split: option.splits)
      moreover have "r = Ok () \<or> (\<exists>a \<in> set (thp_listen c). env_bind_thp E a = r)" using k(2) ThpTask thp_task_result by blast
      ultimately show ?thesis using k(3) assms(4) by blast
    qed
  qed
  show ?thesis
  proof (cases "roxy_main A E evs")
    case None
    with zero show ?thesis by simp
  next
    case (Some n)
    then show ?thesis using zero fail [of n] by (cases "n = 0") auto
  qed
qed

definition demo_dns_lib :: "unit dns_lib" where
  "demo_dns_lib = \<lparr>tokio_resolver = (\<lambda>c opts. Inr ()), resolver_lookup_ip = (\<lambda>r host. Inl NoRecordsFound)\<rparr>"

definition demo_app_config :: "nat AppConfig" where
  "demo_app_config = \<lparr>cf_worker = None, cf_resolvers = [], cf_log = Log_default 3,
     cf_dns = \<lparr>dc_listen = ''0.0.0.0:53'', dc_cache = None, dc_nameservers = [], dc_hosts = None, dc_reject = None, dc_hijack = None\<rparr>,
     cf_controller = None,
     cf_upstream = \<lparr>load_balance = Best, check = \<lparr>check_timeout = 0, check_interval = 0\<rparr>,
       provider = \<lparr>endpoint = [], provider_interval = 0\<rparr>\<rparr>,
     cf_thp = Some \<lparr>thp_listen = [V4 (Ipv4Addr 0 0 0 0) 80]\<rparr>\<rparr>"

definition demo_app :: "(nat, unit, string list, string list \<times> nat \<times> IpAddr, unit,
    nat \<times> (string list \<times> (string list \<times> nat \<times> IpAddr, unit) Entry) list, Trie) app_libs" where
  "demo_app = \<lparr>al_env = (\<lambda>v. None), al_read = (\<lambda>p. Inr []), al_yaml = (\<lambda>b. Inr demo_app_config), al_cpus = 4, al_dns = demo_dns_lib,
     al_http = (\<lambda>r. demo_http), al_url = demo_libs, al_lru = list_lru, al_trie = set_mod, al_checks = (\<lambda>i. (0, Ok 42))\<rparr>"

definition demo_run_env :: "(nat, string list, string list \<times> nat \<times> IpAddr, unit, bytes,
    nat \<times> (string list \<times> (string list \<times> nat \<times> IpAddr, unit) Entry) list, Trie, unit) run_env" where
  "demo_run_env = \<lparr>env_proto = demo_proto, env_lru = list_lru, env_trie = set_mod, env_lookup = demo_lookup, env_bind_dns_tcp = (\<lambda>a. Inr ()),
     env_dns_arrivals = [], env_bind_dns_udp = (\<lambda>a. Inr ()), env_dns_events = [], env_dns_ended = False, env_tcp_first = True,
     env_can_bind_http = (\<lambda>a. True), env_http_end = None, env_bind_thp = (\<lambda>a. Ok ()),
     env_thp_arrivals = (\<lambda>a. [AcceptFailed (IoError Other [])])\<rparr>"

theorem program_exit_witness:
  "roxy_main demo_app demo_run_env [Completed 1, Shutdown] = Some 0 \<and> roxy_main demo_app demo_run_env [Completed 1] = None"
proof -
  obtain p where p: "check_once (\<lambda>i. (0, Ok 42)) (Peers_new [Server_new demo_config]) = Ok p"
    using check_once_ok [of "Peers_new [Server_new demo_config]" "\<lambda>i. (0, Ok 42)"] by (auto simp: Peers_new_def Server_new_def)
  have c: "Config_load demo_app = Ok demo_app_config" by (simp add: Config_load_def demo_app_def)
  have w: "worker demo_app demo_app_config \<noteq> 0" by (simp add: worker_def demo_app_def demo_app_config_def)
  let ?dns = "\<lparr>ds_addr = ''0.0.0.0:53'', ds_handler = \<lparr>h_cache = None, h_hijacker = None, h_reject = None\<rparr>\<rparr>"
  let ?u = "\<lparr>peers = p, lb_type = Best\<rparr>" and ?thp = "\<lparr>thp_listen = [V4 (Ipv4Addr 0 0 0 0) 80]\<rparr>"
  have s: "start_services demo_app demo_app_config = Some (Ok [DnsTask ?dns, ThpTask ?thp ?u])"
    by (simp add: start_services_def demo_app_def demo_app_config_def demo_dns_lib_def Resolver_new_def DnsUpstream_new_def
      DnsServer_new_def Handler_new_def Upstream_new_def demo_load p)
  have d: "task_result demo_run_env (DnsTask ?dns) = None"
    by (simp add: dns_serve_def serve_tcp_def serve_udp_bound_def demo_run_env_def)
  have "wait_tasks demo_run_env [DnsTask ?dns, ThpTask ?thp ?u] [Completed 1] = wait_tasks demo_run_env [DnsTask ?dns] []"
    by (rule proxy_end_unnoticed) (simp_all add: demo_run_env_def)
  then have r: "roxy_main demo_app demo_run_env [Completed 1] = None" using c w s by (simp add: roxy_main_def trace_init_def)
  have "\<forall>a. env_bind_thp demo_run_env a \<noteq> Panic" by (simp add: demo_run_env_def)
  from program_exit [OF c w s this, of "[Completed 1, Shutdown]"] r
  show ?thesis by (auto intro: exI [of _ "[Completed 1]"])
qed

end
