(* ===== verification/Spec2Isabelle.thy ===== *)
theory Spec2Isabelle
  imports Duration UdpSocket TcpStream2022 Replay CronParse SsError HealthCheck App
begin

text \<open>
  \<^bold>\<open>Verification of roxy\<close>, a rule-based DNS server and transparent shadowsocks proxy written in Rust.

  \<^bold>\<open>The program.\<close>  The process reads a configuration file, then starts a DNS service, a pool of upstream shadowsocks
  servers with its health checks, an HTTP controller and a transparent proxy, and waits for them or for a signal.  A client
  asks the DNS service for a name; names that match the hijack rules are answered with the address of the
  proxy, so the client connects there.  The proxy looks at the first bytes of the connection, finds the host in
  the TLS ClientHello or in the Host header, picks a server of the pool, connects to it with the encrypted
  shadowsocks protocol, names the host as the target, and copies in both directions.

  \<^bold>\<open>Conventions.\<close>  A Rust call returns a value, an error or a panic: \<open>('e, 'a) res\<close> of \<open>Roxy_Prelude\<close> with \<open>Ok\<close>, \<open>Err\<close> and
  \<open>Panic\<close>; \<open>bind_res\<close> is the question mark operator.  A call that may run forever has type \<open>option\<close>, \<open>None\<close> meaning that it
  does not return.  A \<^verbatim>\<open>str\<close> is the \<open>string\<close> of its UTF-8 bytes, a byte buffer a list of 8-bit words; integers are words, or \<open>nat\<close> and
  \<open>int\<close> with the wrap-around of the release build written out.  A double is the rational number it stands for, rounded after
  every operation (\<open>F64\<close>).  A socket that is read is the list of the answers of its successive polls, a socket that is written
  has a list of grants and the bytes it took.  Third-party code is a record of functions, an argument of the
  definitions that call it; what is documented of it is a predicate (\<open>aead_laws\<close>, \<open>lru_law\<close>, \<open>url_law\<close>, \<open>md5_law\<close>, \<open>sniff_law\<close>,
  \<open>tokio_law\<close> and others), a hypothesis of the theorems, and every such predicate is shown to hold of a concrete instance.

  \<^bold>\<open>The standard library.\<close>  \<open>Roxy_Prelude\<close>, \<open>Rust_Strings\<close>, \<open>Rust_Net\<close>, \<open>Rust_IO\<close> and \<open>F64\<close> model what the program uses of Rust: results,
  UTF-8 and text, numbers as text, addresses and their texts, errors, lines of a body, and floating point.  \<open>Lru\<close> is
  the interface of the LRU map.

  \<^bold>\<open>Configuration and small components.\<close>
  \<^item> \<open>Duration\<close> (\<^verbatim>\<open>src/serde/duration.rs\<close>): the parser and printer of durations; parsing gives back what was printed,
    and a text of several components is their sum, modulo \<open>2 ^ 64\<close>.
  \<^item> \<open>DateTime\<close> (\<^verbatim>\<open>src/datetime.rs\<close>): system times as dates, proved against the Gregorian calendar, and their ISO 8601 text.
  \<^item> \<open>Logger\<close> (\<^verbatim>\<open>src/log/logger.rs\<close>, \<^verbatim>\<open>src/trace.rs\<close>): formatting of events; what is written and what is still buffered are the
    texts of the enabled events in their order, one line each, also when writes fail, and a subsequence of them when writes are
    short.
  \<^item> \<open>SsConfig\<close> (\<^verbatim>\<open>lib/shadowsocks/src/config.rs\<close>): \<^verbatim>\<open>ss://\<close> URLs and key derivation: parsing ends, its results are usable, the key
    is that of OpenSSL's EVP_BytesToKey, and what a SIP002 URL yields for every method and kind of host.
  \<^item> \<open>CronParse\<close> (\<^verbatim>\<open>lib/cron/src/parse.rs\<close>): the parser of cron expressions.
  \<^item> \<open>Resolver\<close> (\<^verbatim>\<open>lib/resolver/src/lib.rs\<close>, \<^verbatim>\<open>src/http.rs\<close>): the wrapper of the DNS client; the ways to resolve agree.
  \<^item> \<open>SsError\<close> (\<^verbatim>\<open>lib/shadowsocks/src/error.rs\<close>): the public error types and their conversion.

  \<^bold>\<open>The shadowsocks library.\<close>
  \<^item> \<open>Address\<close> (\<^verbatim>\<open>addr.rs\<close>, \<^verbatim>\<open>socks5.rs\<close>): target addresses on the wire and as text.  The locale \<open>byte_reader\<close> states what the
    decoder needs of a stream and is interpreted on the cursor over a packet; decoding inverts encoding and accepts
    exactly the encodings.
  \<^item> \<open>Crypto\<close> (\<^verbatim>\<open>crypto/\<close>): cipher kinds, the counting nonce (the first \<open>2 ^ 96\<close> buffers are sealed under different nonces), salts.
  \<^item> \<open>TcpAead\<close>, \<open>TcpStream\<close> (\<^verbatim>\<open>tcp/aead.rs\<close>): the reader and the writer as state machines; what the writer was given
    arrives at the reader, however the network splits and delays it, and no input makes the reader panic.  The reader's
    buffer has its capacity, and a read beyond it panics.
  \<^item> \<open>TcpAead2022\<close>, \<open>TcpStream2022\<close> (\<^verbatim>\<open>tcp/aead2022.rs\<close>, \<^verbatim>\<open>sys/linux.rs\<close>): the newer protocol.  The program uses it
    with the AEAD-2022 methods only, for which it panics; lemmas show what both directions do with the lengths of an AEAD
    method instead.  Its clock does not count the seconds of the peers.
  \<^item> \<open>CopyBuf\<close> (\<^verbatim>\<open>tcp/utils.rs\<close>): copying a reader to a writer.  The locales \<open>async_reader\<close>, \<open>async_writer\<close> and \<open>async_copy\<close> are the
    contracts of the two traits and of the copy, interpreted on sockets here and on the encrypted stream in \<open>ProxyFlow\<close>.
  \<^item> \<open>TcpProxy\<close>, \<open>ProxyFlow\<close> (\<^verbatim>\<open>tcp/crypto.rs\<close>, \<^verbatim>\<open>tcp/proxy.rs\<close>): the two-way stream and the client's connection; forwarding ends, the
    peer receives the answer, and the server receives the target and the data up to the cut of the first packet.
  \<^item> \<open>SysNet\<close> (\<^verbatim>\<open>option.rs\<close>, \<^verbatim>\<open>sys/net/\<close>): the calls made on a new socket, what they have set
    when it connects and afterwards, and where a failure ends them.
  \<^item> \<open>UdpAead\<close>, \<open>UdpAead2022\<close>, \<open>UdpSocket\<close> (\<^verbatim>\<open>udp/\<close>, \<^verbatim>\<open>crypto/v2/\<close>): packets of both protocols, the cache of session ciphers, and the
    client socket with its timeouts.
  \<^item> \<open>Replay\<close> (\<^verbatim>\<open>security/replay/ppbloom.rs\<close>): the pair of Bloom filters that remembers nonces.

  \<^bold>\<open>The services.\<close>
  \<^item> \<open>JumpHash\<close>, \<open>Upstream\<close> (\<^verbatim>\<open>src/upstream\<close>): hashing, latencies, the subscription, the choice of a server.  The inductive
    relation \<open>running\<close> has the states of a pool under all interleavings of checks, reloads and failure reports; the
    locale \<open>balancer\<close> is the contract of the two strategies.  A round of checks selects the fastest server.
  \<^item> \<open>HealthCheck\<close> (\<^verbatim>\<open>src/upstream/checker.rs\<close>): the check of a server over the encrypted stream of \<open>TcpProxy\<close>.
  \<^item> \<open>DnsRule\<close>, \<open>DnsHandler\<close>, \<open>DnsServer\<close> (\<^verbatim>\<open>src/dns\<close>): rule sets (locales \<open>rule_store\<close> and \<open>exact_rule_store\<close>), cache, handler with its
    states \<open>dns_running\<close>, and the listeners: no datagram stops the service, and answers go only to usable sources.  Both
    implementations of a rule set are modelled; the handler, the listeners and the program take the one that the features of the
    crate select as an argument, so that what is shown of them holds for both.
  \<^item> \<open>Sniffing\<close> (\<^verbatim>\<open>src/relay/thp/sniffing.rs\<close>): the destination of a connection, for every well-formed ClientHello and request.
  \<^item> \<open>ThpServer\<close> (\<^verbatim>\<open>src/relay/thp/server.rs\<close>): the proxy as a whole: a connection is served if a live server is reachable and fewer
    than five live ones are not.
  \<^item> \<open>Controller\<close> (\<^verbatim>\<open>src/controller\<close>): process statistics and the HTTP routes.
  \<^item> \<open>App\<close> (\<^verbatim>\<open>src/config.rs\<close>, \<^verbatim>\<open>src/main.rs\<close>, \<^verbatim>\<open>src/signals.rs\<close>): loading, starting and waiting, as the exit status of the process.
  This theory adds what spans both protocols: that the AEAD-2022 methods cannot be used.

  \<^bold>\<open>Loops and fuel.\<close>  Loops whose end is a theorem are partial functions in \<open>option\<close> (copying, salts, jump hash, sniffing, URLs and
  keys), with the end proved as existence of a result.  Forwarding in both directions (\<open>proxy\<close>) and the reader of a whole stream
  (\<open>read_to_end\<close>) take a number of rounds; the theorems give a bound that is enough: the number of socket events and
  grants of the two sides, and for \<open>read_to_end\<close> the length of the data as well, since every round consumes one of
  them.  The search for a live server by hash makes the finite number of tries of the source.

  \<^bold>\<open>Not modelled.\<close>
  \<^item> The libraries the sources only call: the ciphers and hashes, \<^verbatim>\<open>trust_dns\<close>, \<^verbatim>\<open>hyper\<close>, \<^verbatim>\<open>serde\<close> and \<^verbatim>\<open>serde_yaml\<close> with the derived
    deserializers, \<^verbatim>\<open>tokio\<close>'s runtime and timers: they are parameters.  \<^verbatim>\<open>HttpClient\<close> only configures \<^verbatim>\<open>hyper\<close>.
  \<^item> \<^verbatim>\<open>Cron::next\<close> and \<^verbatim>\<open>Cron::years\<close> (\<^verbatim>\<open>lib/cron\<close>), which have no body that compiles; \<^verbatim>\<open>ReplayProtector\<close> (\<^verbatim>\<open>security/replay/mod.rs\<close>), which
    calls methods that do not exist and is outside the module tree; \<^verbatim>\<open>src/dns/client.rs\<close>, commented out of the module tree.
  \<^item> \<^verbatim>\<open>src/upstream/error.rs\<close>, which no code uses, the empty data types at the end of \<^verbatim>\<open>trie/louds.rs\<close>, getters, and the tests.
  \<^item> Log lines of the components, memory use, and the delivery of signals before the services are started.
  \<^item> Threads inside one handler or one pool appear as interleavings of atomic steps (\<open>running\<close>, \<open>dns_running\<close>); two connections do
    not share state otherwise.
\<close>

section \<open>The AEAD-2022 methods\<close>

lemma aead2022_lens:
  assumes "is_aead2022 k"
  shows "salt_len k = Panic" "tag_len k = Panic" "Cipher_new P k key salt = Panic" "category k = Aead2022"
  using assms by (auto simp: is_aead2022_def salt_len_def Cipher_new_def split: option.splits)

lemma with_identity_2022: "is_aead2022 k \<Longrightarrow> with_identity P B k key salt ids = (Panic :: ('e, EncryptedWriter_2022) res)"
proof -
  assume "is_aead2022 k"
  then have "\<exists>b. identity_headers B k key salt ids = (Ok b :: ('e, bytes) res)"
    using identity_headers_eq [where 'e = 'e, of k] by (auto simp: is_aead2022_def method_support_eih_def identity_headers_def)
  then show ?thesis by (auto simp: with_identity_def aead2022_lens(3) [OF \<open>is_aead2022 k\<close>])
qed

lemma read_2022_panics:
  assumes "is_aead2022 k"
  shows "fst (poll_read_decrypted_2022 P now cap (DecryptedReader_2022_new k key) es) = Ready Panic"
  by (subst poll_read_decrypted_2022.simps)
    (simp add: read_step_2022_def poll_read_header_def DecryptedReader_2022_new_def aead2022_lens [OF assms])

text \<open>
  C19: the AEAD-2022 methods, which a configuration may name, cannot be used: connecting by TCP fails or
  panics, as does each half of the TCP protocol, and a UDP socket panics when it sends and when it
  receives anything.
\<close>

theorem aead2022_unusable:
  assumes "is_aead2022 k" and "sc_method conf = k" and "us_kind ps = k"
  shows "connect P B rng j sys peer resolve conf target opts \<noteq> Some (Ok stream)
    \<and> with_identity P B k key salt ids = (Panic :: (io_error, EncryptedWriter_2022) res)
    \<and> fst (poll_read_decrypted_2022 P now cap (DecryptedReader_2022_new k key) es) = Ready Panic
    \<and> send P E rng j os ps addr payload control = Some Panic
    \<and> (us_recv_timeout ps = None \<longrightarrow> recv P E (Completes t (Ok datagram)) ps buf = Some Panic)"
proof -
  note lens = aead2022_lens [OF assms(1)]
  have "connect P B rng j sys peer resolve conf target opts \<noteq> Some (Ok stream)"
    unfolding connect_def assms(2) from_stream_def lens by (auto split: res.splits)
  moreover have "send P E rng j os ps addr payload control = Some Panic"
    by (simp add: send_def encrypt_send_buffer_def encrypt_client_payload_def assms(3) lens encrypt_2022_panics)
  moreover have "us_recv_timeout ps = None \<longrightarrow> recv P E (Completes t (Ok datagram)) ps buf = Some Panic"
    by (simp add: recv_def recv_with_ctrl_def decrypt_recv_buffer_def decrypt_server_payload_def assms(3) lens decrypt_2022_panics Let_def)
  ultimately show ?thesis using with_identity_2022 [OF assms(1)] read_2022_panics [OF assms(1)] by blast
qed

theorem aead2022_unusable_witness:
  "connect null_prims null_block (\<lambda>j m. replicate m 3) 0 (\<lambda>h op. Ok ()) demo_peer (\<lambda>d p. Err write_zero)
      (demo_conf\<lparr>sc_method := AEAD2022_BLAKE3_AES_256_GCM\<rparr>) (DomainNameAddress ''a.b'' 443) ConnectOpts_default \<noteq> Some (Ok undefined)
    \<and> send null_prims demo_env (\<lambda>j n. replicate n 7) 0 (\<lambda>b. Never) \<lparr>us_kind = AEAD2022_BLAKE3_AES_256_GCM, us_key = replicate 32 1,
        us_send_timeout = None, us_recv_timeout = None, us_identity_keys = []\<rparr> (DomainNameAddress ''a.b'' 53) [1]
        UdpSocketControlData_default = Some Panic"
  using aead2022_unusable [where conf = "demo_conf\<lparr>sc_method := AEAD2022_BLAKE3_AES_256_GCM\<rparr>" and k = AEAD2022_BLAKE3_AES_256_GCM
    and ps = "\<lparr>us_kind = AEAD2022_BLAKE3_AES_256_GCM, us_key = replicate 32 1, us_send_timeout = None, us_recv_timeout = None,
      us_identity_keys = []\<rparr>" and E = demo_env]
  by (simp add: is_aead2022_def)

end
